(* ===== verification/Prelude.thy ===== *)
theory Prelude
  imports Main "HOL-Library.Word" "HOL-Library.Multiset"
begin

text \<open>
  Shared vocabulary of the development: bytes, the three ways a Go call can end, the
  operating system's fallible calls, maps whose iteration order is visible, and the lemmas
  on lists and maps the component theories share. The collection \<open>go_simps\<close> holds the
  rewrite rules for call outcomes; \<open>inv_defs\<close> the definitions of the components'
  invariants.
\<close>

named_theorems go_simps
named_theorems inv_defs

section \<open>Bytes and texts\<close>

type_synonym byte = "8 word"

text \<open>
  A Go string is a sequence of bytes; texts are modelled as \<open>char list\<close> (a \<open>char\<close> of HOL is
  one byte), raw data as lists of bytes.
\<close>

type_synonym bytes = "byte list"

section \<open>Outcomes of a Go call\<close>

text \<open>
  A call returns, panics with a message, or never returns because a channel operation or a
  lock it waits for never becomes ready in the given situation.
\<close>

datatype 'a go = Returns 'a | Panics string | Blocks

fun go_bind :: "'a go \<Rightarrow> ('a \<Rightarrow> 'b go) \<Rightarrow> 'b go" where
  "go_bind (Returns x) f = f x"
| "go_bind (Panics m) f = Panics m"
| "go_bind Blocks f = Blocks"

lemma go_bind_Returns_iff [go_simps]:
  "go_bind m f = Returns y \<longleftrightarrow> (\<exists>x. m = Returns x \<and> f x = Returns y)"
  by (cases m) auto

lemma go_bind_Panics_iff [go_simps]:
  "go_bind m f = Panics e \<longleftrightarrow> m = Panics e \<or> (\<exists>x. m = Returns x \<and> f x = Panics e)"
  by (cases m) auto

section \<open>Maps with an iteration order\<close>

text \<open>
  Go ranges over a map in an unspecified order. Where the code ranges over a map, the model
  takes the map as the list of its entries in the order the range visits them; a property
  stated for every such list holds for every order.
\<close>

definition is_go_map :: "('k \<times> 'v) list \<Rightarrow> bool" where
  "is_go_map m \<longleftrightarrow> distinct (map fst m)"

lemma is_go_map_Nil [simp]: "is_go_map []"
  by (simp add: is_go_map_def)

lemma is_go_map_Cons [simp]:
  "is_go_map ((k, v) # m) \<longleftrightarrow> k \<notin> fst ` set m \<and> is_go_map m"
  by (auto simp: is_go_map_def)

lemma is_go_map_map_of: "is_go_map m \<Longrightarrow> (k, v) \<in> set m \<longleftrightarrow> map_of m k = Some v"
  by (simp add: is_go_map_def)

section \<open>List lemmas\<close>

text \<open>\<open>unset xs\<close> counts the entries of a boolean array that are still false.\<close>

definition unset :: "bool list \<Rightarrow> nat" where
  "unset xs = length (filter Not xs)"

lemma unset_update:
  "i < length xs \<Longrightarrow> \<not> xs ! i \<Longrightarrow> unset (xs[i := True]) < unset xs"
proof (induction xs arbitrary: i)
  case (Cons x xs)
  then show ?case by (cases i) (auto simp: unset_def)
qed simp

lemma take_Suc_set: "i < length xs \<Longrightarrow> set (take (Suc i) xs) = insert (xs ! i) (set (take i xs))"
  by (simp add: take_Suc_conv_app_nth)

text \<open>\<open>lastn n xs\<close>: the last \<open>n\<close> elements.\<close>

definition lastn :: "nat \<Rightarrow> 'a list \<Rightarrow> 'a list" where
  "lastn n xs = drop (length xs - n) xs"

lemma length_lastn [simp]: "length (lastn n xs) = min n (length xs)"
  by (simp add: lastn_def)

lemma lastn_short [simp]: "length xs \<le> n \<Longrightarrow> lastn n xs = xs"
  by (simp add: lastn_def)

lemma lastn_lastn_snoc: "lastn n (lastn n xs @ ys) = lastn n (xs @ ys)"
  by (cases "n \<le> length xs") (auto simp: lastn_def add.commute)

lemma set_lastn: "set (lastn n xs) \<subseteq> set xs"
  by (simp add: lastn_def set_drop_subset)

section \<open>Acyclic relations\<close>

lemma acyclic_map:
  assumes "acyclic s" "\<And>a b. (a, b) \<in> r \<Longrightarrow> (f a, f b) \<in> s"
  shows "acyclic r"
proof (rule acyclicI, rule allI, rule notI)
  fix x
  have "(f a, f b) \<in> s\<^sup>+" if "(a, b) \<in> r\<^sup>+" for a b
    using that by induction (auto intro: assms(2) trancl_into_trancl)
  moreover assume "(x, x) \<in> r\<^sup>+"
  ultimately show False
    using assms(1) by (auto simp: acyclic_def)
qed

lemma acyclic_rank:
  fixes f :: "'a \<Rightarrow> nat"
  assumes "\<And>a b. (a, b) \<in> r \<Longrightarrow> f a < f b"
  shows "acyclic r"
  using assms by (intro acyclic_map [of less_than _ f]) (auto intro: wf_acyclic)

lemma length_takeWhile_neq_less:
  "x \<in> set (take p xs) \<Longrightarrow> length (takeWhile (\<lambda>y. y \<noteq> x) xs) < p"
proof (induction xs arbitrary: p)
  case (Cons y ys)
  then show ?case by (cases p) auto
qed simp

lemma length_takeWhile_neq_nth:
  "distinct xs \<Longrightarrow> p < length xs \<Longrightarrow> length (takeWhile (\<lambda>y. y \<noteq> xs ! p) xs) = p"
proof (induction xs arbitrary: p)
  case (Cons y ys)
  then show ?case by (cases p) auto
qed simp

end
