(* ===== verification/Ids.thy ===== *)
theory Ids
  imports Prelude "HOL-Library.List_Lexorder"
begin

text \<open>
  Package \<open>build\<close>, file \<open>id.go\<close>: the 20-byte identifiers of files, jobs, artifacts and
  builds, their hexadecimal text form and the path an artifact has inside a cache.
  The functions of the standard package \<open>encoding/hex\<close> that the code calls are modelled
  with its tables and its errors.
\<close>

unbundle bit_operations_syntax

section \<open>encoding/hex\<close>

text \<open>The text form of a byte: the digit of its high half, then the one of its low half.\<close>

definition hextable :: string where
  "hextable = ''0123456789abcdef''"

definition hex_byte :: "byte \<Rightarrow> string" where
  "hex_byte b = [hextable ! unat (drop_bit 4 b), hextable ! unat (b AND 15)]"

definition EncodeToString :: "bytes \<Rightarrow> string" where
  "EncodeToString bs = concat (map hex_byte bs)"

definition from_hex_char :: "char \<Rightarrow> byte option" where
  "from_hex_char c =
     (let n = (of_char c :: nat)
      in if 48 \<le> n \<and> n \<le> 57 then Some (of_nat (n - 48))
         else if 97 \<le> n \<and> n \<le> 102 then Some (of_nat (n - 97 + 10))
         else if 65 \<le> n \<and> n \<le> 70 then Some (of_nat (n - 65 + 10))
         else None)"

text \<open>
  \<open>DecodeString\<close> reads pairs of digits; the first character that is no digit is an error.
  A single character left at the end is \<open>InvalidByteError\<close> when it is no digit and
  \<open>ErrLength\<close> when it is one. The last error is the one \<open>UnmarshalText\<close> adds.
\<close>

datatype id_error = InvalidByteError char | ErrLength | InvalidIDSize string

fun DecodeString :: "string \<Rightarrow> id_error + bytes" where
  "DecodeString [] = Inr []"
| "DecodeString [c] =
     (case from_hex_char c of None \<Rightarrow> Inl (InvalidByteError c) | Some _ \<Rightarrow> Inl ErrLength)"
| "DecodeString (c # d # cs) =
     (case from_hex_char c of
        None \<Rightarrow> Inl (InvalidByteError c)
      | Some a \<Rightarrow>
          (case from_hex_char d of
             None \<Rightarrow> Inl (InvalidByteError d)
           | Some b \<Rightarrow>
               (case DecodeString cs of
                  Inl e \<Rightarrow> Inl e
                | Inr bs \<Rightarrow> Inr ((push_bit 4 a OR b) # bs))))"

section \<open>The identifier type\<close>

text \<open>\<open>type ID [sha1.Size]byte\<close>: exactly 20 bytes.\<close>

definition id_size :: nat where
  "id_size = 20"

typedef ID = "{bs :: bytes. length bs = id_size}" morphisms raw ID_of_raw
  by (rule exI [of _ "replicate id_size 0"]) simp

lemma length_raw [simp]: "length (raw i) = id_size"
  using raw [of i] by simp

lemma raw_ID_of_raw [simp]: "length bs = id_size \<Longrightarrow> raw (ID_of_raw bs) = bs"
  by (simp add: ID_of_raw_inverse)

lemma ID_eq_iff: "i = j \<longleftrightarrow> raw i = raw j"
  by (simp add: raw_inject)

text \<open>
  The composite literal \<open>ID{b0, b1, ...}\<close>: bytes that are not given are zero. The zero
  value of the type is \<open>ID{}\<close>.
\<close>

definition ID_lit :: "bytes \<Rightarrow> ID" where
  "ID_lit bs = ID_of_raw (take id_size (bs @ replicate id_size 0))"

abbreviation ID_zero :: ID where
  "ID_zero \<equiv> ID_lit []"

lemma raw_ID_lit: "raw (ID_lit bs) = take id_size (bs @ replicate id_size 0)"
  by (simp add: ID_lit_def)

lemma ID_lit_single_eq [simp]: "ID_lit [a] = ID_lit [b] \<longleftrightarrow> a = b"
  by (simp add: ID_eq_iff raw_ID_lit id_size_def)

lemma ID_lit_single_zero [simp]: "ID_lit [a] = ID_zero \<longleftrightarrow> a = 0" "ID_zero = ID_lit [a] \<longleftrightarrow> a = 0"
  by (auto simp: ID_eq_iff raw_ID_lit id_size_def numeral_eq_Suc)

text \<open>Identifiers compare byte by byte; the order is the one of their text forms.\<close>

instantiation ID :: equal
begin

definition equal_ID :: "ID \<Rightarrow> ID \<Rightarrow> bool" where
  "equal_ID i j \<longleftrightarrow> raw i = raw j"

instance
  by standard (simp add: equal_ID_def ID_eq_iff)

end

instantiation ID :: linorder
begin

definition less_eq_ID :: "ID \<Rightarrow> ID \<Rightarrow> bool" where
  "less_eq_ID i j \<longleftrightarrow> raw i \<le> raw j"

definition less_ID :: "ID \<Rightarrow> ID \<Rightarrow> bool" where
  "less_ID i j \<longleftrightarrow> raw i < raw j"

instance
  by standard (auto simp: less_eq_ID_def less_ID_def ID_eq_iff)

end

section \<open>The methods of ID\<close>

definition ID_String :: "ID \<Rightarrow> string" where
  "ID_String i = EncodeToString (raw i)"

text \<open>
  \<open>filepath.Join\<close> of two names that hold no separator: the first is the directory. The path
  is the list of its components.
\<close>

definition ID_Path :: "ID \<Rightarrow> string list" where
  "ID_Path i = [EncodeToString (take 1 (raw i)), EncodeToString (raw i)]"

definition ID_MarshalText :: "ID \<Rightarrow> string" where
  "ID_MarshalText i = EncodeToString (raw i)"

text \<open>
  \<open>UnmarshalText\<close> writes through its receiver only when it succeeds; the result is the
  receiver's value after the call, or the error.
\<close>

definition ID_UnmarshalText :: "string \<Rightarrow> id_error + ID" where
  "ID_UnmarshalText b =
     (case DecodeString b of
        Inl e \<Rightarrow> Inl e
      | Inr bs \<Rightarrow> (if length bs \<noteq> id_size then Inl (InvalidIDSize b) else Inr (ID_of_raw bs)))"

text \<open>\<open>NewID\<close> fills the identifier from the random source, or panics when that fails.\<close>

definition NewID :: "string + bytes \<Rightarrow> ID go" where
  "NewID rand =
     (case rand of
        Inl err \<Rightarrow> Panics (''crypto/rand is unavailable: '' @ err)
      | Inr bs \<Rightarrow> Returns (ID_of_raw (take id_size bs)))"

section \<open>Round trips\<close>

lemma from_hex_char_digit:
  assumes "n < 16"
  shows "from_hex_char (hextable ! n) = Some (of_nat n)"
proof -
  from assms have "n \<in> set [0, 1, 2, 3, 4, 5, 6, 7, 8, 9, 10, 11, 12, 13, 14, 15]"
    by simp arith
  then show ?thesis
    by (auto simp: hextable_def from_hex_char_def Let_def)
qed

lemma byte_low_half: "b AND 15 = take_bit 4 (b :: byte)"
  by (simp add: take_bit_eq_mask mask_eq_exp_minus_1)

lemma byte_halves: "push_bit 4 (drop_bit 4 b) OR (b AND 15) = (b :: byte)"
  unfolding byte_low_half
  by (rule bit_eqI) (auto simp: bit_or_iff bit_take_bit_iff bit_push_bit_iff bit_drop_bit_eq)

lemma byte_half_bounds: "unat (drop_bit 4 b) < 16" "unat (b AND 15) < 16" for b :: byte
proof -
  have "unat b < 256"
    using unsigned_less [of b] by simp
  then show "unat (drop_bit 4 b) < 16"
    by (simp add: drop_bit_eq_div unat_div)
  have "unat (b AND 15) \<le> unat (15 :: byte)"
    using word_and_le1 [of b 15] by (simp add: word_le_nat_alt)
  then show "unat (b AND 15) < 16" by simp
qed

lemma hex_byte_decode:
  obtains c d x y where "hex_byte b = [c, d]" "from_hex_char c = Some x"
    "from_hex_char d = Some y" "push_bit 4 x OR y = b"
proof
  show "hex_byte b = [hextable ! unat (drop_bit 4 b), hextable ! unat (b AND 15)]"
    by (simp add: hex_byte_def)
  show "push_bit 4 (of_nat (unat (drop_bit 4 b))) OR of_nat (unat (b AND 15)) = b"
    using byte_halves [of b] by simp
qed (rule from_hex_char_digit byte_half_bounds)+

lemma EncodeToString_Nil [simp]: "EncodeToString [] = []"
  by (simp add: EncodeToString_def)

lemma EncodeToString_Cons [simp]: "EncodeToString (b # bs) = hex_byte b @ EncodeToString bs"
  by (simp add: EncodeToString_def)

lemma length_EncodeToString [simp]: "length (EncodeToString bs) = 2 * length bs"
  by (induction bs) (simp_all add: hex_byte_def)

lemma DecodeString_Encode [simp]: "DecodeString (EncodeToString bs) = Inr bs"
proof (induction bs)
  case (Cons b bs)
  obtain c d x y where "hex_byte b = [c, d]" "from_hex_char c = Some x"
    "from_hex_char d = Some y" "push_bit 4 x OR y = b"
    by (rule hex_byte_decode)
  with Cons show ?case by simp
qed simp

lemma EncodeToString_inj: "EncodeToString bs = EncodeToString cs \<Longrightarrow> bs = cs"
  by (metis DecodeString_Encode sum.inject(2))

lemma length_DecodeString: "DecodeString s = Inr bs \<Longrightarrow> length s = 2 * length bs"
  by (induction s arbitrary: bs rule: DecodeString.induct)
     (auto split: option.splits sum.splits)

lemma ID_String_inj [simp]: "ID_String i = ID_String j \<longleftrightarrow> i = j"
  by (auto simp: ID_String_def ID_eq_iff dest: EncodeToString_inj)

lemma ID_Path_inj [simp]: "ID_Path i = ID_Path j \<longleftrightarrow> i = j"
  by (auto simp: ID_Path_def ID_eq_iff dest: EncodeToString_inj)

section \<open>The texts UnmarshalText accepts\<close>

definition ascii_lower :: "char \<Rightarrow> char" where
  "ascii_lower c =
     (let n = (of_char c :: nat) in if 65 \<le> n \<and> n \<le> 90 then char_of (n + 32) else c)"

lemma of_char_hextable:
  assumes "n < 16"
  shows "(of_char (hextable ! n) :: nat) = (if n < 10 then 48 + n else 87 + n)"
proof -
  from assms have "n \<in> set [0, 1, 2, 3, 4, 5, 6, 7, 8, 9, 10, 11, 12, 13, 14, 15]"
    by simp arith
  then show ?thesis
    by (auto simp: hextable_def)
qed

lemma of_char_ascii_lower:
  "(of_char (ascii_lower c) :: nat) =
     (let n = of_char c in if 65 \<le> n \<and> n \<le> 90 then n + 32 else n)"
  by (simp add: ascii_lower_def Let_def)

definition hex_value :: "nat \<Rightarrow> nat option" where
  "hex_value n =
     (if 48 \<le> n \<and> n \<le> 57 then Some (n - 48)
      else if 97 \<le> n \<and> n \<le> 102 then Some (n - 87)
      else if 65 \<le> n \<and> n \<le> 70 then Some (n - 55) else None)"

lemma from_hex_char_value: "from_hex_char c = map_option of_nat (hex_value (of_char c))"
  by (auto simp: from_hex_char_def hex_value_def Let_def)

lemma hex_value_iff:
  "hex_value n = Some k \<longleftrightarrow>
     k < 16 \<and> (if 65 \<le> n \<and> n \<le> 90 then n + 32 else n) = (if k < 10 then 48 + k else 87 + k)"
  by (auto simp: hex_value_def)

lemma from_hex_char_iff:
  "from_hex_char c = Some a \<longleftrightarrow> unat a < 16 \<and> ascii_lower c = hextable ! unat a"
proof -
  have small: "unat (of_nat k :: byte) = k" if "k < 16" for k
    using that by (simp add: unat_of_nat)
  have "from_hex_char c = Some a \<longleftrightarrow> hex_value (of_char c) = Some (unat a)"
  proof (cases "hex_value (of_char c)")
    case (Some k)
    then have "k < 16"
      by (simp add: hex_value_iff)
    with Some show ?thesis
      by (simp add: from_hex_char_value word_unat_eq_iff small)
  qed (simp add: from_hex_char_value)
  also have "\<dots> \<longleftrightarrow> unat a < 16 \<and> (of_char (ascii_lower c) :: nat) = of_char (hextable ! unat a)"
    by (auto simp: hex_value_iff of_char_ascii_lower of_char_hextable Let_def simp del: of_char_eq_iff)
  finally show ?thesis by simp
qed

lemma hex_byte_lower_iff:
  "[ascii_lower c, ascii_lower d] = hex_byte b \<longleftrightarrow>
     (\<exists>x y. from_hex_char c = Some x \<and> from_hex_char d = Some y \<and> push_bit 4 x OR y = b)"
proof
  assume eq: "[ascii_lower c, ascii_lower d] = hex_byte b"
  then show "\<exists>x y. from_hex_char c = Some x \<and> from_hex_char d = Some y \<and> push_bit 4 x OR y = b"
    by (intro exI [of _ "drop_bit 4 b"] exI [of _ "b AND 15"])
       (simp add: hex_byte_def from_hex_char_iff byte_half_bounds byte_halves)
next
  assume "\<exists>x y. from_hex_char c = Some x \<and> from_hex_char d = Some y \<and> push_bit 4 x OR y = b"
  then obtain x y where x: "unat x < 16" "ascii_lower c = hextable ! unat x"
    and y: "unat y < 16" "ascii_lower d = hextable ! unat y" and b: "b = push_bit 4 x OR y"
    by (auto simp: from_hex_char_iff)
  have nibble: "n < 4" if "unat z < 16" "bit z n" for z :: byte and n
  proof -
    have "take_bit 4 z = z"
      using that(1) by (simp add: take_bit_eq_mod word_eq_iff_unsigned [where ?'a = nat] unat_mod)
    with that(2) show ?thesis
      by (metis bit_take_bit_iff)
  qed
  have "drop_bit 4 b = x" "take_bit 4 b = y"
    unfolding b using nibble [OF x(1)] nibble [OF y(1)]
    by (auto intro!: bit_eqI simp: bit_or_iff bit_take_bit_iff bit_push_bit_iff bit_drop_bit_eq
        dest: bit_imp_le_length) fastforce+
  then show "[ascii_lower c, ascii_lower d] = hex_byte b"
    using x y by (simp add: hex_byte_def byte_low_half)
qed

lemma DecodeString_iff: "DecodeString s = Inr bs \<longleftrightarrow> map ascii_lower s = EncodeToString bs"
proof (induction s arbitrary: bs rule: DecodeString.induct)
  case 1
  then show ?case by (cases bs) (auto simp: hex_byte_def)
next
  case (2 c)
  then show ?case by (cases bs) (auto simp: hex_byte_def split: option.splits)
next
  case (3 c d cs)
  show ?case
  proof (cases bs)
    case Nil
    then show ?thesis
      by (auto split: option.splits sum.splits)
  next
    case (Cons b bs')
    have "DecodeString (c # d # cs) = Inr bs \<longleftrightarrow>
        (\<exists>x y. from_hex_char c = Some x \<and> from_hex_char d = Some y \<and> push_bit 4 x OR y = b) \<and>
        DecodeString cs = Inr bs'"
      by (auto simp: Cons split: option.splits sum.splits)
    also have "\<dots> \<longleftrightarrow> [ascii_lower c, ascii_lower d] = hex_byte b \<and>
        map ascii_lower cs = EncodeToString bs'"
      unfolding hex_byte_lower_iff using "3.IH" by (auto split: option.splits)
    finally show ?thesis
      by (auto simp: Cons hex_byte_def)
  qed
qed

text \<open>
  The text form determines the identifier: decoding what \<open>MarshalText\<close> wrote returns the
  identifier, and \<open>UnmarshalText\<close> accepts exactly the texts that are, up to the case of the
  letters, the text form of some identifier.
\<close>

theorem id_text_accepts:
  "ID_UnmarshalText s = Inr i \<longleftrightarrow> map ascii_lower s = ID_MarshalText i"
proof
  assume "ID_UnmarshalText s = Inr i"
  then obtain bs where "DecodeString s = Inr bs" "length bs = id_size" "i = ID_of_raw bs"
    by (auto simp: ID_UnmarshalText_def split: sum.splits if_splits)
  then show "map ascii_lower s = ID_MarshalText i"
    by (simp add: ID_MarshalText_def DecodeString_iff)
next
  assume "map ascii_lower s = ID_MarshalText i"
  then have "DecodeString s = Inr (raw i)"
    by (simp add: ID_MarshalText_def DecodeString_iff)
  then show "ID_UnmarshalText s = Inr i"
    by (simp add: ID_UnmarshalText_def raw_inverse)
qed

text \<open>
  Round trip: \<open>UnmarshalText\<close> of the text that \<open>MarshalText\<close> (and \<open>String\<close>) produce for an
  identifier returns that identifier.
\<close>

theorem id_text_roundtrip:
  "ID_UnmarshalText (ID_MarshalText i) = Inr i \<and> ID_UnmarshalText (ID_String i) = Inr i"
  by (simp add: ID_UnmarshalText_def ID_MarshalText_def ID_String_def raw_inverse)

end
