(* ===== verification/Build_Graph.thy ===== *)
theory Build_Graph
  imports Ids
begin

text \<open>
  Package \<open>build\<close>, files \<open>graph.go\<close> and \<open>cmd.go\<close>: jobs, commands and build graphs, and the
  substitution of the context variables in a command. The template engine (package
  \<open>text/template\<close>) is a parameter: a parser of template texts and an executor of parsed
  templates, each of which may fail.
\<close>

section \<open>The data of a build\<close>

record Cmd =
  Exec :: "string list"
  Environ :: "string list"
  WorkingDirectory :: string
  CatTemplate :: string
  CatOutput :: string

record Job =
  Job_ID :: ID
  Job_Name :: string
  Inputs :: "string list"
  Deps :: "ID list"
  Cmds :: "Cmd list"

record Graph =
  Graph_SourceFiles :: "(ID \<times> string) list"
  Graph_Jobs :: "Job list"

section \<open>Rendering a command\<close>

record JobContext =
  ctx_SourceDir :: string
  ctx_OutputDir :: string
  ctx_Deps :: "(ID \<times> string) list"

record FixedCtx =
  fx_SourceDir :: string
  fx_OutputDir :: string
  fx_Deps :: "string \<rightharpoonup> string"

definition fixedCtx :: "JobContext \<Rightarrow> FixedCtx" where
  "fixedCtx ctx =
     \<lparr>fx_SourceDir = ctx_SourceDir ctx, fx_OutputDir = ctx_OutputDir ctx,
      fx_Deps = fold (\<lambda>(k, v) m. m(ID_String k \<mapsto> v)) (ctx_Deps ctx) Map.empty\<rparr>"

text \<open>
  The closure \<open>render\<close> appends to the captured slice \<open>errs\<close>; here the slice is passed along
  and returned.
\<close>

type_synonym 't parser = "string \<Rightarrow> string + 't"
type_synonym 't executor = "'t \<Rightarrow> FixedCtx \<Rightarrow> string + string"

definition render :: "'t parser \<Rightarrow> 't executor \<Rightarrow> FixedCtx \<Rightarrow> string \<Rightarrow> string list \<Rightarrow> string \<times> string list" where
  "render parse execute fx str errs =
     (case parse str of
        Inl err \<Rightarrow> ([], errs @ [err])
      | Inr t \<Rightarrow>
          (case execute t fx of
             Inl err \<Rightarrow> ([], errs @ [err])
           | Inr b \<Rightarrow> (b, errs)))"

fun renderList :: "'t parser \<Rightarrow> 't executor \<Rightarrow> FixedCtx \<Rightarrow> string list \<Rightarrow> string list
    \<Rightarrow> string list \<times> string list" where
  "renderList parse execute fx [] errs = ([], errs)"
| "renderList parse execute fx (s # l) errs =
     (let (r, errs1) = render parse execute fx s errs;
          (rs, errs2) = renderList parse execute fx l errs1
      in (r # rs, errs2))"

definition Render :: "'t parser \<Rightarrow> 't executor \<Rightarrow> JobContext \<Rightarrow> Cmd \<Rightarrow> string + Cmd" where
  "Render parse execute ctx c =
     (let fx = fixedCtx ctx;
          (out, errs1) = render parse execute fx (CatOutput c) [];
          (tmpl, errs2) = render parse execute fx (CatTemplate c) errs1;
          (dir, errs3) = render parse execute fx (WorkingDirectory c) errs2;
          (exe, errs4) = renderList parse execute fx (Exec c) errs3;
          (env, errs5) = renderList parse execute fx (Environ c) errs4
      in if errs5 \<noteq> []
         then Inl (''error rendering cmd: '' @ hd errs5)
         else Inr \<lparr>Exec = exe, Environ = env, WorkingDirectory = dir,
                   CatTemplate = tmpl, CatOutput = out\<rparr>)"

section \<open>What rendering computes\<close>

text \<open>
  Reference: each text of the command is rendered on its own; the first failing text, in the
  order in which the code visits them, decides the error.
\<close>

definition render_text :: "'t parser \<Rightarrow> 't executor \<Rightarrow> FixedCtx \<Rightarrow> string \<Rightarrow> string + string" where
  "render_text parse execute fx s =
     (case parse s of Inl e \<Rightarrow> Inl e | Inr t \<Rightarrow> execute t fx)"

definition cmd_texts :: "Cmd \<Rightarrow> string list" where
  "cmd_texts c = CatOutput c # CatTemplate c # WorkingDirectory c # Exec c @ Environ c"

definition text_errors :: "('e + 'a) list \<Rightarrow> 'e list" where
  "text_errors rs = concat (map (case_sum (\<lambda>e. [e]) (\<lambda>_. [])) rs)"

definition text_value :: "'e + string \<Rightarrow> string" where
  "text_value r = case_sum (\<lambda>_. []) id r"

lemma render_eq:
  "render parse execute fx s errs =
     (text_value (render_text parse execute fx s),
      errs @ text_errors [render_text parse execute fx s])"
  by (auto simp: render_def render_text_def text_value_def text_errors_def split: sum.splits)

lemma text_errors_append [simp]: "text_errors (xs @ ys) = text_errors xs @ text_errors ys"
  by (simp add: text_errors_def)

lemma text_errors_Cons: "text_errors (x # xs) = text_errors [x] @ text_errors xs"
  by (simp add: text_errors_def)

lemma renderList_eq:
  "renderList parse execute fx l errs =
     (map (text_value \<circ> render_text parse execute fx) l,
      errs @ text_errors (map (render_text parse execute fx) l))"
proof (induction l arbitrary: errs)
  case (Cons s l)
  then show ?case
    by (simp add: render_eq text_errors_Cons [of _ "map _ _"])
qed (simp add: text_errors_def)

definition map_texts :: "(string \<Rightarrow> string) \<Rightarrow> Cmd \<Rightarrow> Cmd" where
  "map_texts f c =
     \<lparr>Exec = map f (Exec c), Environ = map f (Environ c),
      WorkingDirectory = f (WorkingDirectory c), CatTemplate = f (CatTemplate c),
      CatOutput = f (CatOutput c)\<rparr>"

lemma Render_eq:
  "Render parse execute ctx c =
     (let f = render_text parse execute (fixedCtx ctx)
      in case text_errors (map f (cmd_texts c)) of
           [] \<Rightarrow> Inr (map_texts (text_value \<circ> f) c)
         | e # _ \<Rightarrow> Inl (''error rendering cmd: '' @ e))"
  unfolding Render_def cmd_texts_def map_texts_def
  by (simp add: render_eq renderList_eq Let_def text_errors_Cons [of _ "_ # _"]
      text_errors_Cons [of _ "map _ _ @ _"] split: list.split)

lemma text_errors_Nil_iff: "text_errors rs = [] \<longleftrightarrow> (\<forall>r \<in> set rs. \<exists>v. r = Inr v)"
  by (induction rs) (auto simp: text_errors_def split: sum.splits)

lemma fixedCtx_Deps_lookup:
  assumes "is_go_map (ctx_Deps ctx)"
  shows "fx_Deps (fixedCtx ctx) (ID_String k) = map_of (ctx_Deps ctx) k"
proof -
  have "fold (\<lambda>(k, v) m. m(ID_String k \<mapsto> v)) xs m (ID_String k) =
      (case map_of xs k of None \<Rightarrow> m (ID_String k) | Some v \<Rightarrow> Some v)"
    if "is_go_map xs" for xs :: "(ID \<times> string) list" and m
    using that
  proof (induction xs arbitrary: m)
    case (Cons x xs)
    then show ?case
      by (cases x) (auto split: option.splits dest: map_of_SomeD intro: rev_image_eqI)
  qed simp
  from this [OF assms, of Map.empty] show ?thesis
    by (simp add: fixedCtx_def split: option.splits)
qed

section \<open>Properties\<close>

text \<open>
  C38. \<open>Render\<close> substitutes the context in every text of a command - output, template, working
  directory, arguments and environment, each on its own - when all of them render; otherwise its
  error names the first text that fails, in this order. A dependency is found in the context
  under the text of its identifier.
\<close>

theorem Render_substitutes:
  "Render parse execute ctx c =
     (let f = render_text parse execute (fixedCtx ctx)
      in case text_errors (map f (cmd_texts c)) of
           [] \<Rightarrow> Inr (map_texts (text_value \<circ> f) c)
         | e # _ \<Rightarrow> Inl (''error rendering cmd: '' @ e)) \<and>
   (is_go_map (ctx_Deps ctx) \<longrightarrow> fx_Deps (fixedCtx ctx) (ID_String k) = map_of (ctx_Deps ctx) k)"
  using Render_eq fixedCtx_Deps_lookup by blast

definition demo_ctx :: JobContext where
  "demo_ctx = \<lparr>ctx_SourceDir = ''/src'', ctx_OutputDir = ''/out'', ctx_Deps = [(ID_zero, ''/dep'')]\<rparr>"

theorem Render_substitutes_witness:
  "Render Inr (\<lambda>t fx. Inr (t @ fx_OutputDir fx)) demo_ctx
     \<lparr>Exec = [''cc''], Environ = [], WorkingDirectory = [], CatTemplate = [], CatOutput = ''x''\<rparr> =
   Inr \<lparr>Exec = [''cc/out''], Environ = [], WorkingDirectory = ''/out'', CatTemplate = ''/out'', CatOutput = ''x/out''\<rparr> \<and>
   fx_Deps (fixedCtx demo_ctx) (ID_String ID_zero) = Some ''/dep''"
  using Render_substitutes [of Inr "\<lambda>t fx. Inr (t @ fx_OutputDir fx)" demo_ctx
     "\<lparr>Exec = [''cc''], Environ = [], WorkingDirectory = [], CatTemplate = [], CatOutput = ''x''\<rparr>" ID_zero]
  by (simp add: demo_ctx_def fixedCtx_def cmd_texts_def render_text_def text_errors_def map_texts_def text_value_def)

end
