(* ===== verification/Top_Sort.thy ===== *)
theory Top_Sort
  imports Build_Graph
begin

text \<open>
  Package \<open>build\<close>, file \<open>top_sort.go\<close>: the depth-first topological sort of a job list. The
  recursive closure \<open>visit\<close> works on the array \<open>visited\<close> and the slice \<open>sorted\<close>; here both are
  passed along. An index outside the array is a panic, so the functions return an \<open>option\<close>
  (\<open>None\<close> for the panic), and it is proved that it never happens.
\<close>

section \<open>The algorithm\<close>

text \<open>
  The map \<open>jobIDIndex\<close>: a later job with the same identifier overwrites an earlier one, and
  reading a missing key gives the zero value, index 0.
\<close>

definition jobIDIndex :: "Job list \<Rightarrow> ID \<rightharpoonup> nat" where
  "jobIDIndex jobs = fold (\<lambda>(i, j) m. m(Job_ID j \<mapsto> i)) (enumerate 0 jobs) Map.empty"

definition job_index :: "Job list \<Rightarrow> ID \<Rightarrow> nat" where
  "job_index jobs d = (case jobIDIndex jobs d of None \<Rightarrow> 0 | Some i \<Rightarrow> i)"

type_synonym sort_state = "bool list \<times> Job list"

function (sequential) visit :: "Job list \<Rightarrow> nat \<Rightarrow> sort_state \<Rightarrow> sort_state option"
  and visit_deps :: "Job list \<Rightarrow> ID list \<Rightarrow> sort_state \<Rightarrow> sort_state option" where
  "visit jobs i (visited, out) =
     (if i < length visited \<and> i < length jobs then
        if visited ! i then Some (visited, out)
        else
          (case visit_deps jobs (Deps (jobs ! i)) (visited[i := True], out) of
             None \<Rightarrow> None
           | Some (visited', out') \<Rightarrow> Some (visited', out' @ [jobs ! i]))
      else None)"
| "visit_deps jobs [] st = Some st"
| "visit_deps jobs (dep # deps) st =
     (case visit jobs (job_index jobs dep) st of
        None \<Rightarrow> None
      | Some st' \<Rightarrow> visit_deps jobs deps st')"
  by pat_completeness auto

text \<open>
  The recursion is nested: \<open>visit_deps\<close> continues with the state an inner \<open>visit\<close> returned.
  That state has no more unvisited jobs than before, which is shown for every call that
  returns, before termination itself.
\<close>

lemma visit_unset_le:
  "visit_visit_deps_dom (Inl (jobs, i, st)) \<Longrightarrow> visit jobs i st = Some st' \<Longrightarrow>
     unset (fst st') \<le> unset (fst st)"
  "visit_visit_deps_dom (Inr (jobs, deps, st)) \<Longrightarrow> visit_deps jobs deps st = Some st' \<Longrightarrow>
     unset (fst st') \<le> unset (fst st)"
proof (induction jobs i st and jobs deps st arbitrary: st' and st' rule: visit_visit_deps.pinduct)
  case (1 jobs i visited out)
  show ?case
  proof (cases "i < length visited \<and> i < length jobs \<and> \<not> visited ! i")
    case True
    with 1 obtain st1 where deps: "visit_deps jobs (Deps (jobs ! i)) (visited[i := True], out) = Some st1"
      and st': "st' = (fst st1, snd st1 @ [jobs ! i])"
      by (auto simp: visit.psimps split: option.splits)
    from "1.IH" [OF _ _ deps] True st' have "unset (fst st') \<le> unset (visited[i := True])"
      by simp
    also have "\<dots> \<le> unset visited"
      using True by (simp add: unset_update less_imp_le)
    finally show ?thesis by simp
  next
    case False
    with "1.prems" "1.hyps" show ?thesis
      by (auto simp: visit.psimps split: if_splits)
  qed
next
  case (2 jobs st)
  then show ?case by (simp add: visit_deps.psimps)
next
  case (3 jobs dep deps st)
  then obtain st1 where st1: "visit jobs (job_index jobs dep) st = Some st1"
    and st': "visit_deps jobs deps st1 = Some st'"
    by (auto simp: visit_deps.psimps split: option.splits)
  from "3.IH"(2) [OF st1 st'] "3.IH"(1) [OF st1] show ?case
    by (rule le_trans)
qed

termination visit
proof (relation "measures
    [case_sum (\<lambda>(jobs, i, st). unset (fst st)) (\<lambda>(jobs, deps, st). unset (fst st)),
     case_sum (\<lambda>(jobs, i, st). 0) (\<lambda>(jobs, deps, st). Suc (length deps))]", goal_cases)
  case 1
  then show ?case by simp
next
  case (2 jobs i visited out)
  then show ?case by (simp add: unset_update)
next
  case (3 jobs dep deps st)
  then show ?case by simp
next
  case (4 jobs dep deps st st')
  then show ?case
    using visit_unset_le(1) by (fastforce simp: le_less)
qed

declare visit.simps [simp del]

fun visit_all :: "Job list \<Rightarrow> nat list \<Rightarrow> sort_state \<Rightarrow> sort_state option" where
  "visit_all jobs [] st = Some st"
| "visit_all jobs (i # is) st =
     (case visit jobs i st of None \<Rightarrow> None | Some st' \<Rightarrow> visit_all jobs is st')"

definition TopSort :: "Job list \<Rightarrow> Job list option" where
  "TopSort jobs =
     map_option snd (visit_all jobs [0..<length jobs] (replicate (length jobs) False, []))"

section \<open>The index map\<close>

lemma fold_enum_upd:
  "fold (\<lambda>(i, j) m. m(f j \<mapsto> i)) xs m = m ++ map_of (rev (map (\<lambda>(i, j). (f j, i)) xs))"
  by (induction xs arbitrary: m) (auto simp: map_add_def fun_eq_iff split: option.splits)

lemma jobIDIndex_eq:
  "jobIDIndex jobs = map_of (rev (map (\<lambda>(i, j). (Job_ID j, i)) (enumerate 0 jobs)))"
  by (simp add: jobIDIndex_def fold_enum_upd)

lemma jobIDIndex_SomeD:
  assumes "jobIDIndex jobs d = Some i"
  shows "i < length jobs" "Job_ID (jobs ! i) = d"
  using map_of_SomeD [OF assms [unfolded jobIDIndex_eq]]
  by (auto simp: in_set_enumerate_eq)

lemma job_index_less: "jobs \<noteq> [] \<Longrightarrow> job_index jobs d < length jobs"
  by (auto simp: job_index_def jobIDIndex_SomeD split: option.splits)

lemma job_index_unique:
  assumes "distinct (map Job_ID jobs)" "i < length jobs"
  shows "job_index jobs (Job_ID (jobs ! i)) = i"
proof -
  let ?kvs = "map (\<lambda>(i, j). (Job_ID j, i)) (enumerate 0 jobs)"
  have "map fst ?kvs = map Job_ID (map snd (enumerate 0 jobs))"
    by (simp add: comp_def case_prod_beta del: map_snd_enumerate)
  then have keys: "map fst ?kvs = map Job_ID jobs"
    by simp
  have "(Job_ID (jobs ! i), i) \<in> set ?kvs"
    using assms(2) by (force simp: in_set_enumerate_eq)
  with keys assms(1) have "map_of (rev ?kvs) (Job_ID (jobs ! i)) = Some i"
    by (intro map_of_is_SomeI) (simp_all add: rev_map [symmetric])
  then show ?thesis
    by (simp add: job_index_def jobIDIndex_eq)
qed

section \<open>Correctness of the traversal\<close>

text \<open>
  The jobs output so far are those at the indices \<open>ks\<close>; \<open>G\<close> holds the indices whose visit
  has started and not ended. A job is marked visited when it is in one of the two.
\<close>

definition sort_inv :: "Job list \<Rightarrow> nat set \<Rightarrow> nat list \<Rightarrow> sort_state \<Rightarrow> bool" where
  [inv_defs]: "sort_inv jobs G ks st \<longleftrightarrow>
     length (fst st) = length jobs \<and> snd st = map ((!) jobs) ks \<and> distinct ks \<and>
     G \<inter> set ks = {} \<and> G \<union> set ks = {k. k < length jobs \<and> fst st ! k}"

text \<open>\<open>dep_index_rel\<close>: index of a dependency, index of the job that names it.\<close>

definition dep_index_rel :: "Job list \<Rightarrow> (nat \<times> nat) set" where
  "dep_index_rel jobs =
     {(job_index jobs d, j) | d j. j < length jobs \<and> d \<in> set (Deps (jobs ! j))}"

definition index_ordered :: "Job list \<Rightarrow> nat list \<Rightarrow> bool" where
  "index_ordered jobs ks \<longleftrightarrow>
     (\<forall>p < length ks. \<forall>d \<in> set (Deps (jobs ! (ks ! p))). job_index jobs d \<in> set (take p ks))"

lemma index_ordered_Nil [simp]: "index_ordered jobs []"
  by (simp add: index_ordered_def)

lemma index_ordered_snoc [simp]:
  "index_ordered jobs (ks @ [k]) \<longleftrightarrow>
     index_ordered jobs ks \<and> (\<forall>d \<in> set (Deps (jobs ! k)). job_index jobs d \<in> set ks)"
  by (auto simp: index_ordered_def nth_append less_Suc_eq)

definition below :: "Job list \<Rightarrow> nat \<Rightarrow> nat set \<Rightarrow> bool" where
  "below jobs i G \<longleftrightarrow> (\<forall>g \<in> G. (i, g) \<in> (dep_index_rel jobs)\<^sup>+)"

lemma below_dep:
  assumes "below jobs i G" "i < length jobs" "d \<in> set (Deps (jobs ! i))"
  shows "below jobs (job_index jobs d) (insert i G)"
proof -
  from assms(2,3) have "(job_index jobs d, i) \<in> dep_index_rel jobs"
    by (auto simp: dep_index_rel_def)
  with assms(1) show ?thesis
    by (auto simp: below_def intro: trancl_into_trancl2)
qed

lemma below_notin: "acyclic (dep_index_rel jobs) \<Longrightarrow> below jobs i G \<Longrightarrow> i \<notin> G"
  by (auto simp: below_def acyclic_def)

lemma sort_inv_enter:
  assumes "sort_inv jobs G ks (visited, out)" "i < length jobs" "\<not> visited ! i"
  shows "sort_inv jobs (insert i G) ks (visited[i := True], out)"
  using assms by (auto simp: sort_inv_def nth_list_update)

lemma sort_inv_leave:
  assumes "sort_inv jobs (insert i G) ks (visited, out)" "i \<notin> G"
  shows "sort_inv jobs G (ks @ [i]) (visited, out @ [jobs ! i])"
  using assms by (auto simp: sort_inv_def)

lemma visit_correct:
  "i < length jobs \<Longrightarrow> sort_inv jobs G ks st \<Longrightarrow>
     \<exists>ks' st'. visit jobs i st = Some st' \<and> sort_inv jobs G (ks @ ks') st' \<and>
       i \<in> G \<union> set (ks @ ks') \<and>
       (acyclic (dep_index_rel jobs) \<longrightarrow> below jobs i G \<longrightarrow> index_ordered jobs ks \<longrightarrow>
          index_ordered jobs (ks @ ks'))"
  "jobs \<noteq> [] \<Longrightarrow> sort_inv jobs G ks st \<Longrightarrow>
     \<exists>ks' st'. visit_deps jobs deps st = Some st' \<and> sort_inv jobs G (ks @ ks') st' \<and>
       job_index jobs ` set deps \<subseteq> G \<union> set (ks @ ks') \<and>
       (acyclic (dep_index_rel jobs) \<longrightarrow> (\<forall>d \<in> set deps. below jobs (job_index jobs d) G) \<longrightarrow>
          index_ordered jobs ks \<longrightarrow> index_ordered jobs (ks @ ks'))"
proof (induction jobs i st and jobs deps st arbitrary: G ks and G ks rule: visit_visit_deps.induct)
  case (1 jobs i visited out)
  have len: "i < length visited"
    using "1.prems" by (simp add: sort_inv_def)
  show ?case
  proof (cases "visited ! i")
    case True
    with "1.prems" len show ?thesis
      by (intro exI [of _ "[]"] exI [of _ "(visited, out)"]) (auto simp: visit.simps sort_inv_def)
  next
    case False
    then have notin: "i \<notin> G" "i \<notin> set ks"
      using "1.prems" by (auto simp: sort_inv_def)
    from "1.IH" [OF _ False _ sort_inv_enter [OF "1.prems"(2,1) False]] len "1.prems"(1)
    obtain ks1 v1 o1 where
      run: "visit_deps jobs (Deps (jobs ! i)) (visited[i := True], out) = Some (v1, o1)"
      and inv: "sort_inv jobs (insert i G) (ks @ ks1) (v1, o1)"
      and sub: "job_index jobs ` set (Deps (jobs ! i)) \<subseteq> insert i G \<union> set (ks @ ks1)"
      and ord: "acyclic (dep_index_rel jobs) \<longrightarrow>
        (\<forall>d \<in> set (Deps (jobs ! i)). below jobs (job_index jobs d) (insert i G)) \<longrightarrow>
        index_ordered jobs ks \<longrightarrow> index_ordered jobs (ks @ ks1)"
      by fastforce
    have "index_ordered jobs ((ks @ ks1) @ [i])"
      if ac: "acyclic (dep_index_rel jobs)" and bel: "below jobs i G" and oks: "index_ordered jobs ks"
    proof -
      have "below jobs (job_index jobs d) (insert i G)" if "d \<in> set (Deps (jobs ! i))" for d
        using below_dep [OF bel "1.prems"(1) that] .
      with ac oks ord sub below_notin [OF ac] show ?thesis
        unfolding index_ordered_snoc by blast
    qed
    with run inv notin len "1.prems"(1) False sort_inv_leave [OF inv notin(1)] show ?thesis
      by (intro exI [of _ "ks1 @ [i]"] exI [of _ "(v1, o1 @ [jobs ! i])"]) (auto simp: visit.simps)
  qed
next
  case (2 jobs st)
  then show ?case by (intro exI [of _ "[]"] exI [of _ st]) simp
next
  case (3 jobs dep deps st)
  from "3.IH"(1) [OF job_index_less [OF "3.prems"(1)] "3.prems"(2)]
  obtain ks1 st1 where run1: "visit jobs (job_index jobs dep) st = Some st1"
    and inv1: "sort_inv jobs G (ks @ ks1) st1" and in1: "job_index jobs dep \<in> G \<union> set (ks @ ks1)"
    and ord1: "acyclic (dep_index_rel jobs) \<longrightarrow> below jobs (job_index jobs dep) G \<longrightarrow>
      index_ordered jobs ks \<longrightarrow> index_ordered jobs (ks @ ks1)"
    by blast
  from "3.IH"(2) [OF run1 "3.prems"(1) inv1]
  obtain ks2 st2 where run2: "visit_deps jobs deps st1 = Some st2"
    and inv2: "sort_inv jobs G ((ks @ ks1) @ ks2) st2"
    and in2: "job_index jobs ` set deps \<subseteq> G \<union> set ((ks @ ks1) @ ks2)"
    and ord2: "acyclic (dep_index_rel jobs) \<longrightarrow> (\<forall>d \<in> set deps. below jobs (job_index jobs d) G) \<longrightarrow>
      index_ordered jobs (ks @ ks1) \<longrightarrow> index_ordered jobs ((ks @ ks1) @ ks2)"
    by blast
  from run1 inv1 in1 ord1 run2 inv2 in2 ord2 show ?case
    by (intro exI [of _ "ks1 @ ks2"] exI [of _ st2]) auto
qed

lemma visit_all_correct:
  assumes "set is \<subseteq> {..<length jobs}" "sort_inv jobs {} ks st"
  shows "\<exists>ks' st'. visit_all jobs is st = Some st' \<and> sort_inv jobs {} (ks @ ks') st' \<and>
    set is \<subseteq> set (ks @ ks') \<and>
    (acyclic (dep_index_rel jobs) \<longrightarrow> index_ordered jobs ks \<longrightarrow> index_ordered jobs (ks @ ks'))"
  using assms
proof (induction "is" arbitrary: ks st)
  case Nil
  then show ?case by (intro exI [of _ "[]"] exI [of _ st]) simp
next
  case (Cons i "is")
  then have i: "i < length jobs" and "is": "set is \<subseteq> {..<length jobs}" by auto
  from visit_correct(1) [OF i Cons.prems(2)]
  obtain ks1 st1 where v: "visit jobs i st = Some st1" "sort_inv jobs {} (ks @ ks1) st1"
    "i \<in> set (ks @ ks1)"
    "acyclic (dep_index_rel jobs) \<longrightarrow> index_ordered jobs ks \<longrightarrow> index_ordered jobs (ks @ ks1)"
    by (auto simp: below_def)
  from Cons.IH [OF "is" v(2)]
  obtain ks2 st2 where "visit_all jobs is st1 = Some st2" "sort_inv jobs {} ((ks @ ks1) @ ks2) st2"
    "set is \<subseteq> set ((ks @ ks1) @ ks2)"
    "acyclic (dep_index_rel jobs) \<longrightarrow> index_ordered jobs (ks @ ks1) \<longrightarrow>
       index_ordered jobs ((ks @ ks1) @ ks2)"
    by blast
  with v show ?case
    by (intro exI [of _ "ks1 @ ks2"] exI [of _ st2]) auto
qed

lemma TopSort_indices:
  obtains ks where "TopSort jobs = Some (map ((!) jobs) ks)" "distinct ks"
    "set ks = {..<length jobs}" "acyclic (dep_index_rel jobs) \<longrightarrow> index_ordered jobs ks"
proof -
  have start: "sort_inv jobs {} [] (replicate (length jobs) False, [])"
    by (auto simp: sort_inv_def)
  have "set [0..<length jobs] \<subseteq> {..<length jobs}" by auto
  from visit_all_correct [OF this start]
  obtain ks st where run: "visit_all jobs [0..<length jobs] (replicate (length jobs) False, []) = Some st"
    and inv: "sort_inv jobs {} ks st" and all: "{0..<length jobs} \<subseteq> set ks"
    and ord: "acyclic (dep_index_rel jobs) \<longrightarrow> index_ordered jobs ks"
    unfolding append_Nil set_upt using index_ordered_Nil by blast
  from inv all have "set ks = {..<length jobs}" "distinct ks" "snd st = map ((!) jobs) ks"
    by (auto simp: sort_inv_def)
  with run ord that [of ks] show thesis
    by (simp add: TopSort_def)
qed

section \<open>The specification: topological order\<close>

text \<open>
  Every dependency of a job is the identifier of an earlier job. This is what
  \<open>SignalBuild\<close> relies on when it walks the sorted list.
\<close>

definition topo_ordered :: "Job list \<Rightarrow> bool" where
  "topo_ordered js \<longleftrightarrow> (\<forall>p < length js. set (Deps (js ! p)) \<subseteq> Job_ID ` set (take p js))"

definition dep_rel :: "Job list \<Rightarrow> (ID \<times> ID) set" where
  "dep_rel jobs = {(d, Job_ID j) | d j. j \<in> set jobs \<and> d \<in> set (Deps j)}"

definition deps_closed :: "Job list \<Rightarrow> bool" where
  "deps_closed jobs \<longleftrightarrow> (\<forall>j \<in> set jobs. set (Deps j) \<subseteq> Job_ID ` set jobs)"

definition valid_graph :: "Job list \<Rightarrow> bool" where
  "valid_graph jobs \<longleftrightarrow> deps_closed jobs \<and> acyclic (dep_rel jobs)"

lemma job_index_ID:
  assumes "distinct (map Job_ID jobs)" "d \<in> Job_ID ` set jobs"
  shows "Job_ID (jobs ! job_index jobs d) = d"
  using assms job_index_unique [OF assms(1)] by (fastforce simp: in_set_conv_nth)

lemma valid_graph_index_acyclic:
  assumes "distinct (map Job_ID jobs)" "valid_graph jobs"
  shows "acyclic (dep_index_rel jobs)"
proof (rule acyclic_map [of "dep_rel jobs" _ "\<lambda>i. Job_ID (jobs ! i)"])
  show "acyclic (dep_rel jobs)"
    using assms(2) by (simp add: valid_graph_def)
next
  fix a b
  assume "(a, b) \<in> dep_index_rel jobs"
  then obtain d where "a = job_index jobs d" "b < length jobs" "d \<in> set (Deps (jobs ! b))"
    by (auto simp: dep_index_rel_def)
  moreover from this assms(2) have "d \<in> Job_ID ` set jobs"
    by (force simp: valid_graph_def deps_closed_def)
  ultimately show "(Job_ID (jobs ! a), Job_ID (jobs ! b)) \<in> dep_rel jobs"
    by (force simp: dep_rel_def job_index_ID [OF assms(1)])
qed

lemma topo_orderedI_indices:
  assumes "distinct (map Job_ID jobs)" "deps_closed jobs" "set ks \<subseteq> {..<length jobs}"
    "index_ordered jobs ks"
  shows "topo_ordered (map ((!) jobs) ks)"
  unfolding topo_ordered_def
proof (intro allI impI subsetI)
  fix p d
  assume p: "p < length (map ((!) jobs) ks)" and d: "d \<in> set (Deps (map ((!) jobs) ks ! p))"
  from p assms(3) have "ks ! p < length jobs"
    by (auto dest: nth_mem)
  with d p assms(2) have "Job_ID (jobs ! job_index jobs d) = d"
    by (intro job_index_ID [OF assms(1)]) (force simp: deps_closed_def)
  moreover from assms(4) p d have "job_index jobs d \<in> set (take p ks)"
    by (simp add: index_ordered_def)
  ultimately show "d \<in> Job_ID ` set (take p (map ((!) jobs) ks))"
    by (force simp: take_map)
qed

lemma topo_ordered_valid:
  assumes "distinct (map Job_ID js)" "topo_ordered js"
  shows "valid_graph js"
proof -
  let ?ids = "map Job_ID js"
  have "deps_closed js"
    using assms(2) by (fastforce simp: topo_ordered_def deps_closed_def in_set_conv_nth
        dest: in_set_takeD)
  moreover have "acyclic (dep_rel js)"
  proof (rule acyclic_rank [of _ "\<lambda>d. length (takeWhile (\<lambda>y. y \<noteq> d) ?ids)"])
    fix a b
    assume "(a, b) \<in> dep_rel js"
    then obtain p where p: "p < length js" "b = Job_ID (js ! p)" "a \<in> set (Deps (js ! p))"
      by (auto simp: dep_rel_def in_set_conv_nth)
    with assms(2) have "a \<in> set (take p ?ids)"
      by (auto simp: topo_ordered_def take_map)
    then have "length (takeWhile (\<lambda>y. y \<noteq> a) ?ids) < p"
      by (rule length_takeWhile_neq_less)
    with length_takeWhile_neq_nth [OF assms(1), of p] p
    show "length (takeWhile (\<lambda>y. y \<noteq> a) ?ids) < length (takeWhile (\<lambda>y. y \<noteq> b) ?ids)"
      by simp
  qed
  ultimately show ?thesis
    by (simp add: valid_graph_def)
qed

lemma valid_graph_mset: "mset js = mset jobs \<Longrightarrow> valid_graph js = valid_graph jobs"
  by (drule mset_eq_setD) (simp add: valid_graph_def deps_closed_def dep_rel_def)

lemma TopSort_mset: "\<exists>out. TopSort jobs = Some out \<and> mset out = mset jobs"
proof -
  obtain ks where ks: "TopSort jobs = Some (map ((!) jobs) ks)" "distinct ks"
    "set ks = {..<length jobs}"
    by (rule TopSort_indices)
  then have "mset ks = mset [0..<length jobs]"
    by (subst set_eq_iff_mset_eq_distinct [symmetric]) (auto simp: atLeast0LessThan)
  then have "mset (map ((!) jobs) ks) = mset (map ((!) jobs) [0..<length jobs])"
    by (simp only: mset_map)
  then have "mset (map ((!) jobs) ks) = mset jobs"
    by (simp only: map_nth)
  with ks(1) show ?thesis by blast
qed

lemma TopSort_valid_ordered:
  assumes "distinct (map Job_ID jobs)" "valid_graph jobs" "TopSort jobs = Some out"
  shows "topo_ordered out"
proof -
  obtain ks where "TopSort jobs = Some (map ((!) jobs) ks)" "set ks = {..<length jobs}"
    "acyclic (dep_index_rel jobs) \<longrightarrow> index_ordered jobs ks"
    by (rule TopSort_indices)
  with assms show ?thesis
    using topo_orderedI_indices [OF assms(1), of ks] valid_graph_index_acyclic [OF assms(1,2)]
    by (simp add: valid_graph_def)
qed

section \<open>Properties\<close>

text \<open>
  C13. \<open>TopSort\<close> returns on every job list (it never indexes outside \<open>visited\<close> or \<open>jobs\<close> and
  always ends, cyclic graphs and unknown dependencies included) and outputs every job exactly
  as often as it was given.
\<close>

theorem TopSort_permutation: "\<exists>out. TopSort jobs = Some out \<and> mset out = mset jobs"
  by (rule TopSort_mset)

text \<open>
  C12. For jobs with different identifiers the output of \<open>TopSort\<close> is in topological order
  exactly when such an order exists: every dependency is a job of the list and the dependency
  relation has no cycle.
\<close>

theorem TopSort_ordered_iff:
  assumes "distinct (map Job_ID jobs)" "TopSort jobs = Some out"
  shows "topo_ordered out \<longleftrightarrow> valid_graph jobs"
proof -
  from assms(2) TopSort_mset [of jobs] have perm: "mset out = mset jobs" by simp
  then have "distinct (map Job_ID out)"
    using assms(1) by (metis mset_eq_imp_distinct_iff mset_map)
  with perm show ?thesis
    using TopSort_valid_ordered [OF assms(1) _ assms(2)] topo_ordered_valid valid_graph_mset
    by blast
qed

text \<open>The graph of the repository's test: a needs b, b needs c.\<close>

definition job_named :: "byte \<Rightarrow> ID list \<Rightarrow> Job" where
  "job_named b ds = \<lparr>Job_ID = ID_lit [b], Job_Name = [], Inputs = [], Deps = ds, Cmds = []\<rparr>"

definition abc_jobs :: "Job list" where
  "abc_jobs = [job_named 97 [ID_lit [98]], job_named 98 [ID_lit [99]], job_named 99 []]"

lemma abc_jobs_sorted:
  "TopSort abc_jobs = Some [job_named 99 [], job_named 98 [ID_lit [99]], job_named 97 [ID_lit [98]]]"
  by (simp add: TopSort_def abc_jobs_def job_named_def visit.simps job_index_def jobIDIndex_def
      upt_rec numeral_eq_Suc)

theorem TopSort_ordered_iff_witness:
  "topo_ordered [job_named 99 [], job_named 98 [ID_lit [99]], job_named 97 [ID_lit [98]]]
     \<longleftrightarrow> valid_graph abc_jobs"
  by (rule TopSort_ordered_iff [OF _ abc_jobs_sorted]) (simp add: abc_jobs_def job_named_def)

end
