(* ===== verification/Sync_Map.thy ===== *)
theory Sync_Map
  imports Prelude
begin

text \<open>
  Package \<open>concurrency\<close>, file \<open>sync_map.go\<close>: a map guarded by a read-write lock. Each method
  takes the lock for its whole body, so a method is one atomic step on the map. A Go map read
  with two results is an \<open>option\<close>: \<open>None\<close> is the zero value with \<open>exist = false\<close>.
\<close>

section \<open>The interface\<close>

locale keyed_store =
  fixes new :: "nat \<Rightarrow> 'm"
    and store :: "'m \<Rightarrow> 'k \<Rightarrow> 'v \<Rightarrow> 'm"
    and load :: "'m \<Rightarrow> 'k \<Rightarrow> 'v option"
  assumes load_new: "load (new c) k = None"
    and load_store: "load (store m k v) k' = (if k' = k then Some v else load m k')"
begin

text \<open>After a sequence of stores a key holds the value stored last for it.\<close>

lemma load_stores:
  "load (fold (\<lambda>(k, v) m. store m k v) kvs m) k =
     (case map_of (rev kvs) k of None \<Rightarrow> load m k | Some v \<Rightarrow> Some v)"
  by (induction kvs arbitrary: m)
     (auto simp: load_store map_add_def split: option.splits)

lemma load_stores_new:
  "load (fold (\<lambda>(k, v) m. store m k v) kvs (new c)) k = map_of (rev kvs) k"
  by (simp add: load_stores load_new split: option.split)

lemma store_frame: "k' \<noteq> k \<Longrightarrow> load (store m k v) k' = load m k'"
  by (simp add: load_store)

end

section \<open>The implementation\<close>

record ('k, 'v) SyncMap =
  data :: "'k \<rightharpoonup> 'v"

definition NewSyncMap :: "nat \<Rightarrow> ('k, 'v) SyncMap" where
  "NewSyncMap cap = \<lparr>data = Map.empty\<rparr>"

definition Store :: "('k, 'v) SyncMap \<Rightarrow> 'k \<Rightarrow> 'v \<Rightarrow> ('k, 'v) SyncMap" where
  "Store s key val = s\<lparr>data := (data s)(key \<mapsto> val)\<rparr>"

definition Load :: "('k, 'v) SyncMap \<Rightarrow> 'k \<Rightarrow> 'v option" where
  "Load s key = data s key"

definition LoadUnsafe :: "'v \<Rightarrow> ('k, 'v) SyncMap \<Rightarrow> 'k \<Rightarrow> 'v" where
  "LoadUnsafe zero s key = (case data s key of None \<Rightarrow> zero | Some v \<Rightarrow> v)"

interpretation sm: keyed_store NewSyncMap Store Load
  by unfold_locales (simp_all add: NewSyncMap_def Store_def Load_def)

text \<open>
  After any sequence of \<open>Store\<close> calls on a new map, \<open>Load\<close> returns the value stored last for
  the key, and reports the key as missing when nothing was stored for it; \<open>LoadUnsafe\<close> gives
  the same value, or the zero value.
\<close>

theorem SyncMap_last_store_wins:
  "Load (fold (\<lambda>(k, v) m. Store m k v) kvs (NewSyncMap cap)) k = map_of (rev kvs) k \<and>
   LoadUnsafe zero (fold (\<lambda>(k, v) m. Store m k v) kvs (NewSyncMap cap)) k =
     (case map_of (rev kvs) k of None \<Rightarrow> zero | Some v \<Rightarrow> v)"
  using sm.load_stores_new [of kvs cap k] by (simp add: LoadUnsafe_def Load_def)

end
