(* ===== verification/Machines.thy ===== *)
theory Machines
  imports Prelude
begin

text \<open>
  State machines with labelled steps. A goroutine's next atomic action is a label; \<open>step s a\<close>
  is the state after the action, or \<open>None\<close> when the action is not enabled in \<open>s\<close> (a lock is
  taken, a channel is full or empty). A list of labels is one interleaving. The locale states
  the contract of an inductive invariant once; every machine of the development interprets it.
\<close>

fun run :: "('s \<Rightarrow> 'a \<Rightarrow> 's option) \<Rightarrow> 's \<Rightarrow> 'a list \<Rightarrow> 's option" where
  "run step s [] = Some s"
| "run step s (a # as) = (case step s a of None \<Rightarrow> None | Some t \<Rightarrow> run step t as)"

lemma run_append:
  "run step s (as @ bs) = (case run step s as of None \<Rightarrow> None | Some t \<Rightarrow> run step t bs)"
  by (induction as arbitrary: s) (auto split: option.splits)

text \<open>A fact that the steps of one kind keep holds at the end of a run of such steps.\<close>

lemma run_keeps:
  assumes "\<And>s a t. P s \<Longrightarrow> Q a \<Longrightarrow> step s a = Some t \<Longrightarrow> P t"
  shows "P s \<Longrightarrow> run step s as = Some t \<Longrightarrow> \<forall>a \<in> set as. Q a \<Longrightarrow> P t"
proof (induction as arbitrary: s)
  case (Cons a as)
  then obtain u where "step s a = Some u" "run step u as = Some t"
    by (auto split: option.splits)
  with Cons assms show ?case by (metis list.set_intros)
qed simp

locale invariant_machine =
  fixes step :: "'s \<Rightarrow> 'a \<Rightarrow> 's option"
    and start :: "'s \<Rightarrow> bool"
    and inv :: "'s \<Rightarrow> bool"
  assumes start_inv: "start s \<Longrightarrow> inv s"
    and step_inv: "inv s \<Longrightarrow> step s a = Some t \<Longrightarrow> inv t"
begin

lemma run_preserves: "inv s \<Longrightarrow> run step s as = Some t \<Longrightarrow> inv t"
  by (induction as arbitrary: s) (auto split: option.splits dest: step_inv)

lemma reachable_inv: "start s \<Longrightarrow> run step s as = Some t \<Longrightarrow> inv t"
  using run_preserves start_inv by blast

text \<open>A quantity no step decreases is at least as large at the end of a run.\<close>

lemma run_mono:
  fixes f :: "'s \<Rightarrow> nat"
  assumes "\<And>s a t. inv s \<Longrightarrow> step s a = Some t \<Longrightarrow> f s \<le> f t"
  shows "inv s \<Longrightarrow> run step s as = Some t \<Longrightarrow> f s \<le> f t"
proof (induction as arbitrary: s)
  case (Cons a as)
  then obtain u where "step s a = Some u" "run step u as = Some t"
    by (auto split: option.splits)
  with Cons assms step_inv show ?case
    by (blast intro: le_trans)
qed simp

text \<open>A fact that every step of a kind keeps, once it holds, holds at the end of a run of them.\<close>

lemma run_stable:
  assumes "\<And>s a t. inv s \<Longrightarrow> step s a = Some t \<Longrightarrow> Q a \<Longrightarrow> P s \<Longrightarrow> P t"
  shows "inv s \<Longrightarrow> run step s as = Some t \<Longrightarrow> \<forall>a \<in> set as. Q a \<Longrightarrow> P s \<Longrightarrow> P t"
proof (induction as arbitrary: s)
  case (Cons a as)
  then obtain u where "step s a = Some u" "run step u as = Some t"
    by (auto split: option.splits)
  with Cons assms step_inv show ?case by (metis list.set_intros)
qed simp

end

end
