(* ===== verification/Key_Lock.thy ===== *)
theory Key_Lock
  imports Machines
begin

text \<open>
  Package \<open>concurrency\<close>, file \<open>key_lock.go\<close>: one lock per key, each a channel with room for
  one token, in a map guarded by the mutex \<open>mu\<close>. The two methods are cut at the points where
  another goroutine can run: taking \<open>mu\<close>, the section under \<open>mu\<close>, and the channel operation.
\<close>

section \<open>State and atomic parts of the methods\<close>

text \<open>\<open>kl_lock\<close> maps a key to the number of tokens in its channel, 0 or 1.\<close>

record 'k KeyLocker =
  kl_mu :: bool
  kl_lock :: "'k \<rightharpoonup> nat"

definition NewKeyLocker :: "'k KeyLocker" where
  "NewKeyLocker = \<lparr>kl_mu = False, kl_lock = Map.empty\<rparr>"

definition mu_Lock :: "'k KeyLocker \<Rightarrow> 'k KeyLocker option" where
  "mu_Lock s = (if kl_mu s then None else Some (s\<lparr>kl_mu := True\<rparr>))"

text \<open>\<open>Lock\<close> under \<open>mu\<close>: make the channel when the key has none, then release \<open>mu\<close>.\<close>

definition Lock_section :: "'k \<Rightarrow> 'k KeyLocker \<Rightarrow> 'k KeyLocker" where
  "Lock_section key s =
     (let m = (if kl_lock s key = None then (kl_lock s)(key \<mapsto> 0) else kl_lock s)
      in s\<lparr>kl_lock := m, kl_mu := False\<rparr>)"

text \<open>\<open>local <- struct{}{}\<close>: not enabled while the channel is full.\<close>

definition Lock_send :: "'k \<Rightarrow> 'k KeyLocker \<Rightarrow> 'k KeyLocker option" where
  "Lock_send key s =
     (case kl_lock s key of
        None \<Rightarrow> None
      | Some n \<Rightarrow> if n < 1 then Some (s\<lparr>kl_lock := (kl_lock s)(key \<mapsto> n + 1)\<rparr>) else None)"

text \<open>
  \<open>Unlock\<close> under \<open>mu\<close>: for an unknown key it returns at once, without \<open>mu.Unlock\<close>. The flag
  says whether the method goes on to the channel.
\<close>

definition Unlock_section :: "'k \<Rightarrow> 'k KeyLocker \<Rightarrow> 'k KeyLocker \<times> bool" where
  "Unlock_section key s =
     (if kl_lock s key = None then (s, False) else (s\<lparr>kl_mu := False\<rparr>, True))"

definition Unlock_receive :: "'k \<Rightarrow> 'k KeyLocker \<Rightarrow> 'k KeyLocker option" where
  "Unlock_receive key s =
     (case kl_lock s key of
        None \<Rightarrow> None
      | Some n \<Rightarrow> if 0 < n then Some (s\<lparr>kl_lock := (kl_lock s)(key \<mapsto> n - 1)\<rparr>) else None)"

text \<open>The methods run by one goroutine with no other moving: blocked where a part is not enabled.\<close>

definition KeyLocker_Lock :: "'k KeyLocker \<Rightarrow> 'k \<Rightarrow> 'k KeyLocker go" where
  "KeyLocker_Lock s key =
     (case mu_Lock s of
        None \<Rightarrow> Blocks
      | Some s1 \<Rightarrow>
          (case Lock_send key (Lock_section key s1) of None \<Rightarrow> Blocks | Some s2 \<Rightarrow> Returns s2))"

definition KeyLocker_Unlock :: "'k KeyLocker \<Rightarrow> 'k \<Rightarrow> 'k KeyLocker go" where
  "KeyLocker_Unlock s key =
     (case mu_Lock s of
        None \<Rightarrow> Blocks
      | Some s1 \<Rightarrow>
          (case Unlock_section key s1 of
             (s2, False) \<Rightarrow> Returns s2
           | (s2, True) \<Rightarrow>
               (case Unlock_receive key s2 of None \<Rightarrow> Blocks | Some s3 \<Rightarrow> Returns s3)))"

lemmas key_lock_parts = mu_Lock_def Lock_section_def Lock_send_def Unlock_section_def
  Unlock_receive_def

section \<open>Goroutines sharing one locker\<close>

datatype 'k kl_pc =
    Outside
  | InLock 'k        \<comment> \<open>in \<open>Lock\<close>, holding \<open>mu\<close>\<close>
  | Sending 'k       \<comment> \<open>in \<open>Lock\<close>, at the channel\<close>
  | Holding 'k       \<comment> \<open>between \<open>Lock\<close> and \<open>Unlock\<close>\<close>
  | InUnlock 'k      \<comment> \<open>in \<open>Unlock\<close>, holding \<open>mu\<close>\<close>
  | Receiving 'k     \<comment> \<open>in \<open>Unlock\<close>, at the channel\<close>

record 'k kl_sys =
  kl_shared :: "'k KeyLocker"
  kl_pcs :: "nat \<Rightarrow> 'k kl_pc"

text \<open>
  \<open>CallLock i k\<close> and \<open>CallUnlock i\<close> start a call of goroutine \<open>i\<close>; \<open>Advance i\<close> is its next
  part. A goroutine unlocks only the key it holds.
\<close>

datatype 'k kl_act = CallLock nat 'k | CallUnlock nat | Advance nat

definition kl_goto :: "'k kl_sys \<Rightarrow> nat \<Rightarrow> 'k kl_pc \<Rightarrow> 'k KeyLocker \<Rightarrow> 'k kl_sys" where
  "kl_goto s i p l = \<lparr>kl_shared = l, kl_pcs = (kl_pcs s)(i := p)\<rparr>"

fun kl_step :: "'k kl_sys \<Rightarrow> 'k kl_act \<Rightarrow> 'k kl_sys option" where
  "kl_step s (CallLock i k) =
     (if kl_pcs s i = Outside
      then map_option (kl_goto s i (InLock k)) (mu_Lock (kl_shared s)) else None)"
| "kl_step s (CallUnlock i) =
     (case kl_pcs s i of
        Holding k \<Rightarrow> map_option (kl_goto s i (InUnlock k)) (mu_Lock (kl_shared s))
      | _ \<Rightarrow> None)"
| "kl_step s (Advance i) =
     (case kl_pcs s i of
        InLock k \<Rightarrow> Some (kl_goto s i (Sending k) (Lock_section k (kl_shared s)))
      | Sending k \<Rightarrow> map_option (kl_goto s i (Holding k)) (Lock_send k (kl_shared s))
      | InUnlock k \<Rightarrow>
          (case Unlock_section k (kl_shared s) of
             (l, found) \<Rightarrow> Some (kl_goto s i (if found then Receiving k else Outside) l))
      | Receiving k \<Rightarrow> map_option (kl_goto s i Outside) (Unlock_receive k (kl_shared s))
      | _ \<Rightarrow> None)"

definition kl_start :: "'k kl_sys \<Rightarrow> bool" where
  "kl_start s \<longleftrightarrow> kl_shared s = NewKeyLocker \<and> kl_pcs s = (\<lambda>_. Outside)"

definition kl_owns :: "'k kl_pc \<Rightarrow> 'k \<Rightarrow> bool" where
  "kl_owns p k \<longleftrightarrow> p = Holding k \<or> p = InUnlock k \<or> p = Receiving k"

definition kl_in_mu :: "'k kl_pc \<Rightarrow> bool" where
  "kl_in_mu p \<longleftrightarrow> (case p of InLock _ \<Rightarrow> True | InUnlock _ \<Rightarrow> True | _ \<Rightarrow> False)"

definition kl_owners :: "(nat \<Rightarrow> 'k kl_pc) \<Rightarrow> 'k \<Rightarrow> nat set" where
  "kl_owners P k = {i. kl_owns (P i) k}"

definition kl_mu_users :: "(nat \<Rightarrow> 'k kl_pc) \<Rightarrow> nat set" where
  "kl_mu_users P = {i. kl_in_mu (P i)}"

text \<open>
  The invariant: the channel of a key holds a token exactly while one goroutine owns the key,
  \<open>mu\<close> is taken exactly while one goroutine is in a section under it, and a goroutine at a
  channel has one.
\<close>

definition kl_token :: "nat option \<Rightarrow> nat set \<Rightarrow> bool" where
  "kl_token l S \<longleftrightarrow> l = Some 1 \<and> (\<exists>i. S = {i}) \<or> (l = None \<or> l = Some 0) \<and> S = {}"

definition kl_inv :: "'k kl_sys \<Rightarrow> bool" where
  [inv_defs]: "kl_inv s \<longleftrightarrow>
     (\<forall>k. kl_token (kl_lock (kl_shared s) k) (kl_owners (kl_pcs s) k)) \<and>
     (if kl_mu (kl_shared s) then \<exists>i. kl_mu_users (kl_pcs s) = {i}
      else kl_mu_users (kl_pcs s) = {}) \<and>
     (\<forall>i k. kl_pcs s i = Sending k \<longrightarrow> kl_lock (kl_shared s) k \<noteq> None)"

lemma kl_owns_simps [simp]:
  "\<not> kl_owns Outside k" "\<not> kl_owns (InLock k') k" "\<not> kl_owns (Sending k') k"
  "kl_owns (Holding k') k \<longleftrightarrow> k' = k" "kl_owns (InUnlock k') k \<longleftrightarrow> k' = k"
  "kl_owns (Receiving k') k \<longleftrightarrow> k' = k"
  by (auto simp: kl_owns_def)

lemma kl_in_mu_simps [simp]:
  "\<not> kl_in_mu Outside" "kl_in_mu (InLock k)" "\<not> kl_in_mu (Sending k)"
  "\<not> kl_in_mu (Holding k)" "kl_in_mu (InUnlock k)" "\<not> kl_in_mu (Receiving k)"
  by (auto simp: kl_in_mu_def)

lemma kl_owners_upd [simp]:
  "kl_owners (P(i := p)) k = (if kl_owns p k then insert i (kl_owners P k) else kl_owners P k - {i})"
  by (auto simp: kl_owners_def)

lemma kl_mu_users_upd [simp]:
  "kl_mu_users (P(i := p)) = (if kl_in_mu p then insert i (kl_mu_users P) else kl_mu_users P - {i})"
  by (auto simp: kl_mu_users_def)

lemma kl_owners_mem: "i \<in> kl_owners P k \<longleftrightarrow> kl_owns (P i) k"
  by (simp add: kl_owners_def)

lemma kl_mu_users_mem: "i \<in> kl_mu_users P \<longleftrightarrow> kl_in_mu (P i)"
  by (simp add: kl_mu_users_def)

lemma kl_token_empty [simp]: "kl_token None {}" "kl_token (Some 0) {}"
  by (simp_all add: kl_token_def)

lemma kl_token_single [simp]: "kl_token (Some (Suc 0)) {i}"
  by (simp add: kl_token_def)

lemma kl_start_inv: "kl_start s \<Longrightarrow> kl_inv s"
  by (simp add: kl_inv_def kl_start_def NewKeyLocker_def kl_owners_def kl_mu_users_def)

text \<open>
  A step moves one goroutine and rewrites the locker: the invariant of the new state follows
  from that of the old one and the moved goroutine's part.
\<close>

lemma kl_step_cases:
  assumes "kl_step s a = Some t"
  obtains (lock) i k where "kl_pcs s i = Outside" "\<not> kl_mu (kl_shared s)"
      "t = kl_goto s i (InLock k) (kl_shared s\<lparr>kl_mu := True\<rparr>)"
  | (unlock) i k where "kl_pcs s i = Holding k" "\<not> kl_mu (kl_shared s)"
      "t = kl_goto s i (InUnlock k) (kl_shared s\<lparr>kl_mu := True\<rparr>)"
  | (make) i k where "kl_pcs s i = InLock k"
      "t = kl_goto s i (Sending k) (Lock_section k (kl_shared s))"
  | (send) i k where "kl_pcs s i = Sending k" "kl_lock (kl_shared s) k = Some 0"
      "t = kl_goto s i (Holding k)
         (kl_shared s\<lparr>kl_lock := (kl_lock (kl_shared s))(k \<mapsto> 1)\<rparr>)"
  | (find) i k where "kl_pcs s i = InUnlock k" "kl_lock (kl_shared s) k \<noteq> None"
      "t = kl_goto s i (Receiving k) (kl_shared s\<lparr>kl_mu := False\<rparr>)"
  | (miss) i k where "kl_pcs s i = InUnlock k" "kl_lock (kl_shared s) k = None"
      "t = kl_goto s i Outside (kl_shared s)"
  | (receive) i k n where "kl_pcs s i = Receiving k" "kl_lock (kl_shared s) k = Some (Suc n)"
      "t = kl_goto s i Outside
         (kl_shared s\<lparr>kl_lock := (kl_lock (kl_shared s))(k \<mapsto> n)\<rparr>)"
  using assms
  by (cases a)
     (auto simp: mu_Lock_def Lock_send_def Unlock_section_def Unlock_receive_def gr0_conv_Suc
       split: kl_pc.splits if_splits option.splits)

lemma kl_owners_idle: "\<not> kl_owns (P i) k \<Longrightarrow> kl_owners P k - {i} = kl_owners P k"
  by (simp add: kl_owners_def)

lemma kl_owners_busy: "kl_owns (P i) k \<Longrightarrow> insert i (kl_owners P k) = kl_owners P k"
  by (auto simp: kl_owners_def)

lemma kl_inv_owner:
  assumes "kl_inv s" "kl_owns (kl_pcs s i) k"
  shows "kl_owners (kl_pcs s) k = {i}" "kl_lock (kl_shared s) k = Some 1"
proof -
  have "i \<in> kl_owners (kl_pcs s) k"
    using assms(2) by (simp add: kl_owners_mem)
  moreover from assms(1) have "kl_token (kl_lock (kl_shared s) k) (kl_owners (kl_pcs s) k)"
    by (simp add: kl_inv_def)
  ultimately show "kl_owners (kl_pcs s) k = {i}" "kl_lock (kl_shared s) k = Some 1"
    by (auto simp: kl_token_def)
qed

lemma kl_inv_mu_user:
  assumes "kl_inv s" "kl_in_mu (kl_pcs s i)"
  shows "kl_mu_users (kl_pcs s) = {i}" "kl_mu (kl_shared s)"
  using assms by (auto simp: kl_inv_def kl_mu_users_mem [symmetric] split: if_splits)

lemma kl_inv_free:
  assumes "kl_inv s" "kl_lock (kl_shared s) k = Some 0"
  shows "kl_owners (kl_pcs s) k = {}"
proof -
  from assms(1) have "kl_token (kl_lock (kl_shared s) k) (kl_owners (kl_pcs s) k)"
    by (simp add: kl_inv_def)
  with assms(2) show ?thesis
    by (auto simp: kl_token_def)
qed

lemma kl_mu_users_keep: "kl_in_mu p = kl_in_mu (P i) \<Longrightarrow> kl_mu_users (P(i := p)) = kl_mu_users P"
  by (auto simp: kl_mu_users_def)

lemma kl_step_inv:
  assumes "kl_inv s" "kl_step s a = Some t"
  shows "kl_inv t"
  using assms(2)
proof (cases rule: kl_step_cases)
  case (lock i k)
  with assms(1) show ?thesis
    by (auto simp: kl_inv_def kl_goto_def kl_owners_idle)
next
  case (unlock i k)
  with assms(1) kl_inv_owner [OF assms(1), of i k] show ?thesis
    by (auto simp: kl_inv_def kl_goto_def kl_owners_idle)
next
  case (make i k)
  moreover have "kl_owners (kl_pcs s) k = {}" if "kl_lock (kl_shared s) k = None"
    using assms(1) that by (auto simp: kl_inv_def kl_token_def dest!: spec [of _ k])
  ultimately show ?thesis
    using assms(1) kl_inv_mu_user [OF assms(1), of i]
    by (auto simp: kl_inv_def kl_goto_def Lock_section_def Let_def kl_owners_idle)
next
  case (send i k)
  with assms(1) kl_inv_free [OF assms(1), of k] show ?thesis
    by (auto simp: kl_inv_def kl_goto_def kl_owners_idle kl_mu_users_keep simp del: kl_mu_users_upd)
next
  case (find i k)
  with assms(1) kl_inv_owner [OF assms(1), of i k] kl_inv_mu_user [OF assms(1), of i] show ?thesis
    by (auto simp: kl_inv_def kl_goto_def kl_owners_idle)
next
  case (miss i k)
  with kl_inv_owner [OF assms(1), of i k] show ?thesis by simp
next
  case (receive i k n)
  with assms(1) kl_inv_owner [OF assms(1), of i k] show ?thesis
    by (auto simp: kl_inv_def kl_goto_def kl_owners_idle kl_mu_users_keep simp del: kl_mu_users_upd)
qed

interpretation kl: invariant_machine kl_step kl_start kl_inv
  by unfold_locales (fact kl_start_inv kl_step_inv)+

text \<open>
  A goroutine inside a method can move, unless the key it waits for is held by a goroutine
  that is outside both methods.
\<close>

lemma kl_inv_progress:
  assumes inv: "kl_inv s" and mid: "kl_pcs s i \<noteq> Outside" "\<And>k. kl_pcs s i \<noteq> Holding k"
  shows "(\<exists>j t. kl_step s (Advance j) = Some t) \<or>
    (\<exists>j k. kl_pcs s i = Sending k \<and> kl_pcs s j = Holding k)"
proof -
  have receiver: "\<exists>t. kl_step s (Advance j) = Some t" if "kl_pcs s j = Receiving k" for j k
    using kl_inv_owner(2) [OF inv, of j k] that by (simp add: Unlock_receive_def)
  have guarded: "\<exists>t. kl_step s (Advance j) = Some t" if "kl_in_mu (kl_pcs s j)" for j
    using that by (cases "kl_pcs s j") (auto split: prod.splits)
  show ?thesis
  proof (cases "kl_pcs s i")
    case (Sending k)
    from inv have tok: "kl_token (kl_lock (kl_shared s) k) (kl_owners (kl_pcs s) k)"
      and made: "kl_lock (kl_shared s) k \<noteq> None"
      using Sending by (auto simp: kl_inv_def)
    from tok made consider (free) "kl_lock (kl_shared s) k = Some 0"
      | (held) j where "kl_owners (kl_pcs s) k = {j}"
      by (auto simp: kl_token_def)
    then show ?thesis
    proof cases
      case free
      with Sending have "\<exists>t. kl_step s (Advance i) = Some t"
        by (simp add: Lock_send_def)
      then show ?thesis by blast
    next
      case held
      then have "kl_owns (kl_pcs s j) k"
        by (simp add: kl_owners_mem [symmetric])
      then have "(\<exists>t. kl_step s (Advance j) = Some t) \<or> kl_pcs s j = Holding k"
        using receiver [of j k] guarded [of j]
        by (cases "kl_pcs s j") (simp_all del: kl_step.simps)
      with Sending show ?thesis by blast
    qed
  qed (use mid receiver [of i] guarded [of i] in \<open>simp_all del: kl_step.simps, blast+\<close>)
qed

section \<open>One goroutine at a time\<close>

text \<open>The contract a caller relies on when nobody else uses the locker in between.\<close>

locale keyed_mutex =
  fixes idle :: "'s \<Rightarrow> bool"
    and held :: "'s \<Rightarrow> 'k \<Rightarrow> bool"
    and lock :: "'s \<Rightarrow> 'k \<Rightarrow> 's go"
    and unlock :: "'s \<Rightarrow> 'k \<Rightarrow> 's go"
  assumes lock_free: "idle s \<Longrightarrow> \<not> held s k \<Longrightarrow>
      \<exists>s'. lock s k = Returns s' \<and> idle s' \<and> held s' = (held s)(k := True)"
    and lock_held: "idle s \<Longrightarrow> held s k \<Longrightarrow> lock s k = Blocks"
    and unlock_held: "idle s \<Longrightarrow> held s k \<Longrightarrow>
      \<exists>s'. unlock s k = Returns s' \<and> idle s' \<and> held s' = (held s)(k := False)"
begin

text \<open>A critical section leaves the locks as they were.\<close>

lemma critical_section:
  assumes "idle s" "\<not> held s k"
  obtains s1 s2 where "lock s k = Returns s1" "idle s1" "held s1 k"
    "unlock s1 k = Returns s2" "idle s2" "held s2 = held s"
proof -
  from lock_free [OF assms] obtain s1 where s1: "lock s k = Returns s1" "idle s1"
    "held s1 = (held s)(k := True)" by blast
  then have "held s1 k" by simp
  with unlock_held [OF s1(2)] obtain s2 where "unlock s1 k = Returns s2" "idle s2"
    "held s2 = (held s1)(k := False)" by blast
  with s1 assms(2) \<open>held s1 k\<close> that [of s1 s2] show thesis
    by (simp add: fun_upd_idem)
qed

end

definition kl_idle :: "'k KeyLocker \<Rightarrow> bool" where
  "kl_idle s \<longleftrightarrow> \<not> kl_mu s \<and> (\<forall>k. kl_lock s k \<in> {None, Some 0, Some 1})"

definition kl_held :: "'k KeyLocker \<Rightarrow> 'k \<Rightarrow> bool" where
  "kl_held s k \<longleftrightarrow> kl_lock s k = Some 1"

interpretation km: keyed_mutex kl_idle kl_held KeyLocker_Lock KeyLocker_Unlock
proof (unfold_locales, goal_cases)
  case (1 s k)
  then have "kl_lock s k = None \<or> kl_lock s k = Some 0"
    by (auto simp: kl_idle_def kl_held_def)
  with 1 show ?case
    by (auto simp: KeyLocker_Lock_def key_lock_parts kl_idle_def kl_held_def Let_def fun_eq_iff)
next
  case (2 s k)
  then show ?case
    by (simp add: KeyLocker_Lock_def key_lock_parts kl_idle_def kl_held_def)
next
  case (3 s k)
  then show ?case
    by (auto simp: KeyLocker_Unlock_def key_lock_parts kl_idle_def kl_held_def fun_eq_iff)
qed

section \<open>Properties\<close>

text \<open>
  Mutual exclusion: whatever the interleaving of any number of goroutines that lock and
  unlock keys of a fresh locker (each unlocking only what it holds), no two of them are
  between \<open>Lock\<close> and \<open>Unlock\<close> of the same key.
\<close>

theorem KeyLocker_mutual_exclusion:
  assumes "kl_start s" "run kl_step s as = Some t"
    and "kl_pcs t i = Holding k" "kl_pcs t j = Holding k"
  shows "i = j"
  using kl_inv_owner(1) [OF kl.reachable_inv [OF assms(1,2)], of _ k] assms(3,4)
  by (metis kl_owns_simps(4) singleton_inject)

definition kl_fresh :: "nat kl_sys" where
  "kl_fresh = \<lparr>kl_shared = NewKeyLocker, kl_pcs = (\<lambda>_. Outside)\<rparr>"

theorem KeyLocker_mutual_exclusion_witness:
  "\<exists>t. run kl_step kl_fresh [CallLock 0 7, Advance 0, Advance 0, CallLock 1 7, Advance 1] = Some t \<and>
     kl_pcs t 0 = Holding 7 \<and> kl_pcs t 1 = Sending 7 \<and> (0::nat) = 0"
proof -
  have start: "kl_start kl_fresh"
    by (simp add: kl_start_def kl_fresh_def)
  have "\<exists>t. run kl_step kl_fresh [CallLock 0 7, Advance 0, Advance 0, CallLock 1 7, Advance 1] = Some t \<and>
     kl_pcs t 0 = Holding 7 \<and> kl_pcs t 1 = Sending 7"
    by (simp add: kl_fresh_def NewKeyLocker_def key_lock_parts kl_goto_def Let_def)
  then show ?thesis
    using KeyLocker_mutual_exclusion [OF start, of _ _ 0 7 0] by blast
qed

text \<open>
  No deadlock inside the locker: in every reachable state a goroutine that is inside
  \<open>Lock\<close> or \<open>Unlock\<close> leaves some goroutine able to move, unless it waits for a key that
  another goroutine holds and has not begun to unlock.
\<close>

theorem KeyLocker_no_deadlock:
  assumes "kl_start s" "run kl_step s as = Some t"
    and "kl_pcs t i \<noteq> Outside" "\<forall>k. kl_pcs t i \<noteq> Holding k"
  shows "(\<exists>j u. kl_step t (Advance j) = Some u) \<or>
    (\<exists>j k. kl_pcs t i = Sending k \<and> kl_pcs t j = Holding k)"
  using kl_inv_progress [OF kl.reachable_inv [OF assms(1,2)]] assms(3,4) by blast

theorem KeyLocker_no_deadlock_witness:
  "\<exists>t. run kl_step kl_fresh [CallLock 0 7, Advance 0] = Some t \<and>
     ((\<exists>j u. kl_step t (Advance j) = Some u) \<or>
      (\<exists>j k. kl_pcs t 0 = Sending k \<and> kl_pcs t j = Holding k))"
proof -
  have start: "kl_start kl_fresh"
    by (simp add: kl_start_def kl_fresh_def)
  have "\<exists>t. run kl_step kl_fresh [CallLock 0 7, Advance 0] = Some t \<and> kl_pcs t 0 = Sending 7"
    by (simp add: kl_fresh_def NewKeyLocker_def key_lock_parts kl_goto_def Let_def)
  then show ?thesis
    using KeyLocker_no_deadlock [OF start, of _ _ 0] by fastforce
qed

text \<open>
  \<open>Unlock\<close> of a key that was never locked returns without releasing the mutex: every
  later \<open>Lock\<close> and \<open>Unlock\<close>, of any key, blocks.
\<close>

theorem KeyLocker_unlock_unknown_key:
  assumes "\<not> kl_mu s" "kl_lock s k = None"
  shows "\<exists>s'. KeyLocker_Unlock s k = Returns s' \<and>
    (\<forall>k'. KeyLocker_Lock s' k' = Blocks \<and> KeyLocker_Unlock s' k' = Blocks)"
  using assms by (simp add: KeyLocker_Unlock_def KeyLocker_Lock_def key_lock_parts)

theorem KeyLocker_unlock_unknown_key_witness:
  "\<exists>s'. KeyLocker_Unlock NewKeyLocker (1 :: nat) = Returns s' \<and>
    (\<forall>k'. KeyLocker_Lock s' k' = Blocks \<and> KeyLocker_Unlock s' k' = Blocks)"
  by (rule KeyLocker_unlock_unknown_key) (simp_all add: NewKeyLocker_def)

end
