(* ===== verification/Happens_Before.thy ===== *)
theory Happens_Before
  imports Machines
begin

text \<open>
  Package \<open>concurrency\<close>, file \<open>hb.go\<close>: \<open>Before(key)\<close> is meant to return only after a
  \<open>Happen(key, event)\<close> has run its event. The state of a key is a channel and a 32-bit counter
  that starts at \<open>nothing = 1\<close>; \<open>Happen\<close> adds one after the event and closes the channel when
  the counter was 0, \<open>Before\<close> subtracts one and waits on the channel when the counter was 1.
\<close>

section \<open>State and atomic parts of the methods\<close>

definition waiting :: "32 word" where "waiting = 0"
definition nothing :: "32 word" where "nothing = 1"
definition happened :: "32 word" where "happened = 2"

text \<open>
  Channels made for a key are numbered; \<open>waitMap\<close> gives the number of the channel that the
  key's pointer refers to. \<open>hb_closed\<close> holds the channels that are closed. The fields
  \<open>events\<close>, \<open>adds\<close> and \<open>subs\<close> are history: how many events ran for a key, how many \<open>Happen\<close>
  calls added and how many \<open>Before\<close> calls subtracted.
\<close>

record 'k hb =
  waitMap :: "'k \<rightharpoonup> nat"
  wasMap :: "'k \<rightharpoonup> 32 word"
  hb_closed :: "('k \<times> nat) set"
  hb_fresh :: nat
  events :: "'k \<Rightarrow> nat"
  adds :: "'k \<Rightarrow> nat"
  subs :: "'k \<Rightarrow> nat"

definition NewHappenceBeforeMachine :: "'k hb" where
  "NewHappenceBeforeMachine =
     \<lparr>waitMap = Map.empty, wasMap = Map.empty, hb_closed = {}, hb_fresh = 0,
      events = (\<lambda>_. 0), adds = (\<lambda>_. 0), subs = (\<lambda>_. 0)\<rparr>"

definition hb_create :: "'k \<Rightarrow> 'k hb \<Rightarrow> 'k hb" where
  "hb_create key h =
     (let h1 = (if waitMap h key = None
                then h\<lparr>waitMap := (waitMap h)(key \<mapsto> hb_fresh h), hb_fresh := Suc (hb_fresh h)\<rparr>
                else h)
      in if wasMap h1 key = None then h1\<lparr>wasMap := (wasMap h1)(key \<mapsto> nothing)\<rparr> else h1)"

definition hb_event :: "'k \<Rightarrow> 'k hb \<Rightarrow> 'k hb" where
  "hb_event key h = h\<lparr>events := (events h)(key := Suc (events h key))\<rparr>"

text \<open>\<open>was.Add(d)\<close>: the new value of the counter. The pointer was returned by \<open>create\<close>.\<close>

definition hb_add :: "32 word \<Rightarrow> 'k \<Rightarrow> 'k hb \<Rightarrow> (32 word \<times> 'k hb) option" where
  "hb_add d key h =
     (case wasMap h key of
        None \<Rightarrow> None
      | Some w \<Rightarrow> Some (w + d, h\<lparr>wasMap := (wasMap h)(key \<mapsto> w + d)\<rparr>))"

text \<open>\<open>close(*wait)\<close> panics on a closed channel.\<close>

definition hb_close :: "'k \<Rightarrow> 'k hb \<Rightarrow> 'k hb go option" where
  "hb_close key h =
     (case waitMap h key of
        None \<Rightarrow> None
      | Some c \<Rightarrow> Some (if (key, c) \<in> hb_closed h then Panics ''close of closed channel''
                        else Returns (h\<lparr>hb_closed := insert (key, c) (hb_closed h)\<rparr>)))"

definition hb_renew :: "'k \<Rightarrow> 'k hb \<Rightarrow> 'k hb" where
  "hb_renew key h =
     h\<lparr>waitMap := (waitMap h)(key \<mapsto> hb_fresh h), hb_fresh := Suc (hb_fresh h)\<rparr>"

text \<open>The methods run by one goroutine with no other moving.\<close>

definition Happen :: "'k hb \<Rightarrow> 'k \<Rightarrow> 'k hb go" where
  "Happen h key =
     (case hb_add 1 key (hb_event key (hb_create key h)) of
        None \<Rightarrow> Panics ''nil pointer''
      | Some (v, h1) \<Rightarrow>
          if v = nothing
          then (case hb_close key h1 of None \<Rightarrow> Panics ''nil pointer'' | Some r \<Rightarrow> r)
          else Returns h1)"

definition Before :: "'k hb \<Rightarrow> 'k \<Rightarrow> 'k hb go" where
  "Before h key =
     (case hb_add (- 1) key (hb_create key h) of
        None \<Rightarrow> Panics ''nil pointer''
      | Some (v, h1) \<Rightarrow>
          if v = waiting
          then (case waitMap h1 key of
                  None \<Rightarrow> Panics ''nil pointer''
                | Some c \<Rightarrow> if (key, c) \<in> hb_closed h1 then Returns (hb_renew key h1) else Blocks)
          else Returns h1)"

lemmas hb_parts = hb_create_def hb_event_def hb_add_def hb_close_def hb_renew_def
  waiting_def nothing_def happened_def

section \<open>Goroutines sharing one machine\<close>

text \<open>
  Each goroutine makes one call and then stays at its end; the end shows which call it was.
  \<open>BefWait k c\<close>: blocked on channel \<open>c\<close>, the one the pointer referred to when the receive began.
\<close>

datatype 'k hb_pc =
    NotStarted
  | HapCreated 'k | HapEvent 'k | HapClose 'k | HapDone 'k
  | BefCreated 'k | BefReceive 'k | BefWait 'k nat | BefRenew 'k | BefDone 'k
  | Crashed

record 'k hb_sys =
  hb_shared :: "'k hb"
  hb_pcs :: "nat \<Rightarrow> 'k hb_pc"

datatype 'k hb_act = CallHappen nat 'k | CallBefore nat 'k | HbAdvance nat

definition hb_goto :: "'k hb_sys \<Rightarrow> nat \<Rightarrow> 'k hb_pc \<Rightarrow> 'k hb \<Rightarrow> 'k hb_sys" where
  "hb_goto s i p h = \<lparr>hb_shared = h, hb_pcs = (hb_pcs s)(i := p)\<rparr>"

fun hb_step :: "'k hb_sys \<Rightarrow> 'k hb_act \<Rightarrow> 'k hb_sys option" where
  "hb_step s (CallHappen i k) =
     (if hb_pcs s i = NotStarted
      then Some (hb_goto s i (HapCreated k) (hb_create k (hb_shared s))) else None)"
| "hb_step s (CallBefore i k) =
     (if hb_pcs s i = NotStarted
      then Some (hb_goto s i (BefCreated k) (hb_create k (hb_shared s))) else None)"
| "hb_step s (HbAdvance i) =
     (case hb_pcs s i of
        HapCreated k \<Rightarrow> Some (hb_goto s i (HapEvent k) (hb_event k (hb_shared s)))
      | HapEvent k \<Rightarrow>
          map_option (\<lambda>(v, h). hb_goto s i (if v = nothing then HapClose k else HapDone k)
              (h\<lparr>adds := (adds h)(k := Suc (adds h k))\<rparr>))
            (hb_add 1 k (hb_shared s))
      | HapClose k \<Rightarrow>
          map_option (\<lambda>r. case r of
              Returns h \<Rightarrow> hb_goto s i (HapDone k) h
            | _ \<Rightarrow> hb_goto s i Crashed (hb_shared s))
            (hb_close k (hb_shared s))
      | BefCreated k \<Rightarrow>
          map_option (\<lambda>(v, h). hb_goto s i (if v = waiting then BefReceive k else BefDone k)
              (h\<lparr>subs := (subs h)(k := Suc (subs h k))\<rparr>))
            (hb_add (- 1) k (hb_shared s))
      | BefReceive k \<Rightarrow>
          map_option (\<lambda>c. hb_goto s i (BefWait k c) (hb_shared s)) (waitMap (hb_shared s) k)
      | BefWait k c \<Rightarrow>
          (if (k, c) \<in> hb_closed (hb_shared s)
           then Some (hb_goto s i (BefRenew k) (hb_shared s)) else None)
      | BefRenew k \<Rightarrow> Some (hb_goto s i (BefDone k) (hb_renew k (hb_shared s)))
      | _ \<Rightarrow> None)"

definition hb_start :: "'k hb_sys \<Rightarrow> bool" where
  "hb_start s \<longleftrightarrow> hb_shared s = NewHappenceBeforeMachine \<and> hb_pcs s = (\<lambda>_. NotStarted)"

section \<open>Invariant\<close>

text \<open>
  The counter is 1 plus additions minus subtractions; additions come after events, channels
  are closed after additions; and a \<open>Before\<close> call that is past its wait, or that skipped it as
  the only one that ever subtracted for the key, was preceded by an event.
\<close>

definition hb_pc_ok :: "'k hb \<Rightarrow> 'k hb_pc \<Rightarrow> bool" where
  "hb_pc_ok h p \<longleftrightarrow>
     (case p of
        HapCreated k \<Rightarrow> wasMap h k \<noteq> None
      | HapEvent k \<Rightarrow> wasMap h k \<noteq> None \<and> 0 < events h k
      | HapClose k \<Rightarrow> 0 < events h k
      | HapDone k \<Rightarrow> 0 < events h k
      | BefCreated k \<Rightarrow> wasMap h k \<noteq> None
      | BefReceive k \<Rightarrow> 0 < subs h k
      | BefWait k c \<Rightarrow> 0 < subs h k
      | BefRenew k \<Rightarrow> 0 < events h k \<and> 0 < subs h k
      | BefDone k \<Rightarrow> 0 < subs h k \<and> (subs h k = 1 \<longrightarrow> 0 < events h k)
      | _ \<Rightarrow> True)"

definition hb_view_ok :: "32 word option \<Rightarrow> nat \<Rightarrow> nat \<Rightarrow> nat \<Rightarrow> bool \<Rightarrow> bool" where
  "hb_view_ok w a b e closed \<longleftrightarrow>
     (case w of None \<Rightarrow> a = 0 \<and> b = 0 | Some v \<Rightarrow> v = 1 + of_nat a - of_nat b) \<and>
     (0 < a \<longrightarrow> 0 < e) \<and> (closed \<longrightarrow> 0 < e)"

definition hb_key_ok :: "'k hb \<Rightarrow> 'k \<Rightarrow> bool" where
  "hb_key_ok h k \<longleftrightarrow>
     hb_view_ok (wasMap h k) (adds h k) (subs h k) (events h k) (\<exists>c. (k, c) \<in> hb_closed h)"

definition hb_inv :: "'k hb_sys \<Rightarrow> bool" where
  [inv_defs]: "hb_inv s \<longleftrightarrow>
     (\<forall>i. hb_pc_ok (hb_shared s) (hb_pcs s i)) \<and> (\<forall>k. hb_key_ok (hb_shared s) k)"

text \<open>A step that only adds history keeps what is known of the other goroutines.\<close>

definition hb_grows :: "'k hb \<Rightarrow> 'k hb \<Rightarrow> bool" where
  "hb_grows h h' \<longleftrightarrow>
     (\<forall>k. (wasMap h k \<noteq> None \<longrightarrow> wasMap h' k \<noteq> None) \<and> events h k \<le> events h' k \<and>
        subs h k \<le> subs h' k)"

lemma hb_pc_ok_grows:
  assumes "hb_grows h h'" "hb_pc_ok h p"
  shows "hb_pc_ok h' p"
proof -
  have g: "wasMap h k \<noteq> None \<longrightarrow> wasMap h' k \<noteq> None" "events h k \<le> events h' k"
    "subs h k \<le> subs h' k" for k
    using assms(1) by (auto simp: hb_grows_def)
  show ?thesis
  proof (cases p)
    case (BefDone k)
    then show ?thesis
      using assms(2) g(2,3) [of k] by (auto simp: hb_pc_ok_def)
  qed (use assms(2) g in \<open>auto simp: hb_pc_ok_def intro: less_le_trans\<close>)
qed

lemma hb_inv_goto:
  assumes "hb_inv s" "hb_grows (hb_shared s) h" "hb_pc_ok h p" "\<And>k. hb_key_ok h k"
  shows "hb_inv (hb_goto s i p h)"
proof -
  have "hb_pc_ok h (hb_pcs s j)" for j
    using assms(1,2) by (auto simp: hb_inv_def intro: hb_pc_ok_grows)
  with assms(3,4) show ?thesis
    by (simp add: hb_inv_def hb_goto_def)
qed

lemma hb_inv_key: "hb_inv s \<Longrightarrow> hb_key_ok (hb_shared s) k"
  by (simp add: hb_inv_def)

lemma hb_inv_pc: "hb_inv s \<Longrightarrow> hb_pcs s i = p \<Longrightarrow> hb_pc_ok (hb_shared s) p"
  by (auto simp: hb_inv_def)

lemma hb_create_fields [simp]:
  "wasMap (hb_create k h) = (if wasMap h k = None then (wasMap h)(k \<mapsto> nothing) else wasMap h)"
  "events (hb_create k h) = events h" "adds (hb_create k h) = adds h"
  "subs (hb_create k h) = subs h" "hb_closed (hb_create k h) = hb_closed h"
  by (auto simp: hb_create_def Let_def)

lemma hb_create_ok:
  assumes "\<And>k. hb_key_ok h k"
  shows "hb_grows h (hb_create k h)" "hb_key_ok (hb_create k h) k'" "wasMap (hb_create k h) k \<noteq> None"
  using assms [of k']
  by (auto simp: hb_grows_def hb_key_ok_def hb_view_ok_def nothing_def)

lemma hb_add_ok:
  assumes "\<And>k. hb_key_ok h k" "hb_add d k h = Some (v, h1)"
  shows "hb_grows h h1" "v = 1 + of_nat (adds h k) - of_nat (subs h k) + d"
    "wasMap h1 = (wasMap h)(k \<mapsto> v)" "events h1 = events h" "adds h1 = adds h" "subs h1 = subs h"
    "hb_closed h1 = hb_closed h"
  using assms(1) [of k] assms(2)
  by (auto simp: hb_add_def hb_grows_def hb_key_ok_def hb_view_ok_def split: option.splits)

lemma hb_view_event: "hb_view_ok w a b e c \<Longrightarrow> hb_view_ok w a b (Suc e) c"
  by (simp add: hb_view_ok_def)

lemma hb_view_happen: "hb_view_ok w a b e c \<Longrightarrow> 0 < e \<Longrightarrow> v = 1 + of_nat a - of_nat b + 1 \<Longrightarrow>
    hb_view_ok (Some v) (Suc a) b e c"
  by (simp add: hb_view_ok_def)

lemma hb_view_before: "hb_view_ok w a b e c \<Longrightarrow> v = 1 + of_nat a - of_nat b + - 1 \<Longrightarrow>
    hb_view_ok (Some v) a (Suc b) e c"
  by (simp add: hb_view_ok_def)

lemma hb_start_inv: "hb_start s \<Longrightarrow> hb_inv s"
  by (simp add: hb_inv_def hb_start_def NewHappenceBeforeMachine_def hb_pc_ok_def hb_key_ok_def hb_view_ok_def)

lemma hb_advance_inv:
  assumes inv: "hb_inv s" and step: "hb_step s (HbAdvance i) = Some t"
  shows "hb_inv t"
proof (cases "hb_pcs s i")
  case (HapCreated k)
  with step have t: "t = hb_goto s i (HapEvent k) (hb_event k (hb_shared s))" by simp
  show ?thesis
    unfolding t using hb_inv_pc [OF inv HapCreated] hb_inv_key [OF inv]
    by (intro hb_inv_goto [OF inv])
       (simp_all add: hb_grows_def hb_event_def hb_pc_ok_def hb_key_ok_def hb_view_event)
next
  case (HapEvent k)
  with step obtain v h where add: "hb_add 1 k (hb_shared s) = Some (v, h)"
    and t: "t = hb_goto s i (if v = nothing then HapClose k else HapDone k)
      (h\<lparr>adds := (adds h)(k := Suc (adds h k))\<rparr>)" by auto
  note added = hb_add_ok [OF hb_inv_key [OF inv] add]
  have ev: "0 < events (hb_shared s) k"
    using hb_inv_pc [OF inv HapEvent] by (simp add: hb_pc_ok_def)
  note view = hb_view_happen [OF hb_inv_key [OF inv, of k, unfolded hb_key_ok_def] ev added(2)]
  show ?thesis
    unfolding t using added(1,3-) ev view hb_inv_key [OF inv]
    by (intro hb_inv_goto [OF inv])
       (simp_all add: hb_grows_def hb_pc_ok_def hb_key_ok_def)
next
  case (HapClose k)
  with step obtain c where c: "waitMap (hb_shared s) k = Some c"
    and t: "t = (if (k, c) \<in> hb_closed (hb_shared s) then hb_goto s i Crashed (hb_shared s)
      else hb_goto s i (HapDone k)
        (hb_shared s\<lparr>hb_closed := insert (k, c) (hb_closed (hb_shared s))\<rparr>))"
    by (auto simp: hb_close_def split: option.splits)
  have ev: "0 < events (hb_shared s) k"
    using hb_inv_pc [OF inv HapClose] by (simp add: hb_pc_ok_def)
  have "hb_key_ok (hb_shared s\<lparr>hb_closed := insert (k, c) (hb_closed (hb_shared s))\<rparr>) k'" for k'
    using hb_inv_key [OF inv, of k'] ev by (auto simp: hb_key_ok_def hb_view_ok_def)
  with ev show ?thesis
    unfolding t using hb_inv_key [OF inv]
    by (auto simp: hb_grows_def hb_pc_ok_def intro!: hb_inv_goto [OF inv])
next
  case (BefCreated k)
  with step obtain v h where add: "hb_add (- 1) k (hb_shared s) = Some (v, h)"
    and t: "t = hb_goto s i (if v = waiting then BefReceive k else BefDone k)
      (h\<lparr>subs := (subs h)(k := Suc (subs h k))\<rparr>)" by auto
  note added = hb_add_ok [OF hb_inv_key [OF inv] add]
  have first: "0 < events (hb_shared s) k" if "v \<noteq> waiting" "subs (hb_shared s) k = 0"
  proof -
    from that added(2) have "(of_nat (adds (hb_shared s) k) :: 32 word) \<noteq> 0"
      by (simp add: waiting_def)
    then have "0 < adds (hb_shared s) k" by (cases "adds (hb_shared s) k") auto
    with hb_inv_key [OF inv, of k] show ?thesis by (simp add: hb_key_ok_def hb_view_ok_def)
  qed
  note view = hb_view_before [OF hb_inv_key [OF inv, of k, unfolded hb_key_ok_def] added(2)]
  show ?thesis
    unfolding t using added(1,3-) first view hb_inv_key [OF inv]
    by (intro hb_inv_goto [OF inv])
       (simp_all add: hb_grows_def hb_pc_ok_def hb_key_ok_def)
next
  case (BefReceive k)
  then show ?thesis
    using step hb_inv_key [OF inv] hb_inv_pc [OF inv BefReceive]
    by (auto simp: hb_grows_def hb_pc_ok_def intro!: hb_inv_goto [OF inv])
next
  case (BefWait k c)
  then have closed: "(k, c) \<in> hb_closed (hb_shared s)" and t: "t = hb_goto s i (BefRenew k) (hb_shared s)"
    using step by (auto split: if_splits)
  then have "0 < events (hb_shared s) k"
    using hb_inv_key [OF inv, of k] by (auto simp: hb_key_ok_def hb_view_ok_def)
  moreover have "0 < subs (hb_shared s) k"
    using hb_inv_pc [OF inv BefWait] by (simp add: hb_pc_ok_def)
  ultimately show ?thesis
    unfolding t using hb_inv_key [OF inv]
    by (intro hb_inv_goto [OF inv]) (simp_all add: hb_grows_def hb_pc_ok_def)
next
  case (BefRenew k)
  then have t: "t = hb_goto s i (BefDone k) (hb_renew k (hb_shared s))"
    using step by simp
  show ?thesis
    unfolding t using hb_inv_pc [OF inv BefRenew] hb_inv_key [OF inv]
    by (intro hb_inv_goto [OF inv])
       (simp_all add: hb_grows_def hb_pc_ok_def hb_key_ok_def hb_renew_def)
qed (use step in simp_all)

lemma hb_step_inv:
  assumes inv: "hb_inv s" and step: "hb_step s a = Some t"
  shows "hb_inv t"
proof (cases a)
  case (CallHappen i k)
  with step have t: "t = hb_goto s i (HapCreated k) (hb_create k (hb_shared s))"
    by (simp split: if_splits)
  show ?thesis
    unfolding t using hb_create_ok [OF hb_inv_key [OF inv]]
    by (intro hb_inv_goto [OF inv]) (simp_all add: hb_pc_ok_def)
next
  case (CallBefore i k)
  with step have t: "t = hb_goto s i (BefCreated k) (hb_create k (hb_shared s))"
    by (simp split: if_splits)
  show ?thesis
    unfolding t using hb_create_ok [OF hb_inv_key [OF inv]]
    by (intro hb_inv_goto [OF inv]) (simp_all add: hb_pc_ok_def)
next
  case (HbAdvance i)
  with step show ?thesis by (blast intro: hb_advance_inv [OF inv])
qed

interpretation hbm: invariant_machine hb_step hb_start hb_inv
  by unfold_locales (fact hb_start_inv hb_step_inv)+

section \<open>Properties\<close>

text \<open>
  C26. The contract of \<open>Before\<close>: in every interleaving of any calls on a fresh machine, when a
  \<open>Before\<close> call on a key has returned and it is the only \<open>Before\<close> call on that key so far,
  then the event of some \<open>Happen\<close> call on that key has run.
\<close>

theorem Before_returns_after_event:
  assumes "hb_start s" "run hb_step s as = Some t"
    and "hb_pcs t i = BefDone k" "subs (hb_shared t) k = 1"
  shows "0 < events (hb_shared t) k"
  using hb_inv_pc [OF hbm.reachable_inv [OF assms(1,2)] assms(3)] assms(4)
  by (simp add: hb_pc_ok_def)

definition hb_fresh_sys :: "nat hb_sys" where
  "hb_fresh_sys = \<lparr>hb_shared = NewHappenceBeforeMachine, hb_pcs = (\<lambda>_. NotStarted)\<rparr>"

lemma hb_fresh_start: "hb_start hb_fresh_sys"
  by (simp add: hb_start_def hb_fresh_sys_def)

text \<open>A \<open>Before\<close> that comes first, waits, and is woken by the \<open>Happen\<close>.\<close>

definition before_then_happen :: "nat hb_act list" where
  "before_then_happen =
     [CallBefore 0 7, HbAdvance 0, HbAdvance 0, CallHappen 1 7, HbAdvance 1, HbAdvance 1,
      HbAdvance 1, HbAdvance 0, HbAdvance 0]"

theorem Before_returns_after_event_witness:
  "\<exists>t. run hb_step hb_fresh_sys before_then_happen = Some t \<and> hb_pcs t 0 = BefDone 7 \<and>
     0 < events (hb_shared t) 7"
proof -
  have "\<exists>t. run hb_step hb_fresh_sys before_then_happen = Some t \<and> hb_pcs t 0 = BefDone 7 \<and>
     subs (hb_shared t) 7 = 1"
    by (simp add: hb_fresh_sys_def before_then_happen_def NewHappenceBeforeMachine_def hb_parts
        hb_goto_def Let_def)
  then show ?thesis
    using Before_returns_after_event [OF hb_fresh_start] by blast
qed

text \<open>
  The contract does not extend to two calls: with two \<open>Before\<close> calls on a key and no
  \<open>Happen\<close> at all, the second one returns (the counter goes from 0 to -1, which is not
  \<open>waiting\<close>) although no event has run.
\<close>

theorem second_Before_returns_without_event:
  "\<exists>t. run hb_step hb_fresh_sys [CallBefore 0 7, HbAdvance 0, HbAdvance 0, CallBefore 1 7, HbAdvance 1] = Some t \<and>
     hb_pcs t 1 = BefDone 7 \<and> events (hb_shared t) 7 = 0 \<and> (\<forall>i k. hb_pcs t i \<noteq> HapDone k)"
  by (simp add: hb_fresh_sys_def NewHappenceBeforeMachine_def hb_parts hb_goto_def Let_def)

text \<open>
  One call after the other: \<open>Happen\<close> then \<open>Before\<close> returns; a second \<open>Before\<close> after
  that blocks until the next \<open>Happen\<close>, so a signal that is sent twice for one event is lost
  in its second call.
\<close>

theorem Happen_Before_sequential:
  "\<exists>h1 h2. Happen (NewHappenceBeforeMachine :: 'k hb) k = Returns h1 \<and> Before h1 k = Returns h2 \<and>
     Before h2 k = Blocks"
  by (simp add: Happen_def Before_def NewHappenceBeforeMachine_def hb_parts Let_def)

end
