(* ===== verification/File_Tree.thy ===== *)
theory File_Tree
  imports Prelude "HOL-Library.AList"
begin

unbundle bit_operations_syntax

text \<open>
  Directory trees and the operating system calls of the code. A call can fail for reasons the
  program does not control; which calls fail, and with what message, is an argument of every
  operation that makes system calls (\<open>no_faults\<close>: none fails).
\<close>

section \<open>Trees\<close>

text \<open>
  \<open>os.FileMode\<close>: the permission bits in the low nine bits, the kind of the file and the
  set-user-identifier, set-group-identifier and sticky bits in the high ones.
\<close>

type_synonym FileMode = "32 word"

text \<open>
  A directory is the list of its entries by name; a regular file has a mode and data, a directory
  a mode and entries. \<open>Special\<close> is everything else, symbolic links above all: the mode and the
  size \<open>Lstat\<close> reports, and what opening the path and reading to the end gives (for a link, the
  data of what it leads to, or the error). What is written through the path is read back through
  it; a path that cannot be read (a link to a directory or to nothing) is taken to give the same
  error when it is opened for writing. An open that never returns (a named pipe nobody writes to)
  is not modelled.
\<close>

datatype node =
    File (file_mode: FileMode) (file_data: bytes)
  | Dir (dir_mode: FileMode) (dir_entries: "(string \<times> node) list")
  | Special (special_mode: FileMode) (special_size: nat) (special_read: "string + bytes")

type_synonym dir = "(string \<times> node) list"

section \<open>System calls that can fail\<close>

datatype syscall =
    SysStat | SysMkdirAll | SysMkdir | SysRename | SysRemoveAll | SysReadDir
  | SysCreate | SysOpen | SysRead | SysWrite | SysClose | SysLink

text \<open>
  \<open>leftover\<close>: what a failing \<open>RemoveAll\<close> leaves of a directory; \<open>written\<close>: how many bytes a
  failing write (or read) gets through; \<open>umask\<close>: the file mode creation mask of the process. A
  call that the permission bits of a file forbid is among those that fail.
\<close>

record os_env =
  fault :: "syscall \<Rightarrow> string option"
  leftover :: "dir \<Rightarrow> dir option"
  written :: nat
  umask :: FileMode

definition no_faults :: os_env where
  "no_faults = \<lparr>fault = (\<lambda>_. None), leftover = Some, written = 0, umask = 18\<rparr>"

lemma no_faults_simps [simp]: "fault no_faults c = None"
  by (simp add: no_faults_def)

text \<open>No call fails, under any mask.\<close>

definition fault_free :: "os_env \<Rightarrow> bool" where
  "fault_free env \<longleftrightarrow> fault env = (\<lambda>_. None)"

lemma fault_free_fault [simp]: "fault_free env \<Longrightarrow> fault env c = None"
  by (simp add: fault_free_def)

lemma fault_free_no_faults [simp]: "fault_free no_faults" "fault_free (no_faults\<lparr>umask := u\<rparr>)"
  by (simp_all add: fault_free_def no_faults_def)

text \<open>
  The mode of a new file: \<open>syscallMode\<close> of the Go library passes the permission bits, the
  set-identifier bits and the sticky bit to the system, which clears the bits of the umask.
\<close>

definition creat_bits :: FileMode where
  "creat_bits = 0xD001FF"

definition creat_mode :: "os_env \<Rightarrow> FileMode \<Rightarrow> FileMode" where
  "creat_mode env m = m AND creat_bits AND NOT (umask env)"

lemma umask_022 [simp]:
  "creat_mode no_faults 438 = 420" "creat_mode no_faults 493 = 493" "creat_mode no_faults 511 = 493"
  "creat_mode no_faults 0x80001FF = 493"
  by (simp_all add: creat_mode_def creat_bits_def no_faults_def)

text \<open>\<open>ModeSymlink\<close>: a path through a link goes on where the link leads, outside of the tree.\<close>

definition is_link :: "FileMode \<Rightarrow> bool" where
  "is_link m \<longleftrightarrow> bit m 27"

datatype os_error = NotExist | OsError string

text \<open>\<open>os.Stat\<close> of a directory that a map of directories holds under a key.\<close>

definition Stat :: "os_env \<Rightarrow> ('k \<rightharpoonup> dir) \<Rightarrow> 'k \<Rightarrow> os_error option" where
  "Stat env m k =
     (case fault env SysStat of
        Some e \<Rightarrow> Some (OsError e)
      | None \<Rightarrow> if m k = None then Some NotExist else None)"

text \<open>\<open>os.RemoveAll\<close> reports no error when there is nothing to remove.\<close>

definition RemoveAll :: "os_env \<Rightarrow> ('k \<rightharpoonup> dir) \<Rightarrow> 'k \<Rightarrow> string option \<times> ('k \<rightharpoonup> dir)" where
  "RemoveAll env m k =
     (case fault env SysRemoveAll of
        Some e \<Rightarrow> (Some e, m(k := Option.bind (m k) (leftover env)))
      | None \<Rightarrow> (None, m(k := None)))"

text \<open>\<open>os.MkdirAll\<close> leaves an existing directory as it is.\<close>

definition MkdirAll :: "os_env \<Rightarrow> ('k \<rightharpoonup> dir) \<Rightarrow> 'k \<Rightarrow> string option \<times> ('k \<rightharpoonup> dir)" where
  "MkdirAll env m k =
     (case fault env SysMkdirAll of
        Some e \<Rightarrow> (Some e, m)
      | None \<Rightarrow> (None, if m k = None then m(k \<mapsto> []) else m))"

text \<open>
  \<open>os.Rename\<close> of a directory to a path: the source must exist, and a target that exists must
  be an empty directory.
\<close>

definition Rename :: "os_env \<Rightarrow> ('k \<rightharpoonup> dir) \<Rightarrow> ('k \<rightharpoonup> dir) \<Rightarrow> 'k
    \<Rightarrow> string option \<times> ('k \<rightharpoonup> dir) \<times> ('k \<rightharpoonup> dir)" where
  "Rename env from to k =
     (case fault env SysRename of
        Some e \<Rightarrow> (Some e, from, to)
      | None \<Rightarrow>
          (case from k of
             None \<Rightarrow> (Some ''no such file or directory'', from, to)
           | Some d \<Rightarrow>
               (if to k = None \<or> to k = Some [] then (None, from(k := None), to(k \<mapsto> d))
                else (Some ''directory not empty'', from, to))))"

section \<open>Files of a directory\<close>

text \<open>
  \<open>os.Create\<close> and \<open>os.OpenFile\<close> with \<open>O_CREATE|O_WRONLY\<close>: a new file gets the given
  permission bits less those of the umask; an existing one keeps its own, and its data too unless
  the call truncates.
\<close>

definition open_write :: "os_env \<Rightarrow> syscall \<Rightarrow> bool \<Rightarrow> FileMode \<Rightarrow> string \<Rightarrow> dir \<Rightarrow> string + dir" where
  "open_write env call trunc mode name d =
     (case fault env call of
        Some e \<Rightarrow> Inl e
      | None \<Rightarrow>
          (case map_of d name of
             None \<Rightarrow> Inr (AList.update name (File (creat_mode env mode) []) d)
           | Some (File m old) \<Rightarrow> Inr (AList.update name (File m (if trunc then [] else old)) d)
           | Some (Special m n (Inr old)) \<Rightarrow>
               Inr (AList.update name (Special m n (Inr (if trunc then [] else old))) d)
           | Some (Special m n (Inl e)) \<Rightarrow> Inl e
           | Some (Dir m es) \<Rightarrow> Inl ''is a directory''))"

text \<open>\<open>os.Create\<close> opens with mode 0666 and truncates.\<close>

definition os_Create :: "os_env \<Rightarrow> string \<Rightarrow> dir \<Rightarrow> string + dir" where
  "os_Create env = open_write env SysCreate True 438"

text \<open>Append to the data of a file; a file that is no longer in the directory takes it unseen.\<close>

definition append_data :: "string \<Rightarrow> bytes \<Rightarrow> dir \<Rightarrow> dir" where
  "append_data name p d =
     (case map_of d name of
        Some (File m old) \<Rightarrow> AList.update name (File m (old @ p)) d
      | Some (Special m n (Inr old)) \<Rightarrow> AList.update name (Special m n (Inr (old @ p))) d
      | _ \<Rightarrow> d)"

text \<open>What reading the whole file gives.\<close>

definition file_content :: "string \<Rightarrow> dir \<Rightarrow> bytes option" where
  "file_content name d =
     (case map_of d name of
        Some (File m data) \<Rightarrow> Some data
      | Some (Special m n (Inr data)) \<Rightarrow> Some data
      | _ \<Rightarrow> None)"

lemma map_of_update [simp]: "map_of (AList.update k v d) = (map_of d)(k \<mapsto> v)"
  by (simp add: update_conv')

lemma file_content_append:
  "file_content name d = Some old \<Longrightarrow> file_content name (append_data name p d) = Some (old @ p)"
  by (auto simp: file_content_def append_data_def split: option.splits node.splits sum.splits)

text \<open>A name under which a file can be opened for writing: it is free, or can be read.\<close>

definition name_writable :: "string \<Rightarrow> dir \<Rightarrow> bool" where
  "name_writable name d \<longleftrightarrow> map_of d name = None \<or> file_content name d \<noteq> None"

lemma name_writable_simps [simp]:
  "name_writable name []" "file_content name d = Some p \<Longrightarrow> name_writable name d"
  by (simp_all add: name_writable_def)

lemma name_writable_append: "name_writable name d \<Longrightarrow> name_writable name (append_data n' p d)"
  by (auto simp: name_writable_def append_data_def file_content_def split: option.splits node.splits sum.splits if_splits)

lemma os_Create_content: "os_Create env name d = Inr d1 \<Longrightarrow> file_content name d1 = Some []"
  by (auto simp: os_Create_def open_write_def file_content_def split: option.splits node.splits sum.splits)

lemma os_Create_ok:
  assumes "name_writable name d"
  obtains d1 where "os_Create no_faults name d = Inr d1" "file_content name d1 = Some []"
proof -
  from assms obtain d1 where "os_Create no_faults name d = Inr d1"
    by (force simp: name_writable_def file_content_def os_Create_def open_write_def
        split: option.splits node.splits sum.splits)
  then show thesis using that os_Create_content by blast
qed

end
