(* ===== verification/Artifact_Cache.thy ===== *)
theory Artifact_Cache
  imports Ids File_Tree Machines
begin

text \<open>
  Package \<open>artifact\<close>, file \<open>cache.go\<close>: artifacts are directories; one is written under the
  temporary directory while its identifier is write-locked, and enters the cache by a rename.
  The paths of different identifiers differ (\<open>ID_Path_inj\<close>, \<open>ID_String_inj\<close>), so each of the two
  directories is a map from identifiers to directory contents.
\<close>

section \<open>State and operations\<close>

datatype art_error =
    Art_ErrNotFound | Art_ErrExists | Art_ErrWriteLocked | Art_ErrReadLocked
  | Art_OsErr string
  | Art_InvalidName id_error

record Cache =
  tmpDir :: "ID \<rightharpoonup> dir"
  cacheDir :: "ID \<rightharpoonup> dir"
  writeLocked :: "ID set"
  readLocked :: "ID \<rightharpoonup> int"

text \<open>
  \<open>NewCache\<close> empties the temporary directory and makes the directories below the root: the
  temporary one, the one of the cache, and a shard for each first byte of an identifier. The
  cached artifacts stay. \<open>mkdir\<close> gives the error of \<open>os.MkdirAll\<close> for a path, if any; the first
  failing call ends \<open>NewCache\<close> with its error.
\<close>

definition cache_dirs :: "string list list" where
  "cache_dirs = [''tmp''] # [''c''] #
     map (\<lambda>n. [''c'', EncodeToString [of_nat n]]) [0..<256]"

definition NewCache :: "string option \<Rightarrow> (string list \<Rightarrow> string option) \<Rightarrow> (ID \<rightharpoonup> dir) \<Rightarrow> art_error + Cache" where
  "NewCache remove_all mkdir on_disk =
     (case remove_all of
        Some e \<Rightarrow> Inl (Art_OsErr e)
      | None \<Rightarrow>
          (case List.map_filter mkdir cache_dirs of
             e # _ \<Rightarrow> Inl (Art_OsErr e)
           | [] \<Rightarrow> Inr \<lparr>tmpDir = Map.empty, cacheDir = on_disk, writeLocked = {},
                       readLocked = Map.empty\<rparr>))"

definition readLock :: "ID \<Rightarrow> Cache \<Rightarrow> art_error option \<times> Cache" where
  "readLock i c =
     (if i \<in> writeLocked c then (Some Art_ErrWriteLocked, c)
      else (None, c\<lparr>readLocked := (readLocked c)(i \<mapsto>
              (case readLocked c i of None \<Rightarrow> 0 | Some n \<Rightarrow> n) + 1)\<rparr>))"

definition readUnlock :: "ID \<Rightarrow> Cache \<Rightarrow> Cache" where
  "readUnlock i c =
     (let n = (case readLocked c i of None \<Rightarrow> 0 | Some n \<Rightarrow> n) - 1
      in c\<lparr>readLocked := (if n = 0 then (readLocked c)(i := None) else (readLocked c)(i \<mapsto> n))\<rparr>)"

definition writeLock :: "os_env \<Rightarrow> ID \<Rightarrow> bool \<Rightarrow> Cache \<Rightarrow> art_error option \<times> Cache" where
  "writeLock env i remove c =
     (let stat = Stat env (cacheDir c) i
      in case stat of
           Some (OsError e) \<Rightarrow> (Some (Art_OsErr e), c)
         | _ \<Rightarrow>
             if stat = None \<and> \<not> remove then (Some Art_ErrExists, c)
             else if i \<in> writeLocked c then (Some Art_ErrWriteLocked, c)
             else if (case readLocked c i of None \<Rightarrow> 0 | Some n \<Rightarrow> n) > 0
                  then (Some Art_ErrReadLocked, c)
             else (None, c\<lparr>writeLocked := insert i (writeLocked c)\<rparr>))"

definition writeUnlock :: "ID \<Rightarrow> Cache \<Rightarrow> Cache" where
  "writeUnlock i c = c\<lparr>writeLocked := writeLocked c - {i}\<rparr>"

text \<open>The system call of \<open>Remove\<close> and of the closures \<open>commit\<close> and \<open>abort\<close>.\<close>

definition remove_dir :: "os_env \<Rightarrow> ID \<Rightarrow> Cache \<Rightarrow> art_error option \<times> Cache" where
  "remove_dir env i c =
     (let (e, m) = RemoveAll env (cacheDir c) i in (map_option Art_OsErr e, c\<lparr>cacheDir := m\<rparr>))"

definition abort_dir :: "os_env \<Rightarrow> ID \<Rightarrow> Cache \<Rightarrow> art_error option \<times> Cache" where
  "abort_dir env i c =
     (let (e, m) = RemoveAll env (tmpDir c) i in (map_option Art_OsErr e, c\<lparr>tmpDir := m\<rparr>))"

definition commit_dir :: "os_env \<Rightarrow> ID \<Rightarrow> Cache \<Rightarrow> art_error option \<times> Cache" where
  "commit_dir env i c =
     (let (e, t, m) = Rename env (tmpDir c) (cacheDir c) i
      in (map_option Art_OsErr e, c\<lparr>tmpDir := t, cacheDir := m\<rparr>))"

definition make_dir :: "os_env \<Rightarrow> ID \<Rightarrow> Cache \<Rightarrow> art_error option \<times> Cache" where
  "make_dir env i c =
     (let (e, m) = MkdirAll env (tmpDir c) i in (map_option Art_OsErr e, c\<lparr>tmpDir := m\<rparr>))"

definition Cache_Remove :: "os_env \<Rightarrow> ID \<Rightarrow> Cache \<Rightarrow> art_error option \<times> Cache" where
  "Cache_Remove env i c =
     (case writeLock env i True c of
        (Some e, c1) \<Rightarrow> (Some e, c1)
      | (None, c1) \<Rightarrow> (let (e, c2) = remove_dir env i c1 in (e, writeUnlock i c2)))"

text \<open>
  \<open>Create\<close> returns the path under the temporary directory and two closures; they capture only
  the identifier, and are \<open>Cache_commit\<close> and \<open>Cache_abort\<close> applied to it.
\<close>

definition Cache_Create :: "os_env \<Rightarrow> ID \<Rightarrow> Cache \<Rightarrow> art_error option \<times> Cache" where
  "Cache_Create env i c =
     (case writeLock env i False c of
        (Some e, c1) \<Rightarrow> (Some e, c1)
      | (None, c1) \<Rightarrow>
          (case make_dir env i c1 of
             (Some e, c2) \<Rightarrow> (Some e, writeUnlock i c2)
           | (None, c2) \<Rightarrow> (None, c2)))"

definition Cache_abort :: "os_env \<Rightarrow> ID \<Rightarrow> Cache \<Rightarrow> art_error option \<times> Cache" where
  "Cache_abort env i c = (let (e, c1) = abort_dir env i c in (e, writeUnlock i c1))"

definition Cache_commit :: "os_env \<Rightarrow> ID \<Rightarrow> Cache \<Rightarrow> art_error option \<times> Cache" where
  "Cache_commit env i c = (let (e, c1) = commit_dir env i c in (e, writeUnlock i c1))"

text \<open>\<open>Get\<close>; its \<open>unlock\<close> closure is \<open>readUnlock\<close> applied to the identifier.\<close>

definition stat_entry :: "os_env \<Rightarrow> ID \<Rightarrow> Cache \<Rightarrow> art_error option" where
  "stat_entry env i c =
     (case Stat env (cacheDir c) i of
        None \<Rightarrow> None
      | Some NotExist \<Rightarrow> Some Art_ErrNotFound
      | Some (OsError e) \<Rightarrow> Some (Art_OsErr e))"

definition Cache_Get :: "os_env \<Rightarrow> ID \<Rightarrow> Cache \<Rightarrow> art_error option \<times> Cache" where
  "Cache_Get env i c =
     (case readLock i c of
        (Some e, c1) \<Rightarrow> (Some e, c1)
      | (None, c1) \<Rightarrow>
          (case stat_entry env i c1 of
             Some e \<Rightarrow> (Some e, readUnlock i c1)
           | None \<Rightarrow> (None, c1)))"

text \<open>
  \<open>Range\<close> reads the shard directories and the names in each, in the order \<open>os.ReadDir\<close> gives
  them, and calls the function until it fails. The listing is a list of shards with the names
  in them; the function may change a state of its own.
\<close>

fun range_names :: "(ID \<Rightarrow> 'st \<Rightarrow> 'e option \<times> 'st) \<Rightarrow> (id_error \<Rightarrow> 'e) \<Rightarrow> string list \<Rightarrow> 'st \<Rightarrow> 'e option \<times> 'st" where
  "range_names f invalid [] st = (None, st)"
| "range_names f invalid (d # ds) st =
     (case ID_UnmarshalText d of
        Inl e \<Rightarrow> (Some (invalid e), st)
      | Inr i \<Rightarrow>
          (case f i st of
             (Some e, st1) \<Rightarrow> (Some e, st1)
           | (None, st1) \<Rightarrow> range_names f invalid ds st1))"

fun range_shards :: "(ID \<Rightarrow> 'st \<Rightarrow> 'e option \<times> 'st) \<Rightarrow> (id_error \<Rightarrow> 'e) \<Rightarrow> (string \<times> string list) list \<Rightarrow> 'st \<Rightarrow> 'e option \<times> 'st" where
  "range_shards f invalid [] st = (None, st)"
| "range_shards f invalid ((shard, names) # shards) st =
     (case range_names f invalid names st of
        (Some e, st1) \<Rightarrow> (Some e, st1)
      | (None, st1) \<Rightarrow> range_shards f invalid shards st1)"

definition Cache_Range :: "os_env \<Rightarrow> (ID \<Rightarrow> 'st \<Rightarrow> art_error option \<times> 'st) \<Rightarrow> (string \<times> string list) list \<Rightarrow> 'st \<Rightarrow> art_error option \<times> 'st" where
  "Cache_Range env f listing st =
     (case fault env SysReadDir of
        Some e \<Rightarrow> (Some (Art_OsErr e), st)
      | None \<Rightarrow> range_shards f Art_InvalidName listing st)"

lemmas cache_parts = readLock_def readUnlock_def writeLock_def writeUnlock_def remove_dir_def
  abort_dir_def commit_dir_def make_dir_def stat_entry_def Stat_def RemoveAll_def MkdirAll_def
  Rename_def

lemmas cache_ops = Cache_Remove_def Cache_Create_def Cache_abort_def Cache_commit_def Cache_Get_def

section \<open>Goroutines sharing a cache\<close>

text \<open>
  What a goroutine inside a method or holding a handle is doing. A method is cut between the
  sections under the cache's mutex and the system calls. \<open>Reading i\<close> and \<open>Writing i\<close> are the
  times between \<open>Get\<close> and its \<open>unlock\<close>, and between \<open>Create\<close> and its \<open>commit\<close> or \<open>abort\<close>.
\<close>

datatype act =
    GetLocked ID      \<comment> \<open>in \<open>Get\<close>, read-locked, before \<open>Stat\<close>\<close>
  | Reading ID
  | CreateLocked ID   \<comment> \<open>in \<open>Create\<close>, write-locked, before \<open>MkdirAll\<close>\<close>
  | Writing ID
  | RemoveLocked ID   \<comment> \<open>in \<open>Remove\<close>, write-locked, before \<open>RemoveAll\<close>\<close>
  | Releasing ID      \<comment> \<open>before the deferred \<open>writeUnlock\<close>\<close>

record cache_sys =
  shared :: Cache
  acts :: "act multiset"

datatype cache_act =
    StartGet ID | StatGet ID | EndRead ID
  | StartCreate ID | MkdirCreate ID | WriteFiles ID dir | CommitRename ID | AbortRemove ID
  | StartRemove ID | DeleteRemove ID | Release ID

text \<open>Replace one activity by another; not enabled when no goroutine is in it.\<close>

definition becomes :: "cache_sys \<Rightarrow> act \<Rightarrow> act multiset \<Rightarrow> Cache \<Rightarrow> cache_sys option" where
  "becomes s a B c =
     (if a \<in># acts s then Some \<lparr>shared = c, acts = acts s - {#a#} + B\<rparr> else None)"

text \<open>
  A label carries the failures of its system calls. A lock that is refused ends the method with
  its error and no activity.
\<close>

fun cache_step :: "cache_sys \<Rightarrow> os_env \<times> cache_act \<Rightarrow> cache_sys option" where
  "cache_step s (env, StartGet i) =
     (case readLock i (shared s) of
        (e, c) \<Rightarrow> Some \<lparr>shared = c, acts = acts s + (if e = None then {#GetLocked i#} else {#})\<rparr>)"
| "cache_step s (env, StatGet i) =
     (case stat_entry env i (shared s) of
        None \<Rightarrow> becomes s (GetLocked i) {#Reading i#} (shared s)
      | Some e \<Rightarrow> becomes s (GetLocked i) {#} (readUnlock i (shared s)))"
| "cache_step s (env, EndRead i) = becomes s (Reading i) {#} (readUnlock i (shared s))"
| "cache_step s (env, StartCreate i) =
     (case writeLock env i False (shared s) of
        (e, c) \<Rightarrow> Some \<lparr>shared = c, acts = acts s + (if e = None then {#CreateLocked i#} else {#})\<rparr>)"
| "cache_step s (env, MkdirCreate i) =
     (case make_dir env i (shared s) of
        (None, c) \<Rightarrow> becomes s (CreateLocked i) {#Writing i#} c
      | (Some e, c) \<Rightarrow> becomes s (CreateLocked i) {#Releasing i#} c)"
| "cache_step s (env, WriteFiles i d) =
     becomes s (Writing i) {#Writing i#} (shared s\<lparr>tmpDir := (tmpDir (shared s))(i \<mapsto> d)\<rparr>)"
| "cache_step s (env, CommitRename i) =
     becomes s (Writing i) {#Releasing i#} (snd (commit_dir env i (shared s)))"
| "cache_step s (env, AbortRemove i) =
     becomes s (Writing i) {#Releasing i#} (snd (abort_dir env i (shared s)))"
| "cache_step s (env, StartRemove i) =
     (case writeLock env i True (shared s) of
        (e, c) \<Rightarrow> Some \<lparr>shared = c, acts = acts s + (if e = None then {#RemoveLocked i#} else {#})\<rparr>)"
| "cache_step s (env, DeleteRemove i) =
     becomes s (RemoveLocked i) {#Releasing i#} (snd (remove_dir env i (shared s)))"
| "cache_step s (env, Release i) = becomes s (Releasing i) {#} (writeUnlock i (shared s))"

definition cache_start :: "cache_sys \<Rightarrow> bool" where
  "cache_start s \<longleftrightarrow> acts s = {#} \<and> (\<exists>remove_all mkdir on_disk. NewCache remove_all mkdir on_disk = Inr (shared s))"

definition readers :: "act multiset \<Rightarrow> ID \<Rightarrow> nat" where
  "readers A i = count A (GetLocked i) + count A (Reading i)"

definition writers :: "act multiset \<Rightarrow> ID \<Rightarrow> nat" where
  "writers A i = count A (CreateLocked i) + count A (Writing i) + count A (RemoveLocked i) +
     count A (Releasing i)"

text \<open>
  The invariant of one identifier: the lock tables count the goroutines, at most one writes and
  none reads meanwhile, and a reader's artifact is in the cache.
\<close>

definition entry_ok :: "int option \<Rightarrow> bool \<Rightarrow> bool \<Rightarrow> nat \<Rightarrow> nat \<Rightarrow> nat \<Rightarrow> bool" where
  "entry_ok rl wl present g r w \<longleftrightarrow>
     rl = (if g + r = 0 then None else Some (int (g + r))) \<and>
     w = (if wl then 1 else 0) \<and> (wl \<longrightarrow> g + r = 0) \<and> (0 < r \<longrightarrow> present)"

definition cache_ok :: "cache_sys \<Rightarrow> ID \<Rightarrow> bool" where
  "cache_ok s i \<longleftrightarrow>
     entry_ok (readLocked (shared s) i) (i \<in> writeLocked (shared s)) (cacheDir (shared s) i \<noteq> None)
       (count (acts s) (GetLocked i)) (count (acts s) (Reading i)) (writers (acts s) i)"

definition cache_inv :: "cache_sys \<Rightarrow> bool" where
  [inv_defs]: "cache_inv s \<longleftrightarrow> (\<forall>i. cache_ok s i)"

lemma NewCache_Inr:
  "NewCache remove_all mkdir on_disk = Inr c \<Longrightarrow>
     c = \<lparr>tmpDir = Map.empty, cacheDir = on_disk, writeLocked = {}, readLocked = Map.empty\<rparr>"
  by (auto simp: NewCache_def split: option.splits list.splits)

text \<open>
  A new cache has the directory into which \<open>commit\<close> renames the artifact of any identifier, so
  a rename only fails for reasons of its own.
\<close>

lemma NewCache_shard:
  assumes "NewCache remove_all mkdir on_disk = Inr c"
  shows "''c'' # butlast (ID_Path i) \<in> set cache_dirs \<and> mkdir (''c'' # butlast (ID_Path i)) = None"
proof -
  from assms have ok: "\<forall>p \<in> set cache_dirs. mkdir p = None"
    by (auto simp: NewCache_def List.map_filter_def filter_empty_conv split: option.splits list.splits)
  obtain b bs where b: "raw i = b # bs"
    using length_raw [of i] by (cases "raw i") (simp_all add: id_size_def)
  have "unat b < 256" using unsigned_less [of b] by simp
  then have "''c'' # butlast (ID_Path i) \<in> set cache_dirs"
    by (force simp: cache_dirs_def ID_Path_def b intro!: image_eqI [of _ _ "unat b"])
  with ok show ?thesis by blast
qed

lemma cache_start_inv: "cache_start s \<Longrightarrow> cache_inv s"
  by (auto simp: cache_start_def cache_inv_def cache_ok_def entry_ok_def writers_def dest!: NewCache_Inr)

lemma becomes_Some:
  "becomes s a B c = Some t \<longleftrightarrow> (\<exists>A. acts s = add_mset a A \<and> t = \<lparr>shared = c, acts = A + B\<rparr>)"
  by (auto simp: becomes_def dest: multi_member_split)

lemma cache_inv_entry: "cache_inv s \<Longrightarrow> cache_ok s i"
  by (simp add: cache_inv_def)

lemma writer_locked:
  assumes "cache_inv s" "a \<in># acts s" "a \<in> {CreateLocked i, Writing i, RemoveLocked i, Releasing i}"
  shows "i \<in> writeLocked (shared s)" "count (acts s) (Reading i) = 0" "writers (acts s) i = 1"
proof -
  have "0 < writers (acts s) i"
    using assms(2,3) by (auto simp: writers_def)
  with cache_inv_entry [OF assms(1), of i]
  show "i \<in> writeLocked (shared s)" "count (acts s) (Reading i) = 0" "writers (acts s) i = 1"
    by (auto simp: cache_ok_def entry_ok_def split: if_splits)
qed

text \<open>
  Each operation touches the entry of its own identifier only; what it does to that entry.
\<close>

lemma cache_okI:
  assumes "cache_ok s j"
    and "j \<noteq> i \<Longrightarrow> readLocked (shared t) j = readLocked (shared s) j \<and>
      (j \<in> writeLocked (shared t) \<longleftrightarrow> j \<in> writeLocked (shared s)) \<and>
      cacheDir (shared t) j = cacheDir (shared s) j \<and>
      count (acts t) (GetLocked j) = count (acts s) (GetLocked j) \<and>
      count (acts t) (Reading j) = count (acts s) (Reading j) \<and> writers (acts t) j = writers (acts s) j"
    and "cache_ok s i \<Longrightarrow> cache_ok t i"
  shows "cache_ok t j"
  using assms by (cases "j = i") (simp_all add: cache_ok_def)

lemma writers_add [simp]:
  "writers (add_mset (GetLocked k) A) i = writers A i" "writers (add_mset (Reading k) A) i = writers A i"
  "writers (add_mset (CreateLocked k) A) i = (if k = i then Suc (writers A i) else writers A i)"
  "writers (add_mset (Writing k) A) i = (if k = i then Suc (writers A i) else writers A i)"
  "writers (add_mset (RemoveLocked k) A) i = (if k = i then Suc (writers A i) else writers A i)"
  "writers (add_mset (Releasing k) A) i = (if k = i then Suc (writers A i) else writers A i)"
  by (simp_all add: writers_def)

definition or_zero :: "int option \<Rightarrow> int" where
  "or_zero n = (case n of None \<Rightarrow> 0 | Some k \<Rightarrow> k)"

lemma entry_read_lock:
  "entry_ok rl False p g r w \<Longrightarrow> entry_ok (Some (or_zero rl + 1)) False p (Suc g) r w"
  by (auto simp: entry_ok_def or_zero_def split: if_splits)

lemma entry_stat: "entry_ok rl wl p (Suc g) r w \<Longrightarrow> p \<Longrightarrow> entry_ok rl wl p g (Suc r) w"
  by (auto simp: entry_ok_def split: if_splits)

lemma entry_read_unlock:
  "entry_ok rl wl p (Suc g) r w \<or> entry_ok rl wl p g (Suc r) w \<Longrightarrow>
     entry_ok (if or_zero rl - 1 = 0 then None else Some (or_zero rl - 1)) wl p g r w"
  by (auto simp: entry_ok_def or_zero_def)

lemma entry_write_lock:
  "entry_ok rl False p g r w \<Longrightarrow> \<not> 0 < or_zero rl \<Longrightarrow> entry_ok rl True p g r (Suc w)"
  by (auto simp: entry_ok_def or_zero_def split: if_splits)

lemma entry_write_unlock: "entry_ok rl wl p g r (Suc w) \<Longrightarrow> entry_ok rl False p g r w"
  by (auto simp: entry_ok_def split: if_splits)

lemma entry_writer: "entry_ok rl wl p g r (Suc w) \<Longrightarrow> entry_ok rl wl p' g r (Suc w)"
  by (auto simp: entry_ok_def split: if_splits)

lemma readLock_ok:
  assumes "cache_ok s j" "readLock i (shared s) = (e, c)"
  shows "cache_ok \<lparr>shared = c, acts = acts s + (if e = None then {#GetLocked i#} else {#})\<rparr> j"
proof (rule cache_okI [OF assms(1), of i])
  assume "cache_ok s i"
  then show "cache_ok \<lparr>shared = c, acts = acts s + (if e = None then {#GetLocked i#} else {#})\<rparr> i"
    using assms(2) entry_read_lock
    by (auto simp: readLock_def cache_ok_def or_zero_def split: if_splits)
qed (use assms(2) in \<open>auto simp: readLock_def split: if_splits\<close>)

lemma readUnlock_eq:
  "readUnlock i c = c\<lparr>readLocked := (readLocked c)(i :=
     (if or_zero (readLocked c i) - 1 = 0 then None else Some (or_zero (readLocked c i) - 1)))\<rparr>"
  by (simp add: readUnlock_def or_zero_def Let_def)

lemma readUnlock_ok:
  assumes "cache_ok s j" "acts s = add_mset a A" "a = GetLocked i \<or> a = Reading i"
  shows "cache_ok \<lparr>shared = readUnlock i (shared s), acts = A\<rparr> j"
proof (rule cache_okI [OF assms(1), of i])
  assume "cache_ok s i"
  with assms(2,3) have "entry_ok (readLocked (shared s) i) (i \<in> writeLocked (shared s))
      (cacheDir (shared s) i \<noteq> None) (Suc (count A (GetLocked i))) (count A (Reading i)) (writers A i) \<or>
    entry_ok (readLocked (shared s) i) (i \<in> writeLocked (shared s))
      (cacheDir (shared s) i \<noteq> None) (count A (GetLocked i)) (Suc (count A (Reading i))) (writers A i)"
    by (auto simp: cache_ok_def)
  from entry_read_unlock [OF this]
  show "cache_ok \<lparr>shared = readUnlock i (shared s), acts = A\<rparr> i"
    by (simp add: readUnlock_eq cache_ok_def)
qed (use assms(2,3) in \<open>auto simp: readUnlock_eq\<close>)

lemma writeLock_ok:
  assumes "cache_ok s j" "writeLock env i rm (shared s) = (e, c)"
    and "a \<in> {CreateLocked i, RemoveLocked i}"
  shows "cache_ok \<lparr>shared = c, acts = acts s + (if e = None then {#a#} else {#})\<rparr> j"
proof -
  have eff: "c = shared s \<and> e \<noteq> None \<or>
      c = shared s\<lparr>writeLocked := insert i (writeLocked (shared s))\<rparr> \<and> e = None \<and>
      i \<notin> writeLocked (shared s) \<and> \<not> 0 < or_zero (readLocked (shared s) i)"
    using assms(2)
    by (auto simp: writeLock_def or_zero_def Let_def split: option.splits os_error.splits if_splits)
  show ?thesis
  proof (rule cache_okI [OF assms(1), of i])
    assume "cache_ok s i"
    then show "cache_ok \<lparr>shared = c, acts = acts s + (if e = None then {#a#} else {#})\<rparr> i"
      using eff assms(3) entry_write_lock by (auto simp: cache_ok_def)
  qed (use eff assms(3) in auto)
qed

lemma writeUnlock_ok:
  assumes "cache_ok s j" "acts s = add_mset (Releasing i) A"
  shows "cache_ok \<lparr>shared = writeUnlock i (shared s), acts = A\<rparr> j"
proof (rule cache_okI [OF assms(1), of i])
  assume "cache_ok s i"
  then show "cache_ok \<lparr>shared = writeUnlock i (shared s), acts = A\<rparr> i"
    using assms(2) entry_write_unlock by (auto simp: writeUnlock_def cache_ok_def)
qed (use assms(2) in \<open>auto simp: writeUnlock_def\<close>)

text \<open>A writer's system call: the lock tables stay, only its own entry of the disk may change.\<close>

lemma writer_ok:
  assumes "cache_ok s j" "acts s = add_mset a A"
    and "a \<in> {CreateLocked i, Writing i, RemoveLocked i}" "b \<in> {Writing i, Releasing i}"
    and "readLocked c = readLocked (shared s)" "writeLocked c = writeLocked (shared s)"
    and "\<And>k. k \<noteq> i \<Longrightarrow> cacheDir c k = cacheDir (shared s) k"
  shows "cache_ok \<lparr>shared = c, acts = add_mset b A\<rparr> j"
proof (rule cache_okI [OF assms(1), of i])
  assume "cache_ok s i"
  then show "cache_ok \<lparr>shared = c, acts = add_mset b A\<rparr> i"
    using assms(2-6) entry_writer by (auto simp: cache_ok_def)
qed (use assms(2-) in auto)

lemma writer_syscalls:
  "writeLocked (snd (make_dir env i c)) = writeLocked c" "readLocked (snd (make_dir env i c)) = readLocked c"
  "cacheDir (snd (make_dir env i c)) = cacheDir c"
  "writeLocked (snd (commit_dir env i c)) = writeLocked c" "readLocked (snd (commit_dir env i c)) = readLocked c"
  "k \<noteq> i \<Longrightarrow> cacheDir (snd (commit_dir env i c)) k = cacheDir c k"
  "writeLocked (snd (abort_dir env i c)) = writeLocked c" "readLocked (snd (abort_dir env i c)) = readLocked c"
  "cacheDir (snd (abort_dir env i c)) = cacheDir c"
  "writeLocked (snd (remove_dir env i c)) = writeLocked c" "readLocked (snd (remove_dir env i c)) = readLocked c"
  "k \<noteq> i \<Longrightarrow> cacheDir (snd (remove_dir env i c)) k = cacheDir c k"
  by (auto simp: make_dir_def MkdirAll_def commit_dir_def Rename_def abort_dir_def remove_dir_def
      RemoveAll_def Let_def split: option.split)

lemma cache_step_ok:
  assumes ok: "cache_ok s j" and step: "cache_step s (env, l) = Some t"
  shows "cache_ok t j"
proof (cases l)
  case (StartGet i)
  with ok step show ?thesis
    by (auto split: prod.splits intro: readLock_ok)
next
  case (StatGet i)
  show ?thesis
  proof (cases "stat_entry env i (shared s)")
    case None
    with StatGet step obtain A where A: "acts s = add_mset (GetLocked i) A"
      and t: "t = \<lparr>shared = shared s, acts = A + {#Reading i#}\<rparr>"
      by (auto simp: becomes_Some)
    from None have "cacheDir (shared s) i \<noteq> None"
      by (auto simp: stat_entry_def Stat_def split: option.splits if_splits)
    with A entry_stat show ?thesis
      unfolding t by (intro cache_okI [OF ok, of i]) (auto simp: cache_ok_def)
  next
    case (Some e)
    with StatGet step readUnlock_ok [OF ok, of "GetLocked i" _ i] show ?thesis
      by (auto simp: becomes_Some)
  qed
next
  case (EndRead i)
  with step readUnlock_ok [OF ok, of "Reading i" _ i] show ?thesis
    by (auto simp: becomes_Some)
next
  case (StartCreate i)
  with ok step show ?thesis
    by (auto split: prod.splits intro!: writeLock_ok)
next
  case (MkdirCreate i)
  obtain e c where c: "make_dir env i (shared s) = (e, c)" by fastforce
  with MkdirCreate step obtain A b where "acts s = add_mset (CreateLocked i) A"
    "t = \<lparr>shared = c, acts = A + {#b#}\<rparr>" "b \<in> {Writing i, Releasing i}"
    by (cases e) (auto simp: becomes_Some)
  then show ?thesis
    using writer_syscalls(1-3) [where env = env and i = i and c = "shared s"] c by (auto intro!: writer_ok [OF ok])
next
  case (WriteFiles i d)
  with step obtain A where "acts s = add_mset (Writing i) A"
    "t = \<lparr>shared = shared s\<lparr>tmpDir := (tmpDir (shared s))(i \<mapsto> d)\<rparr>, acts = A + {#Writing i#}\<rparr>"
    by (auto simp: becomes_Some)
  then show ?thesis
    by (auto intro!: writer_ok [OF ok])
next
  case (CommitRename i)
  with step show ?thesis
    using writer_syscalls(4-6) [where env = env and i = i and c = "shared s"]
    by (auto simp: becomes_Some intro!: writer_ok [OF ok])
next
  case (AbortRemove i)
  with step show ?thesis
    using writer_syscalls(7-9) [where env = env and i = i and c = "shared s"]
    by (auto simp: becomes_Some intro!: writer_ok [OF ok])
next
  case (StartRemove i)
  with ok step show ?thesis
    by (auto split: prod.splits intro!: writeLock_ok)
next
  case (DeleteRemove i)
  with step show ?thesis
    using writer_syscalls(10-12) [where env = env and i = i and c = "shared s"]
    by (auto simp: becomes_Some intro!: writer_ok [OF ok])
next
  case (Release i)
  with step writeUnlock_ok [OF ok] show ?thesis
    by (auto simp: becomes_Some)
qed

lemma cache_step_inv: "cache_inv s \<Longrightarrow> cache_step s a = Some t \<Longrightarrow> cache_inv t"
  unfolding cache_inv_def by (cases a) (blast intro: cache_step_ok)

interpretation cm: invariant_machine cache_step cache_start cache_inv
  by unfold_locales (fact cache_start_inv cache_step_inv)+

lemma reading_step:
  assumes inv: "cache_inv s" and step: "cache_step s (env, l) = Some t" and l: "l \<noteq> EndRead i"
    and r: "Reading i \<in># acts s"
  shows "Reading i \<in># acts t \<and> cacheDir (shared t) i = cacheDir (shared s) i"
proof -
  have "a \<notin># acts s" if "a \<in> {CreateLocked i, Writing i, RemoveLocked i, Releasing i}" for a
    using writer_locked(2) [OF inv _ that] r by (auto simp: count_eq_zero_iff)
  then have w: "Writing i \<notin># acts s" "RemoveLocked i \<notin># acts s"
    by simp_all
  have mk: "cacheDir c' = cacheDir c" if "make_dir env k c = (e, c')" for k c e c'
    using writer_syscalls(3) [of env k c] that by simp
  have "Reading i \<in># acts t"
    using step l r by (cases l) (auto simp: becomes_Some split: prod.splits option.splits)
  moreover have "cacheDir (shared t) i = cacheDir (shared s) i"
  proof (cases "\<exists>k. l \<in> {CommitRename k, DeleteRemove k}")
    case True
    then obtain k where k: "l = CommitRename k \<or> l = DeleteRemove k" by blast
    with step w have "k \<noteq> i"
      by (auto simp: becomes_Some)
    with step k show ?thesis
      by (auto simp: becomes_Some writer_syscalls)
  next
    case False
    with step show ?thesis
      using writer_syscalls(9)
      by (cases l)
         (auto simp: becomes_Some readLock_def writeLock_def readUnlock_eq writeUnlock_def Let_def
           split: prod.splits option.splits if_splits os_error.splits dest: mk)
  qed
  ultimately show ?thesis ..
qed

section \<open>The contract of the cache for one caller\<close>

text \<open>
  What a caller that is alone with the cache, on a machine whose system calls do not fail, can
  rely on: \<open>content\<close> is what \<open>get\<close> finds, \<open>draft\<close> what has been written since \<open>create\<close>.
\<close>

locale artifact_store =
  fixes content :: "'s \<Rightarrow> 'k \<Rightarrow> 'd option"
    and draft :: "'s \<Rightarrow> 'k \<Rightarrow> 'd option"
    and free :: "'s \<Rightarrow> 'k \<Rightarrow> bool"
    and writing :: "'s \<Rightarrow> 'k \<Rightarrow> bool"
    and create :: "'k \<Rightarrow> 's \<Rightarrow> 'e option \<times> 's"
    and put :: "'k \<Rightarrow> 'd \<Rightarrow> 's \<Rightarrow> 's"
    and commit :: "'k \<Rightarrow> 's \<Rightarrow> 'e option \<times> 's"
    and abort :: "'k \<Rightarrow> 's \<Rightarrow> 'e option \<times> 's"
    and get :: "'k \<Rightarrow> 's \<Rightarrow> 'e option \<times> 's"
    and unlock :: "'k \<Rightarrow> 's \<Rightarrow> 's"
    and delete :: "'k \<Rightarrow> 's \<Rightarrow> 'e option \<times> 's"
  assumes create_ok: "free s k \<Longrightarrow> content s k = None \<Longrightarrow>
      \<exists>s'. create k s = (None, s') \<and> content s' = content s \<and> writing s' k"
    and create_exists: "content s k = Some d \<Longrightarrow> \<exists>e. create k s = (Some e, s)"
    and put_ok: "writing s k \<Longrightarrow>
      content (put k d s) = content s \<and> writing (put k d s) k \<and> draft (put k d s) k = Some d"
    and commit_ok: "writing s k \<Longrightarrow> draft s k = Some d \<Longrightarrow> content s k = None \<Longrightarrow>
      \<exists>s'. commit k s = (None, s') \<and> content s' = (content s)(k \<mapsto> d) \<and> free s' k \<and> draft s' k = None"
    and abort_ok: "writing s k \<Longrightarrow>
      \<exists>s'. abort k s = (None, s') \<and> content s' = content s \<and> free s' k \<and> draft s' k = None"
    and get_ok: "free s k \<Longrightarrow> content s k = Some d \<Longrightarrow>
      \<exists>s'. get k s = (None, s') \<and> content s' = content s \<and> unlock k s' = s"
    and get_missing: "free s k \<Longrightarrow> content s k = None \<Longrightarrow> \<exists>e. get k s = (Some e, s)"
    and delete_ok: "free s k \<Longrightarrow>
      \<exists>s'. delete k s = (None, s') \<and> content s' = (content s)(k := None) \<and> free s' k"
begin

text \<open>Create, write, commit: afterwards a reader finds what was written.\<close>

lemma publish:
  assumes "free s k" "content s k = None"
  obtains s1 s2 s3 where "create k s = (None, s1)" "commit k (put k d s1) = (None, s2)"
    "content s2 = (content s)(k \<mapsto> d)" "free s2 k"
    "get k s2 = (None, s3)" "content s3 k = Some d" "unlock k s3 = s2"
proof -
  from create_ok [OF assms] obtain s1 where s1: "create k s = (None, s1)" "content s1 = content s"
    "writing s1 k" by blast
  with put_ok [OF s1(3)] assms(2) commit_ok [of "put k d s1" k d]
  obtain s2 where s2: "commit k (put k d s1) = (None, s2)" "content s2 = (content s)(k \<mapsto> d)" "free s2 k"
    by auto
  with get_ok [of s2 k d] obtain s3 where "get k s2 = (None, s3)" "content s3 = content s2"
    "unlock k s3 = s2" by auto
  with s1 s2 that show thesis by simp
qed

text \<open>Create, write, abort: as if nothing had been written.\<close>

lemma discard:
  assumes "free s k" "content s k = None"
  obtains s1 s2 where "create k s = (None, s1)" "abort k (put k d s1) = (None, s2)"
    "content s2 = content s" "free s2 k" "draft s2 k = None"
proof -
  from create_ok [OF assms] obtain s1 where s1: "create k s = (None, s1)" "content s1 = content s"
    "writing s1 k" by blast
  with put_ok [OF s1(3)] abort_ok [of "put k d s1" k] that show thesis
    by auto
qed

text \<open>Delete, then create: an existing entry can be replaced.\<close>

lemma replace:
  assumes "free s k"
  obtains s1 s2 s3 where "delete k s = (None, s1)" "create k s1 = (None, s2)"
    "commit k (put k d s2) = (None, s3)" "content s3 = (content s)(k \<mapsto> d)" "free s3 k"
proof -
  from delete_ok [OF assms] obtain s1 where s1: "delete k s = (None, s1)"
    "content s1 = (content s)(k := None)" "free s1 k" by blast
  then have "content s1 k = None" by simp
  from publish [OF s1(3) this] obtain s2 s3 where "create k s1 = (None, s2)"
    "commit k (put k d s2) = (None, s3)" "content s3 = (content s1)(k \<mapsto> d)" "free s3 k"
    by metis
  with s1 that show thesis by simp
qed

end

definition entry_free :: "Cache \<Rightarrow> ID \<Rightarrow> bool" where
  "entry_free c i \<longleftrightarrow> i \<notin> writeLocked c \<and> readLocked c i = None"

definition entry_writing :: "Cache \<Rightarrow> ID \<Rightarrow> bool" where
  "entry_writing c i \<longleftrightarrow> i \<in> writeLocked c \<and> readLocked c i = None \<and> tmpDir c i \<noteq> None"

definition write_files :: "ID \<Rightarrow> dir \<Rightarrow> Cache \<Rightarrow> Cache" where
  "write_files i d c = c\<lparr>tmpDir := (tmpDir c)(i \<mapsto> d)\<rparr>"

interpretation ac: artifact_store cacheDir tmpDir entry_free entry_writing
  "Cache_Create no_faults" write_files "Cache_commit no_faults" "Cache_abort no_faults"
  "Cache_Get no_faults" readUnlock "Cache_Remove no_faults"
  by unfold_locales
     (auto simp: cache_ops cache_parts entry_free_def entry_writing_def write_files_def Let_def
       fun_upd_idem)

section \<open>Range\<close>

text \<open>Reference: call the function on each identifier until it fails.\<close>

fun iterate :: "(ID \<Rightarrow> 'st \<Rightarrow> 'e option \<times> 'st) \<Rightarrow> ID list \<Rightarrow> 'st \<Rightarrow> 'e option \<times> 'st" where
  "iterate f [] st = (None, st)"
| "iterate f (i # is) st = (case f i st of (Some e, st1) \<Rightarrow> (Some e, st1) | (None, st1) \<Rightarrow> iterate f is st1)"

lemma ID_UnmarshalText_String [simp]: "ID_UnmarshalText (ID_String i) = Inr i"
  by (simp add: ID_UnmarshalText_def ID_String_def raw_inverse)

lemma range_names_iterate: "range_names f invalid (map ID_String is) st = iterate f is st"
  by (induction "is" arbitrary: st) (auto split: prod.split option.split)

lemma iterate_append:
  "iterate f (is @ js) st = (case iterate f is st of (Some e, st1) \<Rightarrow> (Some e, st1) | (None, st1) \<Rightarrow> iterate f js st1)"
  by (induction "is" arbitrary: st) (auto split: prod.split option.split)

lemma range_shards_iterate:
  "range_shards f invalid (map (\<lambda>(shard, is). (shard, map ID_String is)) listing) st =
     iterate f (concat (map snd listing)) st"
  by (induction listing arbitrary: st)
     (auto simp: range_names_iterate iterate_append split: prod.split option.split)

section \<open>Properties\<close>

text \<open>
  C19. Exclusion: in every interleaving of calls of any number of goroutines on a new cache,
  with any failing system calls, an artifact never has two writers (goroutines creating,
  writing, removing or about to release it), and never a writer and a reader together.
\<close>

theorem cache_exclusion:
  assumes "cache_start s" "run cache_step s as = Some t"
  shows "writers (acts t) i \<le> 1 \<and> (writers (acts t) i = 0 \<or> readers (acts t) i = 0)"
  using cache_inv_entry [OF cm.reachable_inv [OF assms], of i]
  by (auto simp: cache_ok_def entry_ok_def readers_def split: if_splits)

definition empty_sys :: cache_sys where
  "empty_sys = \<lparr>shared = \<lparr>tmpDir = Map.empty, cacheDir = Map.empty, writeLocked = {},
     readLocked = Map.empty\<rparr>, acts = {#}\<rparr>"

lemma empty_sys_start: "cache_start empty_sys"
  by (auto simp: cache_start_def empty_sys_def NewCache_def List.map_filter_def
      intro!: exI [of _ None] exI [of _ "\<lambda>_. None"])

abbreviation idA :: ID where "idA \<equiv> ID_lit [97]"

abbreviation idB :: ID where "idB \<equiv> ID_lit [98]"

text \<open>One goroutine creates and commits; two read; a remove is refused meanwhile.\<close>

definition cache_demo :: "(os_env \<times> cache_act) list" where
  "cache_demo = map (Pair no_faults)
     [StartCreate idA, MkdirCreate idA, WriteFiles idA [(''a.txt'', File 420 [1])], CommitRename idA,
      Release idA, StartGet idA, StatGet idA, StartGet idA, StartRemove idA]"

lemma cache_demo_runs:
  "\<exists>t. run cache_step empty_sys cache_demo = Some t \<and>
     acts t = {#GetLocked idA, Reading idA#} \<and> cacheDir (shared t) idA = Some [(''a.txt'', File 420 [1])]"
  by (simp add: cache_demo_def empty_sys_def becomes_def cache_parts Let_def)

theorem cache_exclusion_witness:
  "\<exists>t. run cache_step empty_sys cache_demo = Some t \<and>
     (writers (acts t) idA \<le> 1 \<and> (writers (acts t) idA = 0 \<or> readers (acts t) idA = 0))"
  using cache_demo_runs cache_exclusion [OF empty_sys_start, of cache_demo _ idA] by blast

text \<open>
  While a goroutine reads an artifact, nothing the others do, failing system calls included,
  changes or removes it: until an \<open>unlock\<close> of that artifact happens its directory stays in the
  cache with the content it had.
\<close>

theorem cache_reader_stable:
  assumes "cache_start s0" "run cache_step s0 as = Some s" "Reading i \<in># acts s"
    and "run cache_step s bs = Some t" "\<forall>b \<in> set bs. snd b \<noteq> EndRead i"
  shows "cacheDir (shared t) i = cacheDir (shared s) i \<and> cacheDir (shared t) i \<noteq> None"
proof -
  from cm.reachable_inv [OF assms(1,2)] have inv: "cache_inv s" .
  have "Reading i \<in># acts t \<and> cacheDir (shared t) i = cacheDir (shared s) i"
    by (rule cm.run_stable [of "\<lambda>b. snd b \<noteq> EndRead i", OF _ inv assms(4,5)])
       (auto simp: assms(3) dest: reading_step)
  moreover from cache_inv_entry [OF inv, of i] assms(3) have "cacheDir (shared s) i \<noteq> None"
    by (auto simp: cache_ok_def entry_ok_def)
  ultimately show ?thesis by simp
qed

theorem cache_reader_stable_witness:
  "\<exists>s t. run cache_step empty_sys cache_demo = Some s \<and>
     run cache_step s [(no_faults, StartRemove idA), (no_faults, StartCreate idA)] = Some t \<and>
     (cacheDir (shared t) idA = cacheDir (shared s) idA \<and> cacheDir (shared t) idA \<noteq> None)"
proof -
  obtain s where s: "run cache_step empty_sys cache_demo = Some s"
    and A: "acts s = {#GetLocked idA, Reading idA#}"
    using cache_demo_runs by blast
  have "\<exists>t. run cache_step s [(no_faults, StartRemove idA), (no_faults, StartCreate idA)] = Some t"
    by (simp split: prod.split)
  then obtain t where t: "run cache_step s [(no_faults, StartRemove idA), (no_faults, StartCreate idA)] = Some t" ..
  show ?thesis
    using s t cache_reader_stable [OF empty_sys_start s _ t, of idA] A by fastforce
qed

text \<open>
  Which error each call gives, when no system call fails, and in which order the conditions
  are tested: \<open>Create\<close> looks for an existing artifact before it looks at the locks, \<open>Remove\<close>
  does not mind a missing artifact, and \<open>Get\<close> reports a write lock before a missing artifact. A
  call that fails leaves the cache as it was.
\<close>

theorem cache_errors:
  assumes "\<forall>n. readLocked c i = Some n \<longrightarrow> 0 < n"
  shows "fst (Cache_Create no_faults i c) =
      (if cacheDir c i \<noteq> None then Some Art_ErrExists
       else if i \<in> writeLocked c then Some Art_ErrWriteLocked
       else if readLocked c i \<noteq> None then Some Art_ErrReadLocked else None) \<and>
    fst (Cache_Remove no_faults i c) =
      (if i \<in> writeLocked c then Some Art_ErrWriteLocked
       else if readLocked c i \<noteq> None then Some Art_ErrReadLocked else None) \<and>
    fst (Cache_Get no_faults i c) =
      (if i \<in> writeLocked c then Some Art_ErrWriteLocked
       else if cacheDir c i = None then Some Art_ErrNotFound else None) \<and>
    (fst (Cache_Create no_faults i c) \<noteq> None \<longrightarrow> snd (Cache_Create no_faults i c) = c) \<and>
    (fst (Cache_Remove no_faults i c) \<noteq> None \<longrightarrow> snd (Cache_Remove no_faults i c) = c) \<and>
    (fst (Cache_Get no_faults i c) \<noteq> None \<longrightarrow> snd (Cache_Get no_faults i c) = c)"
  using assms
  by (auto simp: cache_ops cache_parts Let_def fun_upd_idem split: option.split)

theorem cache_errors_witness:
  "fst (Cache_Create no_faults idA (shared empty_sys)) = None \<and>
   fst (Cache_Get no_faults idA (shared empty_sys)) = Some Art_ErrNotFound"
  using cache_errors [of "shared empty_sys" idA] by (simp add: empty_sys_def)

text \<open>
  \<open>Create\<close>, writing files, \<open>commit\<close> puts exactly these files into the cache under the
  identifier, leaves the other artifacts, and a \<open>Get\<close> then succeeds; its \<open>unlock\<close> restores the
  state before it.
\<close>

theorem cache_publish:
  assumes "entry_free c i" "cacheDir c i = None"
  shows "\<exists>c1 c2 c3. Cache_Create no_faults i c = (None, c1) \<and>
    Cache_commit no_faults i (write_files i d c1) = (None, c2) \<and>
    cacheDir c2 = (cacheDir c)(i \<mapsto> d) \<and> entry_free c2 i \<and>
    Cache_Get no_faults i c2 = (None, c3) \<and> cacheDir c3 i = Some d \<and> readUnlock i c3 = c2"
  using ac.publish [OF assms, of d] by metis

theorem cache_publish_witness:
  "\<exists>c1 c2 c3. Cache_Create no_faults idA (shared empty_sys) = (None, c1) \<and>
    Cache_commit no_faults idA (write_files idA [] c1) = (None, c2) \<and>
    cacheDir c2 = (cacheDir (shared empty_sys))(idA \<mapsto> []) \<and> entry_free c2 idA \<and>
    Cache_Get no_faults idA c2 = (None, c3) \<and> cacheDir c3 idA = Some [] \<and> readUnlock idA c3 = c2"
  by (rule cache_publish) (simp_all add: empty_sys_def entry_free_def)

text \<open>
  A \<open>commit\<close> whose rename fails reports the error and releases the lock but leaves the
  written files under the temporary directory: the next \<open>Create\<close> of the same identifier
  succeeds and starts with these files instead of an empty directory.
\<close>

theorem failed_commit_leaves_files:
  assumes "entry_free c i" "cacheDir c i = None" "fault env SysRename = Some e"
  shows "\<exists>c1 c2 c3. Cache_Create no_faults i c = (None, c1) \<and>
    Cache_commit env i (write_files i d c1) = (Some (Art_OsErr e), c2) \<and> entry_free c2 i \<and>
    Cache_Create no_faults i c2 = (None, c3) \<and> tmpDir c3 i = Some d"
  using assms
  by (auto simp: cache_ops cache_parts entry_free_def write_files_def Let_def)

theorem failed_commit_leaves_files_witness:
  "\<exists>c1 c2 c3. Cache_Create no_faults idA (shared empty_sys) = (None, c1) \<and>
    Cache_commit (no_faults\<lparr>fault := (\<lambda>_. Some ''EIO'')\<rparr>) idA (write_files idA [(''x'', File 0 [])] c1) =
      (Some (Art_OsErr ''EIO''), c2) \<and> entry_free c2 idA \<and>
    Cache_Create no_faults idA c2 = (None, c3) \<and> tmpDir c3 idA = Some [(''x'', File 0 [])]"
  by (rule failed_commit_leaves_files) (simp_all add: empty_sys_def entry_free_def)

text \<open>
  \<open>Range\<close> over a cache directory whose entries are the text forms of identifiers calls the
  function on exactly these, in the order of the listing, until the function fails; it returns
  the function's error, and nothing is reported as an invalid name.
\<close>

theorem Cache_Range_iterates:
  "Cache_Range no_faults f (map (\<lambda>(shard, is). (shard, map ID_String is)) listing) st =
     iterate f (concat (map snd listing)) st"
  by (simp add: Cache_Range_def range_shards_iterate)

end
