(* ===== verification/Tar_Stream.thy ===== *)
theory Tar_Stream
  imports File_Tree
begin

text \<open>
  Package \<open>tarstream\<close>: a directory tree sent as a tar stream and unpacked again. A stream is the
  sequence of entries (header and data) that the tar writer wrote and the tar reader reads back;
  the byte format of \<open>archive/tar\<close> is below this model. Paths are lists of names.
\<close>

section \<open>Paths\<close>

definition slash :: char where
  "slash = CHR ''/''"

fun split_slash :: "string \<Rightarrow> string list" where
  "split_slash [] = [[]]"
| "split_slash (c # cs) =
     (if c = slash then [] # split_slash cs
      else case split_slash cs of [] \<Rightarrow> [[c]] | w # ws \<Rightarrow> (c # w) # ws)"

fun join_slash :: "string list \<Rightarrow> string" where
  "join_slash [] = []"
| "join_slash [w] = w"
| "join_slash (w # ws) = w @ slash # join_slash ws"

text \<open>\<open>filepath.Clean\<close> of an absolute path; above the root \<open>..\<close> stays at the root.\<close>

fun clean :: "string list \<Rightarrow> string list \<Rightarrow> string list" where
  "clean done_rev [] = rev done_rev"
| "clean done_rev (w # ws) =
     (if w = '''' \<or> w = ''.'' then clean done_rev ws
      else if w = ''..'' then clean (drop 1 done_rev) ws
      else clean (w # done_rev) ws)"

definition Join :: "string list \<Rightarrow> string \<Rightarrow> string list" where
  "Join base name = clean [] (base @ split_slash name)"

section \<open>Sending\<close>

text \<open>
  A header and the data that follows it in the stream. \<open>h_Size\<close> is what the header announces; the
  data is shorter in a stream that broke off.
\<close>

datatype tar_entry =
    TarDir (h_Name: string)
  | TarFile (h_Name: string) (h_Mode: FileMode) (h_Size: nat) (h_data: bytes)

text \<open>
  \<open>tar.Writer\<close>: the entries written so far and how much of the data the last header announced is
  still missing. A new header, or \<open>Close\<close>, is refused while data is missing; data beyond the
  announced size is cut off with an error.
\<close>

record tar_writer =
  tw_entries :: "tar_entry list"
  tw_left :: nat

fun decimal :: "nat \<Rightarrow> string" where
  "decimal n = (if n < 10 then [char_of (48 + n)] else decimal (n div 10) @ [char_of (48 + n mod 10)])"

declare decimal.simps [simp del]

definition tw_flush :: "tar_writer \<Rightarrow> string option" where
  "tw_flush w =
     (if tw_left w > 0 then Some (''archive/tar: missed writing '' @ decimal (tw_left w) @ '' bytes'') else None)"

text \<open>A directory's header, and a file's header followed by the data \<open>io.Copy\<close> gets through.\<close>

definition write_dir :: "string \<Rightarrow> tar_writer \<Rightarrow> string option \<times> tar_writer" where
  "write_dir name w =
     (case tw_flush w of
        Some e \<Rightarrow> (Some e, w)
      | None \<Rightarrow> (None, w\<lparr>tw_entries := tw_entries w @ [TarDir name]\<rparr>))"

text \<open>Opening a path and reading it to the end: the data and the error that ended it.\<close>

definition read_path :: "os_env \<Rightarrow> string + bytes \<Rightarrow> bytes \<times> string option" where
  "read_path env src =
     (case fault env SysOpen of
        Some e \<Rightarrow> ([], Some e)
      | None \<Rightarrow>
          (case src of
             Inl e \<Rightarrow> ([], Some e)
           | Inr data \<Rightarrow>
               (case fault env SysRead of
                  Some e \<Rightarrow> (take (written env) data, Some e)
                | None \<Rightarrow> (data, None))))"

definition write_file :: "os_env \<Rightarrow> string \<Rightarrow> FileMode \<Rightarrow> nat \<Rightarrow> string + bytes \<Rightarrow> tar_writer
    \<Rightarrow> string option \<times> tar_writer" where
  "write_file env name m sz src w =
     (case tw_flush w of
        Some e \<Rightarrow> (Some e, w)
      | None \<Rightarrow>
          (let (data, err) = read_path env src
           in (if length data > sz then Some ''archive/tar: write too long'' else err,
               \<lparr>tw_entries = tw_entries w @ [TarFile name m sz (take sz data)],
                tw_left = sz - length data\<rparr>)))"

text \<open>
  \<open>filepath.Walk\<close> calls the function on a path after reading the names of a directory and before
  visiting them, in the order \<open>readDirNames\<close> gives, with what \<open>Lstat\<close> says of it, and stops at the
  first error. Everything that is not a directory is sent as a regular file with the size and mode
  of the path itself and the data of what opening it leads to.
\<close>

fun walk_node :: "os_env \<Rightarrow> string list \<Rightarrow> node \<Rightarrow> tar_writer \<Rightarrow> string option \<times> tar_writer"
and walk_entries :: "os_env \<Rightarrow> string list \<Rightarrow> dir \<Rightarrow> tar_writer \<Rightarrow> string option \<times> tar_writer" where
  "walk_node env rel (Dir m es) w =
     (case fault env SysReadDir of
        Some e \<Rightarrow> (Some e, w)
      | None \<Rightarrow>
          (case if rel = [] then (None, w) else write_dir (join_slash rel) w of
             (Some e, w1) \<Rightarrow> (Some e, w1)
           | (None, w1) \<Rightarrow> walk_entries env rel es w1))"
| "walk_node env rel (File m data) w = write_file env (join_slash rel) m (length data) (Inr data) w"
| "walk_node env rel (Special m sz src) w = write_file env (join_slash rel) m sz src w"
| "walk_entries env rel [] w = (None, w)"
| "walk_entries env rel ((n, x) # es) w =
     (case fault env SysStat of
        Some e \<Rightarrow> (Some e, w)
      | None \<Rightarrow>
          (case walk_node env (rel @ [n]) x w of
             (Some e, w1) \<Rightarrow> (Some e, w1)
           | (None, w1) \<Rightarrow> walk_entries env rel es w1))"

definition Send :: "os_env \<Rightarrow> dir \<Rightarrow> string option \<times> tar_writer" where
  "Send env d =
     (let w = \<lparr>tw_entries = [], tw_left = 0\<rparr> in
      case fault env SysStat of
        Some e \<Rightarrow> (Some e, w)
      | None \<Rightarrow>
          (case walk_node env [] (Dir 0 d) w of
             (Some e, w1) \<Rightarrow> (Some e, w1)
           | (None, w1) \<Rightarrow> (tw_flush w1, w1)))"

section \<open>Receiving\<close>

text \<open>
  Apply an operation to the entry a path leads to; the directories before it must exist. A
  directory that is a symbolic link leads out of the tree, which then stays as it is.
\<close>

fun update_at :: "string list \<Rightarrow> (node option \<Rightarrow> string + node) \<Rightarrow> dir \<Rightarrow> string + dir" where
  "update_at [] f d = Inl ''is a directory''"
| "update_at [n] f d =
     (case f (map_of d n) of Inl e \<Rightarrow> Inl e | Inr x \<Rightarrow> Inr (AList.update n x d))"
| "update_at (n # p) f d =
     (case map_of d n of
        Some (Dir m es) \<Rightarrow>
          (case update_at p f es of Inl e \<Rightarrow> Inl e | Inr es' \<Rightarrow> Inr (AList.update n (Dir m es') d))
      | Some (File m b) \<Rightarrow> Inl ''not a directory''
      | Some (Special m k src) \<Rightarrow> if is_link m then Inr d else Inl ''not a directory''
      | None \<Rightarrow> Inl ''no such file or directory'')"

text \<open>\<open>os.Mkdir\<close> with mode 0777, less the umask; the stream does not carry the mode of a directory.\<close>

definition mkdir_entry :: "os_env \<Rightarrow> node option \<Rightarrow> string + node" where
  "mkdir_entry env x =
     (case x of None \<Rightarrow> Inr (Dir (creat_mode env 511) []) | Some _ \<Rightarrow> Inl ''file exists'')"

text \<open>
  Opening with \<open>O_CREATE|O_WRONLY\<close> and writing from the start: without \<open>O_TRUNC\<close> the rest of
  longer old data stays.
\<close>

definition write_entry :: "os_env \<Rightarrow> FileMode \<Rightarrow> bytes \<Rightarrow> node option \<Rightarrow> string + node" where
  "write_entry env m data x =
     (case x of
        None \<Rightarrow> Inr (File (creat_mode env m) data)
      | Some (File m0 old) \<Rightarrow> Inr (File m0 (data @ drop (length data) old))
      | Some (Special m0 k (Inr old)) \<Rightarrow> Inr (Special m0 k (Inr (data @ drop (length data) old)))
      | Some (Special m0 k (Inl e)) \<Rightarrow> Inl e
      | Some (Dir m0 es) \<Rightarrow> Inl ''is a directory'')"

text \<open>Copying fails when a write fails, or when the stream ends before the announced size.\<close>

definition receive_entry :: "os_env \<Rightarrow> string list \<Rightarrow> tar_entry \<Rightarrow> dir \<Rightarrow> string option \<times> dir" where
  "receive_entry env base h fs =
     (case h of
        TarDir name \<Rightarrow>
          (case fault env SysMkdir of
             Some e \<Rightarrow> (Some e, fs)
           | None \<Rightarrow>
               (case update_at (Join base name) (mkdir_entry env) fs of
                  Inl e \<Rightarrow> (Some e, fs)
                | Inr fs1 \<Rightarrow> (None, fs1)))
      | TarFile name m sz data \<Rightarrow>
          (case fault env SysOpen of
             Some e \<Rightarrow> (Some e, fs)
           | None \<Rightarrow>
               (let (copied, copyErr) =
                      (case if data = [] then None else fault env SysWrite of
                         Some e \<Rightarrow> (take (written env) data, Some e)
                       | None \<Rightarrow> (data, if length data < sz then Some ''unexpected EOF'' else None))
                in case update_at (Join base name) (write_entry env m copied) fs of
                     Inl e \<Rightarrow> (Some e, fs)
                   | Inr fs1 \<Rightarrow> (copyErr, fs1))))"

text \<open>\<open>ending\<close> is the error of \<open>Next\<close> after the last entry, \<open>None\<close> for \<open>io.EOF\<close>.\<close>

fun Receive :: "os_env \<Rightarrow> string list \<Rightarrow> tar_entry list \<Rightarrow> string option \<Rightarrow> dir \<Rightarrow> string option \<times> dir" where
  "Receive env base [] ending fs = (ending, fs)"
| "Receive env base (h # hs) ending fs =
     (case receive_entry env base h fs of
        (Some e, fs1) \<Rightarrow> (Some e, fs1)
      | (None, fs1) \<Rightarrow> Receive env base hs ending fs1)"

section \<open>Lemmas\<close>

definition good_name :: "string \<Rightarrow> bool" where
  "good_name n \<longleftrightarrow> n \<notin> {'''', ''.'', ''..''} \<and> slash \<notin> set n"

text \<open>What a directory of a real file system satisfies.\<close>

fun wf_node :: "node \<Rightarrow> bool" and wf_dir :: "dir \<Rightarrow> bool" where
  "wf_node (File m data) \<longleftrightarrow> True"
| "wf_node (Dir m es) \<longleftrightarrow> wf_dir es"
| "wf_node (Special m k src) \<longleftrightarrow> True"
| "wf_dir [] \<longleftrightarrow> True"
| "wf_dir ((n, x) # es) \<longleftrightarrow> good_name n \<and> n \<notin> fst ` set es \<and> wf_node x \<and> wf_dir es"

text \<open>Only directories and regular files.\<close>

fun regular_node :: "node \<Rightarrow> bool" and regular_dir :: "dir \<Rightarrow> bool" where
  "regular_node (File m data) \<longleftrightarrow> True"
| "regular_node (Dir m es) \<longleftrightarrow> regular_dir es"
| "regular_node (Special m k src) \<longleftrightarrow> False"
| "regular_dir [] \<longleftrightarrow> True"
| "regular_dir ((n, x) # es) \<longleftrightarrow> regular_node x \<and> regular_dir es"

text \<open>
  What arrives of a tree: a file keeps the bits of its mode that a new file can have under the
  umask of the receiver, a directory gets those of 0777, whatever it had.
\<close>

fun received_node :: "os_env \<Rightarrow> node \<Rightarrow> node" and received_dir :: "os_env \<Rightarrow> dir \<Rightarrow> dir" where
  "received_node env (File m data) = File (creat_mode env m) data"
| "received_node env (Dir m es) = Dir (creat_mode env 511) (received_dir env es)"
| "received_node env (Special m k src) = Special m k src"
| "received_dir env [] = []"
| "received_dir env ((n, x) # es) = (n, received_node env x) # received_dir env es"

lemma received_names [simp]: "fst ` set (received_dir env es) = fst ` set es"
proof (induction es)
  case (Cons e es)
  then show ?case by (cases e) simp
qed simp

lemma split_slash_word: "slash \<notin> set w \<Longrightarrow> split_slash w = [w]"
  by (induction w) auto

lemma split_slash_append:
  "slash \<notin> set w \<Longrightarrow> split_slash (w @ slash # s) = w # split_slash s"
  by (induction w) auto

lemma split_join: "ps \<noteq> [] \<Longrightarrow> \<forall>w \<in> set ps. slash \<notin> set w \<Longrightarrow> split_slash (join_slash ps) = ps"
  by (induction ps rule: join_slash.induct) (simp_all add: split_slash_word split_slash_append)

lemma clean_good: "\<forall>w \<in> set ps. good_name w \<Longrightarrow> clean acc (ps @ qs) = clean (rev ps @ acc) qs"
  by (induction ps arbitrary: acc) (auto simp: good_name_def)

lemma Join_good:
  assumes "\<forall>w \<in> set (base @ rel). good_name w" "rel \<noteq> []"
  shows "Join base (join_slash rel) = base @ rel"
proof -
  from assms have "split_slash (join_slash rel) = rel"
    by (intro split_join) (auto simp: good_name_def)
  then show ?thesis
    using clean_good [of "base @ rel" "[]" "[]"] assms(1) by (simp add: Join_def)
qed

fun lookup_dir :: "string list \<Rightarrow> dir \<Rightarrow> dir option" where
  "lookup_dir [] fs = Some fs"
| "lookup_dir (n # p) fs = (case map_of fs n of Some (Dir m es) \<Rightarrow> lookup_dir p es | _ \<Rightarrow> None)"

fun put_dir :: "string list \<Rightarrow> dir \<Rightarrow> dir \<Rightarrow> dir" where
  "put_dir [] d fs = d"
| "put_dir (n # p) d fs =
     (case map_of fs n of Some (Dir m es) \<Rightarrow> AList.update n (Dir m (put_dir p d es)) fs | _ \<Rightarrow> fs)"

lemma update_same: "map_of d n = Some x \<Longrightarrow> AList.update n x d = d"
  by (induction d) auto

lemma update_new: "n \<notin> fst ` set d \<Longrightarrow> AList.update n x d = d @ [(n, x)]"
  by (induction d) auto

lemma update_append_notin:
  "n \<notin> fst ` set d \<Longrightarrow> AList.update n y (d @ [(n, x)]) = d @ [(n, y)]"
  by (induction d) auto

lemma lookup_put [simp]: "lookup_dir p fs = Some d0 \<Longrightarrow> lookup_dir p (put_dir p d fs) = Some d"
  by (induction p fs arbitrary: d0 rule: lookup_dir.induct) (auto split: option.splits node.splits)

lemma put_put [simp]: "put_dir p d (put_dir p d' fs) = put_dir p d fs"
  by (induction p fs rule: lookup_dir.induct) (auto split: option.split node.split)

lemma put_same: "lookup_dir p fs = Some d \<Longrightarrow> put_dir p d fs = fs"
  by (induction p fs arbitrary: d rule: lookup_dir.induct)
     (auto simp: update_same split: option.splits node.splits)

lemma lookup_snoc:
  "lookup_dir p fs = Some d \<Longrightarrow> lookup_dir (p @ [n]) fs =
     (case map_of d n of Some (Dir m es) \<Rightarrow> Some es | _ \<Rightarrow> None)"
  by (induction p fs arbitrary: d rule: lookup_dir.induct)
     (auto split: option.splits node.splits)

lemma put_snoc:
  "lookup_dir p fs = Some d \<Longrightarrow> map_of d n = Some (Dir m es) \<Longrightarrow>
     put_dir (p @ [n]) es' fs = put_dir p (AList.update n (Dir m es') d) fs"
  by (induction p fs arbitrary: d rule: lookup_dir.induct)
     (auto split: option.splits node.splits)

lemma update_at_snoc:
  "lookup_dir p fs = Some d \<Longrightarrow> update_at (p @ [n]) f fs =
     (case f (map_of d n) of Inl e \<Rightarrow> Inl e | Inr x \<Rightarrow> Inr (put_dir p (AList.update n x d) fs))"
proof (induction p fs arbitrary: d rule: lookup_dir.induct)
  case (2 m p fs)
  then obtain dm es where "map_of fs m = Some (Dir dm es)" "lookup_dir p es = Some d"
    by (auto split: option.splits node.splits)
  with 2 show ?case
    by (cases p) (auto split: sum.splits)
qed (auto split: sum.split)

text \<open>Without failing calls, sending gives the entries of the tree in order.\<close>

fun node_entries :: "string list \<Rightarrow> node \<Rightarrow> tar_entry list"
and dir_entries_of :: "string list \<Rightarrow> dir \<Rightarrow> tar_entry list" where
  "node_entries rel (Dir m es) = (if rel = [] then [] else [TarDir (join_slash rel)]) @ dir_entries_of rel es"
| "node_entries rel (File m data) = [TarFile (join_slash rel) m (length data) data]"
| "node_entries rel (Special m k src) = []"
| "dir_entries_of rel [] = []"
| "dir_entries_of rel ((n, x) # es) = node_entries (rel @ [n]) x @ dir_entries_of rel es"

lemma walk_fault_free:
  assumes "fault_free env"
  shows "regular_node x \<Longrightarrow> tw_left w = 0 \<Longrightarrow>
      walk_node env rel x w = (None, w\<lparr>tw_entries := tw_entries w @ node_entries rel x\<rparr>)"
    and "regular_dir es \<Longrightarrow> tw_left w = 0 \<Longrightarrow>
      walk_entries env rel es w = (None, w\<lparr>tw_entries := tw_entries w @ dir_entries_of rel es\<rparr>)"
  using assms
  by (induction rel x and rel es arbitrary: w and w rule: node_entries_dir_entries_of.induct)
     (auto simp: write_dir_def write_file_def tw_flush_def read_path_def)

lemma Send_regular:
  assumes "fault_free env" "regular_dir d"
  shows "Send env d = (None, \<lparr>tw_entries = dir_entries_of [] d, tw_left = 0\<rparr>)"
  using walk_fault_free [OF assms(1)] assms by (simp add: Send_def tw_flush_def)

lemma Receive_append:
  "Receive env base (hs @ hs') ending fs =
     (case Receive env base hs None fs of
        (Some e, fs1) \<Rightarrow> (Some e, fs1) | (None, fs1) \<Rightarrow> Receive env base hs' ending fs1)"
  by (induction hs arbitrary: fs) (auto split: prod.split option.split)

text \<open>Receiving the entries of a node at a place where the name is free adds the node there.\<close>

lemma Receive_entries:
  assumes env: "fault_free env"
  shows "\<forall>w \<in> set (base @ rel). good_name w \<Longrightarrow> wf_node x \<Longrightarrow> regular_node x \<Longrightarrow> rel = rel' @ [n] \<Longrightarrow>
     lookup_dir (base @ rel') fs = Some d \<Longrightarrow> n \<notin> fst ` set d \<Longrightarrow>
     Receive env base (node_entries rel x) None fs =
       (None, put_dir (base @ rel') (d @ [(n, received_node env x)]) fs)"
  and "\<forall>w \<in> set (base @ rel). good_name w \<Longrightarrow> wf_dir es \<Longrightarrow> regular_dir es \<Longrightarrow>
     lookup_dir (base @ rel) fs = Some d \<Longrightarrow> fst ` set es \<inter> fst ` set d = {} \<Longrightarrow>
     Receive env base (dir_entries_of rel es) None fs =
       (None, put_dir (base @ rel) (d @ received_dir env es) fs)"
proof (induction rel x and rel es arbitrary: fs d rel' n and fs d rule: node_entries_dir_entries_of.induct)
  case (1 rel m es)
  let ?dir = "Dir (creat_mode env 511)"
  let ?fs1 = "put_dir (base @ rel') (d @ [(n, ?dir [])]) fs"
  have path: "Join base (join_slash rel) = (base @ rel') @ [n]"
    using Join_good [of base rel] 1(2,5) by simp
  have free: "map_of d n = None"
    using 1(7) by (simp add: map_of_eq_None_iff)
  have "receive_entry env base (TarDir (join_slash rel)) fs = (None, ?fs1)"
    using update_at_snoc [OF 1(6)] free 1(7) env
    by (simp add: receive_entry_def path mkdir_entry_def update_new)
  moreover have at: "lookup_dir (base @ rel') ?fs1 = Some (d @ [(n, ?dir [])])"
    using 1(6) by simp
  then have "lookup_dir (base @ rel) ?fs1 = Some []"
    using lookup_snoc [OF at, of n] free 1(5) by (simp add: map_add_def)
  moreover have "put_dir (base @ rel) (received_dir env es) ?fs1 =
      put_dir (base @ rel') (d @ [(n, ?dir (received_dir env es))]) fs"
    using put_snoc [OF at, of n "creat_mode env 511" "[]" "received_dir env es"] free 1(5,7)
    by (simp add: update_append_notin map_add_def)
  ultimately show ?case
    using 1(1) [of ?fs1 "[]"] 1(2-5) by simp
next
  case (2 rel m data)
  have path: "Join base (join_slash rel) = (base @ rel') @ [n]"
    using Join_good [of base rel] 2(1,4) by simp
  have "map_of d n = None"
    using 2(6) by (simp add: map_of_eq_None_iff)
  then show ?case
    using update_at_snoc [OF 2(5)] 2(6) env
    by (simp add: receive_entry_def path write_entry_def update_new)
next
  case (3 rel m k src)
  then show ?case by simp
next
  case (4 rel)
  then show ?case by (simp add: put_same)
next
  case (5 rel n x es)
  then have *: "good_name n" "n \<notin> fst ` set es" "wf_node x" "wf_dir es" "n \<notin> fst ` set d"
      "regular_node x" "regular_dir es"
    by auto
  let ?x = "received_node env x" and ?es = "received_dir env es"
  have "Receive env base (node_entries (rel @ [n]) x) None fs =
      (None, put_dir (base @ rel) (d @ [(n, ?x)]) fs)"
    using 5(3,6) * by (intro 5(1)) auto
  moreover have "Receive env base (dir_entries_of rel es) None (put_dir (base @ rel) (d @ [(n, ?x)]) fs) =
      (None, put_dir (base @ rel) ((d @ [(n, ?x)]) @ ?es) (put_dir (base @ rel) (d @ [(n, ?x)]) fs))"
    using 5(3,6,7) * by (intro 5(2)) auto
  ultimately show ?case
    by (simp add: Receive_append)
qed

section \<open>Properties\<close>

text \<open>
  C21. A tree of directories and regular files sent from one machine and received into an empty
  directory of another arrives with the same names, nesting and data, and nothing outside that
  directory changes. A file keeps the bits of its mode that the umask of the receiver leaves, and
  a directory has the bits that umask leaves of 0777, whatever it had on the sender.
\<close>

theorem tar_roundtrip:
  assumes "wf_dir d" "regular_dir d" "\<forall>w \<in> set base. good_name w" "lookup_dir base fs = Some []"
    and "fault_free env" "fault_free env'"
  shows "\<exists>hs. Send env d = (None, \<lparr>tw_entries = hs, tw_left = 0\<rparr>) \<and>
    Receive env' base hs None fs = (None, put_dir base (received_dir env' d) fs) \<and>
    lookup_dir base (put_dir base (received_dir env' d) fs) = Some (received_dir env' d)"
  using Receive_entries(2) [OF assms(6), of base "[]" d fs "[]"] assms
  by (simp add: Send_regular)

text \<open>At the sender 0666, 0755 and a directory 0700; with umask 022 they arrive as 0644, 0755 and 0755.\<close>

theorem tar_roundtrip_witness:
  "\<exists>hs. Send no_faults [(''a'', File 438 [1, 2]), (''sub'', Dir 448 [(''b'', File 493 [])])] =
      (None, \<lparr>tw_entries = hs, tw_left = 0\<rparr>) \<and>
    Receive no_faults [''tmp''] hs None [(''tmp'', Dir 448 []), (''x'', File 0 [])] =
      (None, [(''tmp'', Dir 448 [(''a'', File 420 [1, 2]), (''sub'', Dir 493 [(''b'', File 493 [])])]),
              (''x'', File 0 [])])"
  using tar_roundtrip [of "[(''a'', File 438 [1, 2]), (''sub'', Dir 448 [(''b'', File 493 [])])]" "[''tmp'']"
      "[(''tmp'', Dir 448 []), (''x'', File 0 [])]" no_faults no_faults]
  by (simp add: good_name_def slash_def)

text \<open>
  A symbolic link is announced with the length of its text and sent with the data of the file it
  leads to: unless the two have the same length, sending fails.
\<close>

theorem link_breaks_sending:
  assumes "fault_free env" "length data \<noteq> sz"
  shows "\<exists>e w. Send env [(n, Special m sz (Inr data))] = (Some e, w) \<and>
    tw_entries w = [TarFile n m sz (take sz data)]"
  using assms by (auto simp: Send_def write_file_def read_path_def tw_flush_def)

theorem link_breaks_sending_witness:
  "\<exists>e w. Send no_faults [(''l'', Special 0x8000000 6 (Inr [1, 2]))] = (Some e, w) \<and>
    tw_entries w = [TarFile ''l'' 0x8000000 6 [1, 2]]"
  using link_breaks_sending [of no_faults "[1, 2]" 6 "''l''" "0x8000000"] by simp

text \<open>
  \<open>Receive\<close> follows \<open>..\<close> in the names of a stream: an entry of that form is written next to
  the directory it unpacks into, whatever is there already.
\<close>

theorem Receive_path_traversal:
  assumes "good_name n" "good_name m" "n \<noteq> m" "lookup_dir [n] fs = Some d" "map_of fs m = Some (File md old)"
  shows "Receive no_faults [n] [TarFile (join_slash [''..'', m]) 420 (length data) data] None fs =
    (None, AList.update m (File md (data @ drop (length data) old)) fs)"
proof -
  have "split_slash (join_slash [''..'', m]) = [''..'', m]"
    using assms(2) by (intro split_join) (auto simp: good_name_def slash_def)
  then have "Join [n] (join_slash [''..'', m]) = [m]"
    using assms(1,2) by (simp add: Join_def good_name_def del: join_slash.simps)
  then show ?thesis
    using assms(5) by (simp add: receive_entry_def write_entry_def del: join_slash.simps)
qed

theorem Receive_path_traversal_witness:
  "Receive no_faults [''tmp''] [TarFile (join_slash [''..'', ''x'']) 420 1 [9]] None
     [(''tmp'', Dir 493 []), (''x'', File 0 [1, 2])] = (None, [(''tmp'', Dir 493 []), (''x'', File 0 [9, 2])])"
  using Receive_path_traversal [of "''tmp''" "''x''" "[(''tmp'', Dir 493 []), (''x'', File 0 [1, 2])]" "[]" 0 "[1, 2]" "[9]"]
  by (simp add: good_name_def slash_def)

end
