(* ===== verification/Http.thy ===== *)
theory Http
  imports Prelude
begin

text \<open>
  What the handlers and clients use of \<open>net/http\<close>: requests, response writers, responses and
  bodies read in chunks. The network between a client and a handler is an argument of the
  clients; \<open>perfect\<close> is a network that loses nothing.
\<close>

definition text_bytes :: "string \<Rightarrow> bytes" where
  "text_bytes s = map of_char s"

lemma text_bytes_simps [simp]:
  "text_bytes s = [] \<longleftrightarrow> s = []" "length (text_bytes s) = length s"
  by (simp_all add: text_bytes_def)

text \<open>A body is the chunks its reader returns and the error that ends it, or its end.\<close>

type_synonym body = "bytes list \<times> string option"

definition body_bytes :: "body \<Rightarrow> bytes" where
  "body_bytes b = concat (fst b)"

record http_request =
  rq_method :: string
  rq_path :: string
  rq_query :: "string \<rightharpoonup> string"
  rq_body :: body

record http_response =
  StatusCode :: nat
  rs_body :: body

text \<open>\<open>URL.Query().Get\<close> is the empty string for a parameter that is missing.\<close>

definition query_get :: "http_request \<Rightarrow> string \<Rightarrow> string" where
  "query_get r key = (case rq_query r key of None \<Rightarrow> '''' | Some v \<Rightarrow> v)"

section \<open>Response writers\<close>

text \<open>The status is fixed by the first \<open>WriteHeader\<close> or \<open>Write\<close>; a later one has no effect.\<close>

record ResponseWriter =
  rw_status :: "nat option"
  rw_body :: bytes

definition new_writer :: ResponseWriter where
  "new_writer = \<lparr>rw_status = None, rw_body = []\<rparr>"

definition WriteHeader :: "nat \<Rightarrow> ResponseWriter \<Rightarrow> ResponseWriter" where
  "WriteHeader code w = (if rw_status w = None then w\<lparr>rw_status := Some code\<rparr> else w)"

definition rw_Write :: "bytes \<Rightarrow> ResponseWriter \<Rightarrow> ResponseWriter" where
  "rw_Write p w = (let w1 = WriteHeader 200 w in w1\<lparr>rw_body := rw_body w1 @ p\<rparr>)"

text \<open>\<open>io.Copy\<close> to a response calls \<open>Write\<close> only when there is something to write.\<close>

definition rw_copy :: "bytes \<Rightarrow> ResponseWriter \<Rightarrow> ResponseWriter" where
  "rw_copy p w = (if p = [] then w else rw_Write p w)"

definition http_Error :: "string \<Rightarrow> nat \<Rightarrow> ResponseWriter \<Rightarrow> ResponseWriter" where
  "http_Error msg code w = rw_Write (text_bytes (msg @ [CHR 0x0A])) (WriteHeader code w)"

definition final_status :: "ResponseWriter \<Rightarrow> nat" where
  "final_status w = (case rw_status w of None \<Rightarrow> 200 | Some s \<Rightarrow> s)"

text \<open>
  What the client receives: the handler returned, or panicked, and then the server closes the
  connection.
\<close>

datatype 's served = Served ResponseWriter 's | Dropped 's

text \<open>
  A round trip: an error of the transport, or the response; the server's state changes. It
  blocks when the handler does.
\<close>

type_synonym 's handler = "http_request \<Rightarrow> 's \<Rightarrow> 's served go"
type_synonym 's transport = "http_request \<Rightarrow> 's \<Rightarrow> ((string + http_response) \<times> 's) go"

definition perfect :: "'s handler \<Rightarrow> 's transport" where
  "perfect handler r s =
     go_bind (handler r s) (\<lambda>out. Returns
       (case out of
          Served w s1 \<Rightarrow> (Inr \<lparr>StatusCode = final_status w, rs_body = ([rw_body w], None)\<rparr>, s1)
        | Dropped s1 \<Rightarrow> (Inl ''EOF'', s1)))"

lemma writer_simps [simp]:
  "rw_status (WriteHeader code w) = (if rw_status w = None then Some code else rw_status w)"
  "rw_body (WriteHeader code w) = rw_body w"
  "rw_body (rw_Write p w) = rw_body w @ p"
  "rw_status (rw_Write p w) = (if rw_status w = None then Some 200 else rw_status w)"
  "rw_status new_writer = None" "rw_body new_writer = []"
  by (simp_all add: WriteHeader_def rw_Write_def Let_def new_writer_def)

lemma rw_copy_simps [simp]:
  "rw_body (rw_copy p w) = rw_body w @ p"
  "rw_status (rw_copy p w) = (if p = [] \<or> rw_status w \<noteq> None then rw_status w else Some 200)"
  by (simp_all add: rw_copy_def)

lemma http_Error_status [simp]:
  "rw_status (http_Error msg code w) = (if rw_status w = None then Some code else rw_status w)"
  "rw_body (http_Error msg code w) = rw_body w @ text_bytes (msg @ [CHR 0x0A])"
  by (simp_all add: http_Error_def)

lemma final_status_simps [simp]:
  "rw_status w = None \<Longrightarrow> final_status w = 200" "rw_status w = Some n \<Longrightarrow> final_status w = n"
  by (simp_all add: final_status_def)

lemma final_status_copied [simp]: "final_status (rw_copy p new_writer) = 200"
  by (simp add: final_status_def)

end
