(* ===== verification/Artifact_Transfer.thy ===== *)
theory Artifact_Transfer
  imports Artifact_Cache Tar_Stream Http
begin

text \<open>
  Package \<open>artifact\<close>, \<open>handler.go\<close> and \<open>client.go\<close>: an artifact served as a tar stream, and the
  download of one into the local cache. The directory being received is its own root here: the
  names of a stream that \<open>Send\<close> wrote never climb out of it.
\<close>

section \<open>The handler\<close>

text \<open>
  A response: its status and, for a stream, the entries that arrive and the error with which the
  tar reader ends.
\<close>

record art_response =
  ar_status :: nat
  ar_entries :: "tar_entry list"
  ar_ending :: "string option"

definition art_error_response :: "nat \<Rightarrow> art_response" where
  "art_error_response code = \<lparr>ar_status = code, ar_entries = [], ar_ending = Some ''unexpected EOF''\<rparr>"

text \<open>
  A stream that broke off is followed by the text of \<open>http.Error\<close>: the status is 400 only when
  nothing has been sent. The tar reader takes the text for what the last header announced: for
  the data still missing, then for the padding to the next block of 512 bytes. A stream that ends
  within the padding ends without an error; more text is a header that is too short or invalid.
\<close>

definition tar_padding :: "nat \<Rightarrow> nat" where
  "tar_padding n = (512 - n mod 512) mod 512"

definition after_break :: "bytes \<Rightarrow> string option" where
  "after_break txt =
     (if txt = [] then None
      else if length txt < 512 then Some ''unexpected EOF'' else Some ''archive/tar: invalid tar header'')"

definition broken_stream :: "tar_writer \<Rightarrow> bytes \<Rightarrow> art_response" where
  "broken_stream w txt =
     (if tw_entries w = [] then art_error_response 400
      else case last (tw_entries w) of
        TarDir name \<Rightarrow> \<lparr>ar_status = 200, ar_entries = tw_entries w, ar_ending = after_break txt\<rparr>
      | TarFile name m n data \<Rightarrow>
          \<lparr>ar_status = 200,
           ar_entries = butlast (tw_entries w) @ [TarFile name m n (data @ take (tw_left w) txt)],
           ar_ending = after_break (drop (tw_left w + tar_padding n) txt)\<rparr>)"

definition send_error :: "string \<Rightarrow> bytes" where
  "send_error e = text_bytes (''failed to send artifact: '' @ e @ [CHR 0x0A])"

definition artifact_route :: "os_env \<Rightarrow> string \<Rightarrow> Cache \<Rightarrow> art_response \<times> Cache" where
  "artifact_route env strID c =
     (if strID = '''' then (art_error_response 400, c)
      else case ID_UnmarshalText strID of
        Inl _ \<Rightarrow> (art_error_response 400, c)
      | Inr artifactID \<Rightarrow>
          (case Cache_Get env artifactID c of
             (Some e, c1) \<Rightarrow> (art_error_response (if e = Art_ErrNotFound then 404 else 500), c1)
           | (None, c1) \<Rightarrow>
               (case Send env (case cacheDir c1 artifactID of None \<Rightarrow> [] | Some d \<Rightarrow> d) of
                  (None, w) \<Rightarrow>
                    (\<lparr>ar_status = 200, ar_entries = tw_entries w, ar_ending = None\<rparr>, readUnlock artifactID c1)
                | (Some e, w) \<Rightarrow> (broken_stream w (send_error e), readUnlock artifactID c1))))"

section \<open>The client\<close>

datatype art_client_error =
    ArtRequestFailed string
  | ArtSendFailed string
  | ArtUnexpectedStatus nat
  | ArtEntryFailed art_error
  | ArtReceiveFailed string "art_error option"   \<comment> \<open>the error and that of \<open>abort\<close>\<close>
  | ArtCommitFailed art_error

type_synonym 's art_transport = "string \<Rightarrow> 's \<Rightarrow> (string + art_response) \<times> 's"

definition art_Download :: "os_env \<Rightarrow> string option \<Rightarrow> 's art_transport \<Rightarrow> Cache \<Rightarrow> ID \<Rightarrow> 's
    \<Rightarrow> art_client_error option \<times> Cache \<times> 's" where
  "art_Download env bad_url T c artifactID s =
     (case bad_url of
        Some e \<Rightarrow> (Some (ArtRequestFailed e), c, s)
      | None \<Rightarrow>
          (case T (ID_String artifactID) s of
             (Inl e, s1) \<Rightarrow> (Some (ArtSendFailed e), c, s1)
           | (Inr resp, s1) \<Rightarrow>
               if ar_status resp \<noteq> 200 then (Some (ArtUnexpectedStatus (ar_status resp)), c, s1)
               else
                 (case Cache_Create env artifactID c of
                    (Some e, c1) \<Rightarrow> (Some (ArtEntryFailed e), c1, s1)
                  | (None, c1) \<Rightarrow>
                      (case Receive env [] (ar_entries resp) (ar_ending resp)
                              (case tmpDir c1 artifactID of None \<Rightarrow> [] | Some d \<Rightarrow> d) of
                         (Some e, d) \<Rightarrow>
                           (let (abortErr, c2) = Cache_abort env artifactID (write_files artifactID d c1)
                            in (Some (ArtReceiveFailed e abortErr), c2, s1))
                       | (None, d) \<Rightarrow>
                           (case Cache_commit env artifactID (write_files artifactID d c1) of
                              (Some e, c2) \<Rightarrow> (Some (ArtCommitFailed e), c2, s1)
                            | (None, c2) \<Rightarrow> (None, c2, s1))))))"

text \<open>A worker that serves its cache over a network that loses nothing.\<close>

definition served_by :: "os_env \<Rightarrow> Cache art_transport" where
  "served_by env strID c = (let (resp, c1) = artifact_route env strID c in (Inr resp, c1))"

section \<open>Lemmas\<close>

lemma ID_String_not_empty [simp]: "ID_String i \<noteq> []"
proof
  assume "ID_String i = []"
  then have "length (ID_String i) = 0" by simp
  then show False by (simp add: ID_String_def id_size_def)
qed

text \<open>The cache makes no files of its own: the umask is nothing to it.\<close>

lemma fault_free_cache:
  assumes "fault_free env"
  shows "Cache_Get env = Cache_Get no_faults" "Cache_Create env = Cache_Create no_faults"
    "Cache_commit env = Cache_commit no_faults"
  using assms by (auto simp: fun_eq_iff cache_ops cache_parts fault_free_def)

lemma artifact_route_sends:
  assumes "entry_free c i" "cacheDir c i = Some d" "fault_free env"
  shows "artifact_route env (ID_String i) c =
    ((case Send env d of
        (None, w) \<Rightarrow> \<lparr>ar_status = 200, ar_entries = tw_entries w, ar_ending = None\<rparr>
      | (Some e, w) \<Rightarrow> broken_stream w (send_error e)), c)"
proof -
  from ac.get_ok [OF assms(1,2)] obtain c1 where "Cache_Get no_faults i c = (None, c1)"
    "cacheDir c1 = cacheDir c" "readUnlock i c1 = c" by blast
  then show ?thesis
    using assms(2) fault_free_cache [OF assms(3)]
    by (simp add: artifact_route_def split: prod.split option.split)
qed

text \<open>A download whose stream is received without an error.\<close>

lemma art_Download_ok:
  assumes "entry_free dst i" "cacheDir dst i = None" "fault_free env"
    and "T (ID_String i) s = (Inr resp, s1)" "ar_status resp = 200"
    and "Receive env [] (ar_entries resp) (ar_ending resp) (case tmpDir dst i of None \<Rightarrow> [] | Some d \<Rightarrow> d) = (None, d)"
  shows "\<exists>dst'. art_Download env None T dst i s = (None, dst', s1) \<and>
    cacheDir dst' = (cacheDir dst)(i \<mapsto> d) \<and> entry_free dst' i"
proof -
  from ac.publish [OF assms(1,2), of d] obtain c1 c2 where c: "Cache_Create no_faults i dst = (None, c1)"
    "Cache_commit no_faults i (write_files i d c1) = (None, c2)" "cacheDir c2 = (cacheDir dst)(i \<mapsto> d)"
    "entry_free c2 i" by metis
  have "(case tmpDir c1 i of None \<Rightarrow> [] | Some d \<Rightarrow> d) = (case tmpDir dst i of None \<Rightarrow> [] | Some d \<Rightarrow> d)"
    using c(1) by (auto simp: cache_ops cache_parts Let_def split: if_splits option.split)
  then show ?thesis
    using assms(4-6) c fault_free_cache [OF assms(3)] by (simp add: art_Download_def)
qed

section \<open>Properties\<close>

text \<open>
  C20. Downloading an artifact of directories and regular files from another worker puts the same
  tree into the local cache, with the modes the umask of the downloading worker leaves, and leaves
  the other worker's cache as it was.
\<close>

theorem artifact_transfer:
  assumes "entry_free src i" "cacheDir src i = Some d" "wf_dir d" "regular_dir d"
    and "entry_free dst i" "cacheDir dst i = None" "tmpDir dst i = None"
    and "fault_free env" "fault_free env'"
  shows "\<exists>dst'. art_Download env' None (served_by env) dst i src = (None, dst', src) \<and>
    cacheDir dst' = (cacheDir dst)(i \<mapsto> received_dir env' d) \<and> entry_free dst' i"
proof -
  have "Receive env' [] (dir_entries_of [] d) None [] = (None, received_dir env' d)"
    using Receive_entries(2) [OF assms(9), of "[]" "[]" d "[]" "[]"] assms(3,4) by simp
  with assms show ?thesis
    by (intro art_Download_ok) (auto simp: served_by_def artifact_route_sends Send_regular)
qed

definition tree_a :: dir where
  "tree_a = [(''a'', File 438 [1]), (''sub'', Dir 448 [(''b'', File 493 [2, 3])])]"

definition cache_with :: "dir \<Rightarrow> Cache" where
  "cache_with d = (shared empty_sys)\<lparr>cacheDir := [idA \<mapsto> d]\<rparr>"

theorem artifact_transfer_witness:
  "\<exists>dst'. art_Download no_faults None (served_by no_faults) (shared empty_sys) idA (cache_with tree_a) =
      (None, dst', cache_with tree_a) \<and>
    cacheDir dst' idA = Some [(''a'', File 420 [1]), (''sub'', Dir 493 [(''b'', File 493 [2, 3])])]"
  using artifact_transfer [of "cache_with tree_a" idA tree_a "shared empty_sys" no_faults no_faults]
  by (auto simp: cache_with_def tree_a_def empty_sys_def entry_free_def good_name_def slash_def)



text \<open>
  What an earlier failed commit left under the temporary directory spoils the next download
  of the same artifact: when it left a longer version of a file, the download reports success
  and the cached file is the new data followed by the rest of the old.
\<close>

theorem stale_files_spoil_download:
  assumes "entry_free src i" "cacheDir src i = Some [(n, File m data)]" "good_name n"
    and "entry_free dst i" "cacheDir dst i = None" "tmpDir dst i = Some [(n, File m0 (old @ rest))]"
    and "length old = length data"
  shows "\<exists>dst'. art_Download no_faults None (served_by no_faults) dst i src = (None, dst', src) \<and>
    cacheDir dst' i = Some [(n, File m0 (data @ rest))]"
proof -
  let ?resp = "\<lparr>ar_status = 200, ar_entries = [TarFile n m (length data) data], ar_ending = None\<rparr>"
  have "Join [] (join_slash [n]) = [n]"
    using Join_good [of "[]" "[n]"] assms(3) by simp
  then have "Receive no_faults [] (ar_entries ?resp) (ar_ending ?resp) [(n, File m0 (old @ rest))] =
      (None, [(n, File m0 (data @ rest))])"
    using assms(7) by (simp add: receive_entry_def write_entry_def)
  moreover have "served_by no_faults (ID_String i) src = (Inr ?resp, src)"
    using artifact_route_sends [OF assms(1,2), of no_faults] by (simp add: served_by_def Send_regular)
  ultimately show ?thesis
    using art_Download_ok [of dst i no_faults "served_by no_faults" src ?resp src] assms(4-6) by auto
qed

theorem stale_files_spoil_download_witness:
  "\<exists>dst'. art_Download no_faults None (served_by no_faults)
      ((shared empty_sys)\<lparr>tmpDir := [idA \<mapsto> [(''a'', File 420 [7, 8, 9])]]\<rparr>) idA
      (cache_with [(''a'', File 420 [1])]) = (None, dst', cache_with [(''a'', File 420 [1])]) \<and>
    cacheDir dst' idA = Some [(''a'', File 420 [1, 8, 9])]"
  using stale_files_spoil_download [of "cache_with [(''a'', File 420 [1])]" idA "''a''" 420 "[1]"
      "(shared empty_sys)\<lparr>tmpDir := [idA \<mapsto> [(''a'', File 420 [7, 8, 9])]]\<rparr>" 420 "[7]" "[8, 9]"]
  by (simp add: cache_with_def empty_sys_def entry_free_def good_name_def slash_def)

text \<open>A failing transfer: the local cache gets no entry and the identifier is unlocked again.\<close>

lemma broken_transfer:
  assumes "entry_free dst i" "cacheDir dst i = None"
    and "T (ID_String i) s = (Inr resp, s1)" "ar_status resp = 200" "ar_ending resp = Some e"
  shows "\<exists>err dst'. art_Download no_faults None T dst i s = (Some err, dst', s1) \<and>
    cacheDir dst' = cacheDir dst \<and> entry_free dst' i"
proof -
  have err: "fst (Receive no_faults [] hs (Some e) d) \<noteq> None" for hs d
    by (induction hs arbitrary: d) (auto split: prod.split option.split)
  from ac.create_ok [OF assms(1,2)] obtain c1 where c1: "Cache_Create no_faults i dst = (None, c1)"
    "cacheDir c1 = cacheDir dst" "entry_writing c1 i" by blast
  obtain e' d where d: "Receive no_faults [] (ar_entries resp) (Some e)
      (case tmpDir c1 i of None \<Rightarrow> [] | Some d \<Rightarrow> d) = (Some e', d)"
    by (metis err eq_fst_iff not_Some_eq)
  from ac.put_ok [OF c1(3), of d] ac.abort_ok [of "write_files i d c1" i] obtain c2 where
    "Cache_abort no_faults i (write_files i d c1) = (None, c2)" "cacheDir c2 = cacheDir dst" "entry_free c2 i"
    using c1(2) by auto
  with assms(3-5) c1(1) d show ?thesis
    by (simp add: art_Download_def)
qed

end
