(* ===== verification/File_Cache.thy ===== *)
theory File_Cache
  imports Artifact_Cache Key_Lock Http
begin

text \<open>
  Package \<open>filecache\<close>: single files kept in an artifact cache, each as the file \<open>file\<close> of the
  directory of its identifier (\<open>filecache.go\<close>).
\<close>

section \<open>Errors\<close>

datatype fc_error =
    ErrNotFound | ErrExists | ErrWriteLocked | ErrReadLocked | FC_Err art_error

fun convertErr :: "art_error \<Rightarrow> fc_error" where
  "convertErr Art_ErrNotFound = ErrNotFound"
| "convertErr Art_ErrExists = ErrExists"
| "convertErr Art_ErrWriteLocked = ErrWriteLocked"
| "convertErr Art_ErrReadLocked = ErrReadLocked"
| "convertErr err = FC_Err err"

text \<open>
  \<open>convertErr\<close> of a nil error is nil: \<open>map_option convertErr\<close>. The texts of the errors follow;
  of an invalid name, which only \<open>Range\<close> reports and no handler sends, the details are left out.
\<close>

fun art_error_text :: "art_error \<Rightarrow> string" where
  "art_error_text Art_ErrNotFound = ''artifact not found''"
| "art_error_text Art_ErrExists = ''artifact exists''"
| "art_error_text Art_ErrWriteLocked = ''artifact is locked for write''"
| "art_error_text Art_ErrReadLocked = ''artifact is locked for read''"
| "art_error_text (Art_OsErr e) = e"
| "art_error_text (Art_InvalidName e) = ''invalid artifact name''"

fun fc_error_text :: "fc_error \<Rightarrow> string" where
  "fc_error_text ErrNotFound = ''file not found''"
| "fc_error_text ErrExists = ''file exists''"
| "fc_error_text ErrWriteLocked = ''file is locked for write''"
| "fc_error_text ErrReadLocked = ''file is locked for read''"
| "fc_error_text (FC_Err e) = art_error_text e"

section \<open>Operations\<close>

definition fileName :: string where
  "fileName = ''file''"

definition FC_New :: "string option \<Rightarrow> (string list \<Rightarrow> string option) \<Rightarrow> (ID \<rightharpoonup> dir) \<Rightarrow> art_error + Cache" where
  "FC_New remove_all mkdir rootDir = NewCache remove_all mkdir rootDir"

definition FC_Range :: "os_env \<Rightarrow> (ID \<Rightarrow> 'st \<Rightarrow> art_error option \<times> 'st) \<Rightarrow> (string \<times> string list) list
    \<Rightarrow> 'st \<Rightarrow> art_error option \<times> 'st" where
  "FC_Range env fileFn listing st = Cache_Range env fileFn listing st"

definition FC_Remove :: "os_env \<Rightarrow> ID \<Rightarrow> Cache \<Rightarrow> fc_error option \<times> Cache" where
  "FC_Remove env i c = (let (e, c1) = Cache_Remove env i c in (map_option convertErr e, c1))"

text \<open>
  An open writer: \<open>fw_id\<close> is the identifier its file and its \<open>commit\<close> closure belong to,
  \<open>fw_open\<close> whether its file is open.
\<close>

record fileWriter =
  fw_id :: ID
  fw_open :: bool

text \<open>A write that fails gets \<open>written env\<close> bytes out.\<close>

definition write_data :: "ID \<Rightarrow> bytes \<Rightarrow> Cache \<Rightarrow> Cache" where
  "write_data i p c = c\<lparr>tmpDir := (tmpDir c)(i := map_option (append_data fileName p) (tmpDir c i))\<rparr>"

definition fileWriter_Write :: "os_env \<Rightarrow> fileWriter \<Rightarrow> bytes \<Rightarrow> Cache \<Rightarrow> string option \<times> Cache" where
  "fileWriter_Write env f p c =
     (if \<not> fw_open f then (Some ''file already closed'', c)
      else case fault env SysWrite of
        Some e \<Rightarrow> (Some e, write_data (fw_id f) (take (written env) p) c)
      | None \<Rightarrow> (None, write_data (fw_id f) p c))"

definition file_Close :: "os_env \<Rightarrow> fileWriter \<Rightarrow> string option \<times> fileWriter" where
  "file_Close env f =
     (if fw_open f then (fault env SysClose, f\<lparr>fw_open := False\<rparr>)
      else (Some ''file already closed'', f))"

text \<open>\<open>fileWriter.Close\<close> commits whether or not the file closed without an error.\<close>

definition fileWriter_Close :: "os_env \<Rightarrow> fileWriter \<Rightarrow> Cache \<Rightarrow> fc_error option \<times> fileWriter \<times> Cache" where
  "fileWriter_Close env f c =
     (let (closeErr, f1) = file_Close env f;
          (commitErr, c1) = Cache_commit env (fw_id f) c
      in (case closeErr of
            Some e \<Rightarrow> (Some (FC_Err (Art_OsErr e)), f1, c1)
          | None \<Rightarrow> (map_option FC_Err commitErr, f1, c1)))"

text \<open>The \<open>abort\<close> closure of \<open>Write\<close>.\<close>

definition fileWriter_abort :: "os_env \<Rightarrow> fileWriter \<Rightarrow> Cache \<Rightarrow> fc_error option \<times> fileWriter \<times> Cache" where
  "fileWriter_abort env f c =
     (let (closeErr, f1) = file_Close env f;
          (abortErr, c1) = Cache_abort env (fw_id f) c
      in (case closeErr of
            Some e \<Rightarrow> (Some (FC_Err (Art_OsErr e)), f1, c1)
          | None \<Rightarrow> (map_option FC_Err abortErr, f1, c1)))"

text \<open>
  \<open>Write\<close>. When \<open>os.Create\<close> fails it calls the result \<open>abort\<close>, which is still nil then: the call
  panics.
\<close>

datatype fc_opened = Opened fileWriter | OpenErr fc_error | NilAbort

definition FC_Write :: "os_env \<Rightarrow> ID \<Rightarrow> Cache \<Rightarrow> fc_opened \<times> Cache" where
  "FC_Write env i c =
     (case Cache_Create env i c of
        (Some e, c1) \<Rightarrow> (OpenErr (convertErr e), c1)
      | (None, c1) \<Rightarrow>
          (case os_Create env fileName (case tmpDir c1 i of None \<Rightarrow> [] | Some d \<Rightarrow> d) of
             Inl e \<Rightarrow> (NilAbort, c1)
           | Inr d \<Rightarrow> (Opened \<lparr>fw_id = i, fw_open = True\<rparr>, write_files i d c1)))"

text \<open>\<open>Get\<close>: the path leads to the entry \<open>file\<close>; \<open>unlock\<close> is \<open>readUnlock\<close> of the identifier.\<close>

definition FC_Get :: "os_env \<Rightarrow> ID \<Rightarrow> Cache \<Rightarrow> fc_error option \<times> Cache" where
  "FC_Get env i c = (let (e, c1) = Cache_Get env i c in (map_option convertErr e, c1))"

text \<open>What is read at the path \<open>Get\<close> returns.\<close>

definition fc_content :: "Cache \<Rightarrow> ID \<Rightarrow> bytes option" where
  "fc_content c i = Option.bind (cacheDir c i) (file_content fileName)"

text \<open>\<open>io.Copy\<close> from a body into a writer stops at the first error of either side.\<close>

fun copy_chunks :: "os_env \<Rightarrow> fileWriter \<Rightarrow> bytes list \<Rightarrow> Cache \<Rightarrow> string option \<times> Cache" where
  "copy_chunks env f [] c = (None, c)"
| "copy_chunks env f (p # ps) c =
     (case fileWriter_Write env f p c of
        (Some e, c1) \<Rightarrow> (Some e, c1)
      | (None, c1) \<Rightarrow> copy_chunks env f ps c1)"

definition copy_body :: "os_env \<Rightarrow> fileWriter \<Rightarrow> body \<Rightarrow> Cache \<Rightarrow> string option \<times> Cache" where
  "copy_body env f b c =
     (case copy_chunks env f (fst b) c of
        (Some e, c1) \<Rightarrow> (Some e, c1)
      | (None, c1) \<Rightarrow> (snd b, c1))"

lemmas fc_ops = FC_Write_def FC_Remove_def FC_Get_def fileWriter_Write_def fileWriter_Close_def
  fileWriter_abort_def file_Close_def os_Create_def open_write_def

section \<open>Lemmas\<close>

text \<open>What is being written for an identifier.\<close>

definition fc_draft :: "Cache \<Rightarrow> ID \<Rightarrow> bytes option" where
  "fc_draft c i = Option.bind (tmpDir c i) (file_content fileName)"

lemma write_data_draft:
  "fc_draft c i = Some old \<Longrightarrow> fc_draft (write_data i p c) i = Some (old @ p)"
  by (auto simp: fc_draft_def write_data_def bind_eq_Some_conv intro: file_content_append)

lemma write_data_frame [simp]:
  "cacheDir (write_data i p c) = cacheDir c" "writeLocked (write_data i p c) = writeLocked c"
  "readLocked (write_data i p c) = readLocked c"
  "tmpDir (write_data i p c) j = None \<longleftrightarrow> tmpDir c j = None"
  by (auto simp: write_data_def)

lemma copy_chunks_frame:
  assumes "copy_chunks env f ps c = (e, c1)"
  shows "cacheDir c1 = cacheDir c" "writeLocked c1 = writeLocked c" "readLocked c1 = readLocked c"
    "tmpDir c1 j = None \<longleftrightarrow> tmpDir c j = None"
  using assms
  by (induction ps arbitrary: c)
     (auto simp: fileWriter_Write_def split: prod.splits option.splits if_splits)

lemma copy_chunks_draft:
  assumes "copy_chunks env f ps c = (None, c1)" "fc_draft c (fw_id f) = Some old"
  shows "fc_draft c1 (fw_id f) = Some (old @ concat ps)"
  using assms
proof (induction ps arbitrary: c old)
  case (Cons p ps)
  then obtain c2 where "c2 = write_data (fw_id f) p c" "copy_chunks env f ps c2 = (None, c1)"
    by (auto simp: fileWriter_Write_def split: prod.splits option.splits if_splits)
  with Cons.IH [of c2 "old @ p"] Cons.prems(2) show ?case
    by (simp add: write_data_draft)
qed simp

lemma copy_chunks_no_faults:
  "fw_open f \<Longrightarrow> \<exists>c1. copy_chunks no_faults f ps c = (None, c1)"
  by (induction ps arbitrary: c) (auto simp: fileWriter_Write_def)

text \<open>
  With no failing system call: \<open>Write\<close> of a free identifier opens an empty file, also over
  what an earlier failed write left, as long as that can be written (not a directory, say).
\<close>

definition tmp_writable :: "Cache \<Rightarrow> ID \<Rightarrow> bool" where
  "tmp_writable c i \<longleftrightarrow> (\<forall>d. tmpDir c i = Some d \<longrightarrow> name_writable fileName d)"

lemma FC_Write_ok:
  assumes "entry_free c i" "cacheDir c i = None" "tmp_writable c i"
  obtains c1 where "FC_Write no_faults i c = (Opened \<lparr>fw_id = i, fw_open = True\<rparr>, c1)"
    "cacheDir c1 = cacheDir c" "entry_writing c1 i" "fc_draft c1 i = Some []"
proof -
  from ac.create_ok [OF assms(1,2)] obtain c0 where c0: "Cache_Create no_faults i c = (None, c0)"
    "cacheDir c0 = cacheDir c" "entry_writing c0 i" by blast
  then obtain d where d: "tmpDir c0 i = Some d"
    by (auto simp: entry_writing_def)
  have "tmpDir c0 i = (case tmpDir c i of None \<Rightarrow> Some [] | Some d \<Rightarrow> Some d)"
    using c0(1) by (auto simp: cache_ops cache_parts Let_def split: if_splits option.splits)
  with d assms(3) have "name_writable fileName d"
    by (auto simp: tmp_writable_def name_writable_def split: option.splits)
  then obtain d1 where d1: "os_Create no_faults fileName d = Inr d1" "file_content fileName d1 = Some []"
    by (rule os_Create_ok)
  with c0 d show thesis
    by (intro that [of "write_files i d1 c0"])
       (auto simp: FC_Write_def fc_draft_def write_files_def entry_writing_def)
qed

lemma fileWriter_Close_ok:
  assumes "entry_writing c i" "cacheDir c i = None" "fc_draft c i = Some data"
  obtains f c1 where "fileWriter_Close no_faults \<lparr>fw_id = i, fw_open = True\<rparr> c = (None, f, c1)"
    "fc_content c1 i = Some data" "entry_free c1 i" "tmpDir c1 i = None"
    "\<And>j. j \<noteq> i \<Longrightarrow> cacheDir c1 j = cacheDir c j"
proof -
  from assms(3) obtain d where d: "tmpDir c i = Some d" "file_content fileName d = Some data"
    by (auto simp: fc_draft_def bind_eq_Some_conv)
  from ac.commit_ok [OF assms(1) d(1) assms(2)] obtain c1 where
    "Cache_commit no_faults i c = (None, c1)" "cacheDir c1 = (cacheDir c)(i \<mapsto> d)" "entry_free c1 i"
    "tmpDir c1 i = None" by blast
  with d(2) show thesis
    by (intro that [of "\<lparr>fw_id = i, fw_open = False\<rparr>" c1])
       (simp_all add: fileWriter_Close_def file_Close_def fc_content_def)
qed

text \<open>Write, copy a body that ends without an error, close.\<close>

lemma FC_store:
  assumes "entry_free c i" "cacheDir c i = None" "tmp_writable c i"
  obtains f c1 c2 f1 c3 where "FC_Write no_faults i c = (Opened f, c1)"
    "copy_body no_faults f (ps, None) c1 = (None, c2)" "fileWriter_Close no_faults f c2 = (None, f1, c3)"
    "fc_content c3 i = Some (concat ps)" "entry_free c3 i" "tmpDir c3 i = None"
    "\<And>j. j \<noteq> i \<Longrightarrow> cacheDir c3 j = cacheDir c j"
proof -
  let ?f = "\<lparr>fw_id = i, fw_open = True\<rparr>"
  obtain c1 where c1: "FC_Write no_faults i c = (Opened ?f, c1)" "cacheDir c1 = cacheDir c"
    "entry_writing c1 i" "fc_draft c1 i = Some []"
    using FC_Write_ok [OF assms] .
  obtain c2 where c2: "copy_chunks no_faults ?f ps c1 = (None, c2)"
    using copy_chunks_no_faults [of ?f ps c1] by auto
  note frame = copy_chunks_frame [OF c2]
  have "fc_draft c2 i = Some (concat ps)"
    using copy_chunks_draft [OF c2] c1(4) by simp
  moreover have "entry_writing c2 i"
    using c1(3) frame by (simp add: entry_writing_def)
  moreover have "cacheDir c2 i = None"
    using frame c1(2) assms(2) by simp
  ultimately obtain f1 c3 where "fileWriter_Close no_faults ?f c2 = (None, f1, c3)"
    "fc_content c3 i = Some (concat ps)" "entry_free c3 i" "tmpDir c3 i = None"
    "\<And>j. j \<noteq> i \<Longrightarrow> cacheDir c3 j = cacheDir c2 j"
    using fileWriter_Close_ok by metis
  with c1 c2 frame that show thesis
    by (simp add: copy_body_def)
qed

text \<open>
  Frame: whatever fails, an operation on one identifier leaves all others as they were - their
  entry, their draft and their locks.
\<close>

definition same_entry :: "ID \<Rightarrow> Cache \<Rightarrow> Cache \<Rightarrow> bool" where
  "same_entry j c c1 \<longleftrightarrow> cacheDir c1 j = cacheDir c j \<and> tmpDir c1 j = tmpDir c j \<and>
     (j \<in> writeLocked c1 \<longleftrightarrow> j \<in> writeLocked c) \<and> readLocked c1 j = readLocked c j"

lemma same_entry_refl [simp]: "same_entry j c c"
  by (simp add: same_entry_def)

lemma same_entry_trans: "same_entry j c c1 \<Longrightarrow> same_entry j c1 c2 \<Longrightarrow> same_entry j c c2"
  by (simp add: same_entry_def)

lemma same_entry_facts:
  assumes "same_entry j c c1"
  shows "entry_free c1 j = entry_free c j" "fc_content c1 j = fc_content c j"
    "tmp_writable c1 j = tmp_writable c j"
  using assms by (simp_all add: same_entry_def entry_free_def fc_content_def tmp_writable_def)

lemma cache_frame:
  assumes "j \<noteq> i"
  shows "Cache_Create env i c = (e, c1) \<Longrightarrow> same_entry j c c1"
    "Cache_Remove env i c = (e, c1) \<Longrightarrow> same_entry j c c1"
    "Cache_commit env i c = (e, c1) \<Longrightarrow> same_entry j c c1"
    "Cache_abort env i c = (e, c1) \<Longrightarrow> same_entry j c c1"
    "same_entry j c (write_files i d c)" "same_entry j c (write_data i p c)"
  using assms
  by (auto simp: same_entry_def cache_ops cache_parts write_files_def write_data_def Let_def
      split: prod.splits option.splits if_splits os_error.splits)

lemma FC_frame:
  assumes "j \<noteq> i"
  shows "FC_Write env i c = (r, c1) \<Longrightarrow> same_entry j c c1"
    "FC_Remove env i c = (e, c1) \<Longrightarrow> same_entry j c c1"
    "fw_id f = i \<Longrightarrow> fileWriter_Write env f p c = (e', c1) \<Longrightarrow> same_entry j c c1"
    "fw_id f = i \<Longrightarrow> fileWriter_Close env f c = (e, f1, c1) \<Longrightarrow> same_entry j c c1 \<and> fw_id f1 = i"
    "fw_id f = i \<Longrightarrow> fileWriter_abort env f c = (e, f1, c1) \<Longrightarrow> same_entry j c c1"
  using cache_frame [OF assms] same_entry_trans [OF cache_frame(1) [OF assms] cache_frame(5) [OF assms]]
  by (auto simp: FC_Write_def FC_Remove_def fileWriter_Write_def fileWriter_Close_def
      fileWriter_abort_def file_Close_def Let_def
      split: prod.splits option.splits sum.splits if_splits)

lemma copy_body_frame:
  assumes "j \<noteq> fw_id f"
  shows "copy_body env f b c = (e, c1) \<Longrightarrow> same_entry j c c1"
proof -
  have "same_entry j c c1" if "copy_chunks env f ps c = (e, c1)" for ps e c c1
    using that
  proof (induction ps arbitrary: c)
    case (Cons p ps)
    obtain e' c2 where w: "fileWriter_Write env f p c = (e', c2)" by fastforce
    with FC_frame(3) [OF assms refl] have "same_entry j c c2" .
    moreover from w Cons have "e' = None \<Longrightarrow> same_entry j c2 c1" "e' \<noteq> None \<Longrightarrow> c1 = c2"
      by auto
    ultimately show ?case
      using same_entry_trans by (cases e') blast+
  qed simp
  then show "copy_body env f b c = (e, c1) \<Longrightarrow> same_entry j c c1"
    by (auto simp: copy_body_def split: prod.splits option.splits)
qed

lemma FC_Write_id: "FC_Write env i c = (Opened f, c1) \<Longrightarrow> fw_id f = i"
  by (auto simp: FC_Write_def split: prod.splits option.splits sum.splits)

lemma FC_Get_ok:
  assumes "entry_free c i" "fc_content c i = Some data"
  obtains c1 where "FC_Get no_faults i c = (None, c1)" "fc_content c1 = fc_content c" "readUnlock i c1 = c"
proof -
  from assms(2) obtain d where "cacheDir c i = Some d"
    by (auto simp: fc_content_def bind_eq_Some_conv)
  from ac.get_ok [OF assms(1) this] obtain c1 where "Cache_Get no_faults i c = (None, c1)"
    "cacheDir c1 = cacheDir c" "readUnlock i c1 = c" by blast
  then show thesis
    by (intro that [of c1]) (simp_all add: FC_Get_def fc_content_def fun_eq_iff)
qed

section \<open>Properties\<close>

text \<open>
  A file written in any number of pieces and closed is in the cache with exactly the
  concatenation of the pieces, also when an earlier failed write left a longer draft; the other
  files stay, the identifier is unlocked, and \<open>Get\<close> finds the file.
\<close>

theorem filecache_write_read:
  assumes "entry_free c i" "cacheDir c i = None" "tmp_writable c i"
  shows "\<exists>f c1 c2 f1 c3 c4. FC_Write no_faults i c = (Opened f, c1) \<and>
    copy_body no_faults f (ps, None) c1 = (None, c2) \<and> fileWriter_Close no_faults f c2 = (None, f1, c3) \<and>
    FC_Get no_faults i c3 = (None, c4) \<and> fc_content c4 i = Some (concat ps) \<and>
    readUnlock i c4 = c3 \<and> entry_free c3 i \<and> (\<forall>j. j \<noteq> i \<longrightarrow> fc_content c3 j = fc_content c j)"
proof -
  obtain f c1 c2 f1 c3 where s: "FC_Write no_faults i c = (Opened f, c1)"
    "copy_body no_faults f (ps, None) c1 = (None, c2)" "fileWriter_Close no_faults f c2 = (None, f1, c3)"
    and c3: "fc_content c3 i = Some (concat ps)" "entry_free c3 i"
    and other: "\<And>j. j \<noteq> i \<Longrightarrow> cacheDir c3 j = cacheDir c j"
    using FC_store [OF assms] by metis
  obtain c4 where "FC_Get no_faults i c3 = (None, c4)" "fc_content c4 = fc_content c3" "readUnlock i c4 = c3"
    using FC_Get_ok [OF c3(2,1)] .
  moreover have "\<forall>j. j \<noteq> i \<longrightarrow> fc_content c3 j = fc_content c j"
    using other by (simp add: fc_content_def)
  ultimately show ?thesis
    using s c3 by metis
qed

theorem filecache_write_read_witness:
  "\<exists>f c1 c2 f1 c3 c4. FC_Write no_faults idA (shared empty_sys) = (Opened f, c1) \<and>
    copy_body no_faults f ([[1, 2], [3]], None) c1 = (None, c2) \<and>
    fileWriter_Close no_faults f c2 = (None, f1, c3) \<and>
    FC_Get no_faults idA c3 = (None, c4) \<and> fc_content c4 idA = Some [1, 2, 3]"
  using filecache_write_read [of "shared empty_sys" idA "[[1, 2], [3]]"]
  by (simp add: empty_sys_def entry_free_def tmp_writable_def) blast

text \<open>
  When the file of a new entry cannot be created, \<open>Write\<close> calls a nil function and panics
  with the identifier write-locked: from then on every \<open>Write\<close>, \<open>Get\<close> and \<open>Remove\<close> of this
  identifier is refused as locked for write.
\<close>

theorem filecache_create_failure_locks:
  assumes "entry_free c i" "cacheDir c i = None" "fault env SysCreate = Some e"
    and "\<forall>s. s \<noteq> SysCreate \<longrightarrow> fault env s = None"
  shows "\<exists>c1. FC_Write env i c = (NilAbort, c1) \<and>
    FC_Write no_faults i c1 = (OpenErr ErrWriteLocked, c1) \<and>
    FC_Get no_faults i c1 = (Some ErrWriteLocked, c1) \<and>
    FC_Remove no_faults i c1 = (Some ErrWriteLocked, c1)"
  using assms
  by (auto simp: fc_ops cache_ops cache_parts entry_free_def Let_def)

definition create_fails :: os_env where
  "create_fails = no_faults\<lparr>fault := (\<lambda>s. if s = SysCreate then Some ''EMFILE'' else None)\<rparr>"

theorem filecache_create_failure_locks_witness:
  "\<exists>c1. FC_Write create_fails idA (shared empty_sys) = (NilAbort, c1) \<and>
    FC_Get no_faults idA c1 = (Some ErrWriteLocked, c1)"
  using filecache_create_failure_locks [of "shared empty_sys" idA create_fails "''EMFILE''"]
  by (auto simp: empty_sys_def entry_free_def create_fails_def)

text \<open>
  \<open>Close\<close> commits even when closing the file fails: it reports the error of the close, and
  the file is in the cache for every later \<open>Get\<close>.
\<close>

theorem filecache_close_error_commits:
  assumes "entry_writing c i" "cacheDir c i = None" "fc_draft c i = Some data"
    and "fault env SysClose = Some e" "\<forall>s. s \<noteq> SysClose \<longrightarrow> fault env s = None"
  shows "\<exists>f c1 c2. fileWriter_Close env \<lparr>fw_id = i, fw_open = True\<rparr> c = (Some (FC_Err (Art_OsErr e)), f, c1) \<and>
    FC_Get no_faults i c1 = (None, c2) \<and> fc_content c2 i = Some data"
proof -
  from assms(3) obtain d where d: "tmpDir c i = Some d" "file_content fileName d = Some data"
    by (auto simp: fc_draft_def bind_eq_Some_conv)
  let ?c1 = "c\<lparr>tmpDir := (tmpDir c)(i := None), cacheDir := (cacheDir c)(i \<mapsto> d),
     writeLocked := writeLocked c - {i}\<rparr>"
  from assms(5) have "fault env SysRename = None" by simp
  with assms(1,2,4) d(1) have "fileWriter_Close env \<lparr>fw_id = i, fw_open = True\<rparr> c =
      (Some (FC_Err (Art_OsErr e)), \<lparr>fw_id = i, fw_open = False\<rparr>, ?c1)"
    by (simp add: fc_ops cache_ops cache_parts)
  moreover have "entry_free ?c1 i" "fc_content ?c1 i = Some data"
    using assms(1) d(2) by (simp_all add: entry_free_def entry_writing_def fc_content_def)
  ultimately show ?thesis
    using FC_Get_ok [of ?c1 i data] by metis
qed

theorem filecache_close_error_commits_witness:
  "\<exists>f c1 c2. fileWriter_Close (no_faults\<lparr>fault := (\<lambda>s. if s = SysClose then Some ''EIO'' else None)\<rparr>)
      \<lparr>fw_id = idA, fw_open = True\<rparr>
      ((shared empty_sys)\<lparr>writeLocked := {idA}, tmpDir := [idA \<mapsto> [(fileName, File 438 [7])]]\<rparr>) =
        (Some (FC_Err (Art_OsErr ''EIO'')), f, c1) \<and>
    FC_Get no_faults idA c1 = (None, c2) \<and> fc_content c2 idA = Some [7]"
  by (rule filecache_close_error_commits)
     (simp_all add: empty_sys_def entry_writing_def fc_draft_def file_content_def)

end
