(* ===== verification/File_Handler.thy ===== *)
theory File_Handler
  imports File_Cache
begin

text \<open>
  Package \<open>filecache\<close>, \<open>handler.go\<close> and \<open>client.go\<close>: a file cache served over HTTP, and the
  client that uploads to it and downloads from it. A handler runs to its end here before another
  goroutine uses the cache (\<open>File_Server\<close> has them interleaved); \<open>golang.org/x/sync/singleflight\<close> is an argument, the error of the
  call in flight that \<open>Do\<close> has joined (\<open>None\<close>: it has joined none and runs the function).
\<close>

section \<open>The handler\<close>

record fc_handler =
  h_cache :: Cache
  h_lock :: "ID KeyLocker"

definition NewHandler :: "Cache \<Rightarrow> fc_handler" where
  "NewHandler c = \<lparr>h_cache = c, h_lock = NewKeyLocker\<rparr>"

text \<open>
  \<open>handleGet\<close>: the function run under \<open>flight.Do\<close>. Reading the file can fail after
  \<open>written env\<close> bytes have been sent.
\<close>

definition get_run :: "os_env \<Rightarrow> ID \<Rightarrow> ResponseWriter \<Rightarrow> Cache \<Rightarrow> string option \<times> ResponseWriter \<times> Cache" where
  "get_run env i w c =
     (case FC_Get env i c of
        (Some e, c1) \<Rightarrow> (Some (''failed to get file from cache: '' @ fc_error_text e), w, c1)
      | (None, c1) \<Rightarrow>
          (case (case fault env SysOpen of Some e \<Rightarrow> Inl e
                 | None \<Rightarrow> (case fc_content c1 i of None \<Rightarrow> Inl ''no such file or directory''
                            | Some data \<Rightarrow> Inr data)) of
             Inl e \<Rightarrow> (Some (''couldn't open the file: '' @ e), w, readUnlock i c1)
           | Inr data \<Rightarrow>
               (case fault env SysRead of
                  Some e \<Rightarrow> (Some (''couldn't copy the file to the request body: '' @ e),
                             rw_copy (take (written env) data) w, readUnlock i c1)
                | None \<Rightarrow> (None, rw_copy data w, readUnlock i c1))))"

definition handleGet :: "os_env \<Rightarrow> string option option \<Rightarrow> ID \<Rightarrow> ResponseWriter \<Rightarrow> fc_handler \<Rightarrow> fc_handler served" where
  "handleGet env joined i w h =
     (let (err, w1, c1) = (case joined of Some err \<Rightarrow> (err, w, h_cache h) | None \<Rightarrow> get_run env i w (h_cache h))
      in Served (case err of None \<Rightarrow> w1 | Some e \<Rightarrow> http_Error e 500 w1) (h\<lparr>h_cache := c1\<rparr>))"

text \<open>
  \<open>handlePut\<close> from the label \<open>start\<close> up to an open writer or a reply; the jump back to \<open>start\<close>
  takes fuel.
\<close>

datatype put_start = PutWriter fileWriter | PutReply string | PutPanic

fun put_loop :: "nat \<Rightarrow> os_env \<Rightarrow> ID \<Rightarrow> Cache \<Rightarrow> (put_start \<times> Cache) option" where
  "put_loop 0 env i c = None"
| "put_loop (Suc n) env i c =
     (case FC_Write env i c of
        (Opened f, c1) \<Rightarrow> Some (PutWriter f, c1)
      | (NilAbort, c1) \<Rightarrow> Some (PutPanic, c1)
      | (OpenErr e, c1) \<Rightarrow>
          if e = ErrExists
          then (case FC_Remove env i c1 of
                  (Some e', c2) \<Rightarrow> Some (PutReply (''couldn't delete the file to update the data: '' @ fc_error_text e'), c2)
                | (None, c2) \<Rightarrow> put_loop n env i c2)
          else Some (PutReply (''failed to create a cache entry: '' @ fc_error_text e), c1))"

text \<open>The rest, with the deferred \<open>abort\<close> when copying or closing fails.\<close>

definition put_rest :: "os_env \<Rightarrow> fileWriter \<Rightarrow> body \<Rightarrow> ResponseWriter \<Rightarrow> Cache \<Rightarrow> ResponseWriter \<times> Cache" where
  "put_rest env f b w c =
     (case copy_body env f b c of
        (Some e, c1) \<Rightarrow>
          (http_Error (''couldn't copy data to cache: '' @ e) 500 w, snd (snd (fileWriter_abort env f c1)))
      | (None, c1) \<Rightarrow>
          (case fileWriter_Close env f c1 of
             (Some e, f1, c2) \<Rightarrow>
               (http_Error (''close writer: '' @ fc_error_text e) 500 w, snd (snd (fileWriter_abort env f1 c2)))
           | (None, f1, c2) \<Rightarrow> (w, c2)))"

definition handlePut :: "os_env \<Rightarrow> ID \<Rightarrow> body \<Rightarrow> ResponseWriter \<Rightarrow> fc_handler \<Rightarrow> fc_handler served go" where
  "handlePut env i b w h =
     go_bind (KeyLocker_Lock (h_lock h) i) (\<lambda>l1.
       case put_loop 2 env i (h_cache h) of
         None \<Rightarrow> Blocks
       | Some (st, c1) \<Rightarrow>
           go_bind (KeyLocker_Unlock l1 i) (\<lambda>l2. Returns
             (case st of
                PutWriter f \<Rightarrow>
                  (let (w2, c2) = put_rest env f b w c1 in Served w2 \<lparr>h_cache = c2, h_lock = l2\<rparr>)
              | PutReply e \<Rightarrow> Served (http_Error e 500 w) \<lparr>h_cache = c1, h_lock = l2\<rparr>
              | PutPanic \<Rightarrow> Dropped \<lparr>h_cache = c1, h_lock = l2\<rparr>)))"

definition file_route :: "os_env \<Rightarrow> string option option \<Rightarrow> fc_handler handler" where
  "file_route env joined r h =
     (let strID = query_get r ''id''; w = new_writer in
      if strID = '''' then Returns (Served (http_Error ''file id required'' 400 w) h)
      else case ID_UnmarshalText strID of
        Inl _ \<Rightarrow> Returns (Served (http_Error ''invalid file id'' 400 w) h)
      | Inr fileID \<Rightarrow>
          if rq_method r = ''GET'' then Returns (handleGet env joined fileID w h)
          else if rq_method r = ''PUT'' then handlePut env fileID (rq_body r) w h
          else Returns (Served (http_Error ''GET or PUT request'' 405 w) h))"

section \<open>The client\<close>

datatype client_error =
    OpenFailed string          \<comment> \<open>couldn't open the file\<close>
  | RequestFailed string       \<comment> \<open>error creating a request\<close>
  | SendFailed string          \<comment> \<open>error sending the request\<close>
  | ReadBodyFailed string      \<comment> \<open>read error body\<close>
  | UnexpectedStatus nat bytes
  | EntryFailed fc_error       \<comment> \<open>create cache file\<close>
  | CopyFailed string          \<comment> \<open>couldn't copy data to local cache\<close>
  | CloseFailed fc_error       \<comment> \<open>close writer\<close>

text \<open>
  \<open>bad_url\<close> is the error of \<open>http.NewRequestWithContext\<close> for the client's endpoint, \<open>local\<close> the
  file system of the client: what opening and reading a path gives.
\<close>

definition file_request :: "string \<Rightarrow> ID \<Rightarrow> body \<Rightarrow> http_request" where
  "file_request meth i b =
     \<lparr>rq_method = meth, rq_path = ''/file'', rq_query = [''id'' \<mapsto> ID_String i], rq_body = b\<rparr>"

definition Upload :: "(string \<Rightarrow> string + body) \<Rightarrow> string option \<Rightarrow> 's transport \<Rightarrow> ID \<Rightarrow> string \<Rightarrow> 's
    \<Rightarrow> (client_error option \<times> 's) go" where
  "Upload local bad_url T fileID localPath s =
     (case local localPath of
        Inl e \<Rightarrow> Returns (Some (OpenFailed e), s)
      | Inr b \<Rightarrow>
          (case bad_url of
             Some e \<Rightarrow> Returns (Some (RequestFailed e), s)
           | None \<Rightarrow>
               go_bind (T (file_request ''PUT'' fileID b) s) (\<lambda>(resp, s1). Returns
                 ((case resp of
                     Inl e \<Rightarrow> Some (SendFailed e)
                   | Inr rs \<Rightarrow>
                       if StatusCode rs \<noteq> 200
                       then (case snd (rs_body rs) of
                               Some e \<Rightarrow> Some (ReadBodyFailed e)
                             | None \<Rightarrow> Some (UnexpectedStatus (StatusCode rs) (body_bytes (rs_body rs))))
                       else None), s1))))"

text \<open>Storing a downloaded body; \<open>Write\<close> may panic as in \<open>FC_Write\<close>.\<close>

definition download_store :: "os_env \<Rightarrow> ID \<Rightarrow> body \<Rightarrow> Cache \<Rightarrow> (client_error option \<times> Cache) go" where
  "download_store env i b c =
     (case FC_Write env i c of
        (OpenErr e, c1) \<Rightarrow> Returns (Some (EntryFailed e), c1)
      | (NilAbort, c1) \<Rightarrow> Panics ''nil pointer dereference''
      | (Opened f, c1) \<Rightarrow> Returns
          (case copy_body env f b c1 of
             (Some e, c2) \<Rightarrow> (Some (CopyFailed e), snd (snd (fileWriter_abort env f c2)))
           | (None, c2) \<Rightarrow>
               (case fileWriter_Close env f c2 of
                  (Some e, f1, c3) \<Rightarrow> (Some (CloseFailed e), snd (snd (fileWriter_abort env f1 c3)))
                | (None, f1, c3) \<Rightarrow> (None, c3))))"

definition Download :: "os_env \<Rightarrow> string option \<Rightarrow> 's transport \<Rightarrow> ID \<Rightarrow> Cache \<Rightarrow> 's
    \<Rightarrow> (client_error option \<times> Cache \<times> 's) go" where
  "Download env bad_url T fileID localCache s =
     (case bad_url of
        Some e \<Rightarrow> Returns (Some (RequestFailed e), localCache, s)
      | None \<Rightarrow>
          go_bind (T (file_request ''GET'' fileID ([], None)) s) (\<lambda>(resp, s1).
            case resp of
              Inl e \<Rightarrow> Returns (Some (SendFailed e), localCache, s1)
            | Inr rs \<Rightarrow>
                if StatusCode rs \<noteq> 200
                then Returns (Some (UnexpectedStatus (StatusCode rs) []), localCache, s1)
                else go_bind (download_store env fileID (rs_body rs) localCache) (\<lambda>(e, c1).
                       Returns (e, c1, s1))))"

section \<open>Lemmas\<close>

lemma ID_String_nonempty [simp]: "ID_String i \<noteq> []"
proof
  assume "ID_String i = []"
  then have "length (ID_String i) = 0" by simp
  then show False by (simp add: ID_String_def id_size_def)
qed

lemma file_request_query [simp]: "query_get (file_request m i b) ''id'' = ID_String i"
  "rq_method (file_request m i b) = m" "rq_body (file_request m i b) = b"
  by (simp_all add: file_request_def query_get_def)

lemma convertErr_exists [simp]: "convertErr e = ErrExists \<longleftrightarrow> e = Art_ErrExists"
  by (cases e) auto

lemma FC_Write_not_exists: "cacheDir c i = None \<Longrightarrow> FC_Write env i c \<noteq> (OpenErr ErrExists, c1)"
  by (auto simp: FC_Write_def cache_ops writeLock_def make_dir_def Stat_def Let_def
      split: prod.splits option.splits sum.splits if_splits)

lemma FC_Remove_None: "FC_Remove env i c = (None, c1) \<Longrightarrow> cacheDir c1 i = None"
  by (auto simp: FC_Remove_def Cache_Remove_def remove_dir_def RemoveAll_def writeUnlock_def Let_def
      split: prod.splits option.splits)

lemma put_loop_absent:
  assumes "cacheDir c i = None"
  shows "put_loop (Suc n) env i c = put_loop 1 env i c" "put_loop 1 env i c \<noteq> None"
  using FC_Write_not_exists [OF assms, of env]
  by (auto split: prod.splits fc_opened.splits)

text \<open>An identifier nobody uses, in the cache and in the handler's locks.\<close>

definition put_ready :: "fc_handler \<Rightarrow> ID \<Rightarrow> bool" where
  "put_ready h i \<longleftrightarrow> entry_free (h_cache h) i \<and> tmp_writable (h_cache h) i \<and>
     kl_idle (h_lock h) \<and> \<not> kl_held (h_lock h) i"

lemma FC_Remove_ok:
  assumes "entry_free c i"
  obtains c1 where "FC_Remove no_faults i c = (None, c1)" "cacheDir c1 = (cacheDir c)(i := None)"
    "entry_free c1 i" "tmpDir c1 = tmpDir c"
proof -
  from ac.delete_ok [OF assms] obtain c1 where c1: "Cache_Remove no_faults i c = (None, c1)"
    "cacheDir c1 = (cacheDir c)(i := None)" "entry_free c1 i" by blast
  moreover from c1(1) have "tmpDir c1 = tmpDir c"
    by (auto simp: cache_ops cache_parts Let_def split: if_splits)
  ultimately show thesis
    by (intro that [of c1]) (simp_all add: FC_Remove_def)
qed

text \<open>
  What \<open>start\<close> reaches when no system call fails: a writer on an entry that is no longer in
  the cache.
\<close>

lemma put_loop_ok:
  assumes "entry_free c i" "tmp_writable c i"
  obtains c0 c1 f where "put_loop 2 no_faults i c = Some (PutWriter f, c1)"
    "FC_Write no_faults i c0 = (Opened f, c1)" "entry_free c0 i" "tmp_writable c0 i"
    "cacheDir c0 = (cacheDir c)(i := None)"
proof (cases "cacheDir c i")
  case None
  obtain c1 where "FC_Write no_faults i c = (Opened \<lparr>fw_id = i, fw_open = True\<rparr>, c1)"
    using FC_Write_ok [OF assms(1) None assms(2)] by metis
  with None assms that [of _ c1 c] show thesis
    by (simp add: numeral_2_eq_2 fun_upd_idem)
next
  case (Some d)
  obtain c0 where c0: "FC_Remove no_faults i c = (None, c0)" "cacheDir c0 = (cacheDir c)(i := None)"
    "entry_free c0 i" "tmpDir c0 = tmpDir c"
    using FC_Remove_ok [OF assms(1)] .
  with assms(2) have tmp: "tmp_writable c0 i" "cacheDir c0 i = None"
    by (simp_all add: tmp_writable_def)
  obtain c1 where c1: "FC_Write no_faults i c0 = (Opened \<lparr>fw_id = i, fw_open = True\<rparr>, c1)"
    using FC_Write_ok [OF c0(3) tmp(2,1)] by metis
  have "FC_Write no_faults i c = (OpenErr ErrExists, c)"
    using Some by (simp add: FC_Write_def cache_ops writeLock_def Stat_def Let_def)
  with c0 c1 tmp that [of _ c1 c0] show thesis
    by (simp add: numeral_2_eq_2)
qed

text \<open>Whatever fails, a PUT leaves the other identifiers as they were.\<close>

lemma put_loop_frame:
  "j \<noteq> i \<Longrightarrow> put_loop n env i c = Some (st, c1) \<Longrightarrow>
     same_entry j c c1 \<and> (\<forall>f. st = PutWriter f \<longrightarrow> fw_id f = i)"
proof (induction n arbitrary: c)
  case (Suc n)
  obtain r c0 where w: "FC_Write env i c = (r, c0)" by fastforce
  obtain e c2 where d: "FC_Remove env i c0 = (e, c2)" by fastforce
  have "same_entry j c c0" "same_entry j c0 c2"
    using FC_frame(1,2) [OF Suc.prems(1)] w d by blast+
  moreover from this have "same_entry j c c2"
    by (rule same_entry_trans)
  ultimately show ?case
    using Suc w d FC_Write_id [of env i c]
    by (auto split: fc_opened.splits if_splits option.splits intro: same_entry_trans)
qed simp

lemma put_rest_frame:
  assumes "j \<noteq> fw_id f"
  shows "put_rest env f b w c = (w1, c1) \<Longrightarrow> same_entry j c c1"
proof -
  assume r: "put_rest env f b w c = (w1, c1)"
  obtain e c2 where b: "copy_body env f b c = (e, c2)" by fastforce
  obtain e3 f3 c3 where a: "fileWriter_abort env f c2 = (e3, f3, c3)" by (metis prod_cases3)
  obtain e4 f4 c4 where d: "fileWriter_Close env f c2 = (e4, f4, c4)" by (metis prod_cases3)
  obtain e5 f5 c5 where g: "fileWriter_abort env f4 c4 = (e5, f5, c5)" by (metis prod_cases3)
  have "same_entry j c c2" "same_entry j c2 c3" "same_entry j c2 c4" "fw_id f4 = fw_id f"
    using copy_body_frame [OF assms b] FC_frame(4,5) [OF assms refl] a d by blast+
  moreover from this(4) have "same_entry j c4 c5"
    using FC_frame(5) [OF assms _ g] by simp
  moreover have "c1 \<in> {c3, c4, c5}"
    using r a b d g by (auto simp: put_rest_def split: option.splits)
  ultimately show ?thesis
    by (blast intro: same_entry_trans)
qed

lemma handlePut_frame:
  assumes "j \<noteq> i" "handlePut env i b w h = Returns out"
  shows "same_entry j (h_cache h) (h_cache (case out of Served w1 h1 \<Rightarrow> h1 | Dropped h1 \<Rightarrow> h1))"
proof -
  from assms(2) obtain st c1 l2 where start: "put_loop 2 env i (h_cache h) = Some (st, c1)"
    and out: "out = (case st of
      PutWriter f \<Rightarrow> (let (w2, c2) = put_rest env f b w c1 in Served w2 \<lparr>h_cache = c2, h_lock = l2\<rparr>)
    | PutReply e \<Rightarrow> Served (http_Error e 500 w) \<lparr>h_cache = c1, h_lock = l2\<rparr>
    | PutPanic \<Rightarrow> Dropped \<lparr>h_cache = c1, h_lock = l2\<rparr>)"
    by (auto simp: handlePut_def go_simps split: option.splits)
  note frame = put_loop_frame [OF assms(1) start]
  show ?thesis
  proof (cases st)
    case (PutWriter f)
    obtain w2 c2 where "put_rest env f b w c1 = (w2, c2)" by fastforce
    moreover from this have "same_entry j c1 c2"
      using put_rest_frame frame PutWriter assms(1) by blast
    ultimately show ?thesis
      using frame PutWriter out by (auto intro: same_entry_trans)
  qed (use frame out in auto)
qed

text \<open>A PUT whose body arrives completely replaces the file.\<close>

lemma handlePut_ok:
  assumes "put_ready h i"
  obtains h1 where "handlePut no_faults i (ps, None) w h = Returns (Served w h1)"
    "fc_content (h_cache h1) i = Some (concat ps)" "put_ready h1 i"
    "kl_held (h_lock h1) = kl_held (h_lock h)"
    "\<And>j. j \<noteq> i \<Longrightarrow> fc_content (h_cache h1) j = fc_content (h_cache h) j"
  "\<And>j. put_ready h j \<Longrightarrow> put_ready h1 j"
proof -
  from assms have ready: "entry_free (h_cache h) i" "tmp_writable (h_cache h) i"
    "kl_idle (h_lock h)" "\<not> kl_held (h_lock h) i"
    by (simp_all add: put_ready_def)
  obtain c0 c1 f where start: "put_loop 2 no_faults i (h_cache h) = Some (PutWriter f, c1)"
    "FC_Write no_faults i c0 = (Opened f, c1)" and c0: "entry_free c0 i" "tmp_writable c0 i"
    "cacheDir c0 = (cacheDir (h_cache h))(i := None)"
    using put_loop_ok [OF ready(1,2)] .
  then have "cacheDir c0 i = None" by simp
  from FC_store [OF c0(1) this c0(2), of ps] start(2) obtain c2 f1 c3 where
    rest: "copy_body no_faults f (ps, None) c1 = (None, c2)" "fileWriter_Close no_faults f c2 = (None, f1, c3)"
    and c3: "fc_content c3 i = Some (concat ps)" "entry_free c3 i" "tmpDir c3 i = None"
    "\<And>j. j \<noteq> i \<Longrightarrow> cacheDir c3 j = cacheDir c0 j"
    by (metis Pair_inject fc_opened.inject(1))
  obtain l1 l2 where l: "KeyLocker_Lock (h_lock h) i = Returns l1" "KeyLocker_Unlock l1 i = Returns l2"
    "kl_idle l2" "kl_held l2 = kl_held (h_lock h)"
    using km.critical_section [OF ready(3,4)] by metis
  show thesis
  proof (rule that [of "\<lparr>h_cache = c3, h_lock = l2\<rparr>"])
    show put: "handlePut no_faults i (ps, None) w h = Returns (Served w \<lparr>h_cache = c3, h_lock = l2\<rparr>)"
      using l start rest by (simp add: handlePut_def put_rest_def)
    show ready1: "put_ready \<lparr>h_cache = c3, h_lock = l2\<rparr> i"
      using l c3 ready(4) by (simp add: put_ready_def tmp_writable_def)
    show "put_ready \<lparr>h_cache = c3, h_lock = l2\<rparr> j" if "put_ready h j" for j
    proof (cases "j = i")
      case False
      from handlePut_frame [OF this put] that l show ?thesis
        by (simp add: put_ready_def same_entry_facts)
    qed (use ready1 in simp)
  qed (use l c3 c0 in \<open>simp_all add: fc_content_def\<close>)
qed

lemma Upload_ok:
  assumes "put_ready h i" "local path = Inr (ps, None)"
  obtains h1 where "Upload local None (perfect (file_route no_faults None)) i path h = Returns (None, h1)"
    "fc_content (h_cache h1) i = Some (concat ps)" "put_ready h1 i"
    "\<And>j. j \<noteq> i \<Longrightarrow> fc_content (h_cache h1) j = fc_content (h_cache h) j"
    "\<And>j. put_ready h j \<Longrightarrow> put_ready h1 j"
proof -
  obtain h1 where h1: "handlePut no_faults i (ps, None) new_writer h = Returns (Served new_writer h1)"
    "fc_content (h_cache h1) i = Some (concat ps)" "put_ready h1 i"
    "\<And>j. j \<noteq> i \<Longrightarrow> fc_content (h_cache h1) j = fc_content (h_cache h) j"
    "\<And>j. put_ready h j \<Longrightarrow> put_ready h1 j"
    using handlePut_ok [OF assms(1), of ps new_writer] by metis
  then show thesis
    using that [of h1] assms(2)
    by (simp add: Upload_def perfect_def file_route_def Let_def)
qed

section \<open>Properties\<close>

text \<open>
  A PUT whose body arrives completely is answered 200 and stores exactly the bytes of the
  body, whether or not the identifier had a file; the other files and the handler's locks are
  as before, and the identifier is ready for the next request.
\<close>

theorem handlePut_stores:
  assumes "put_ready h i"
  shows "\<exists>h1. handlePut no_faults i (ps, None) new_writer h = Returns (Served new_writer h1) \<and>
    final_status new_writer = 200 \<and> fc_content (h_cache h1) i = Some (concat ps) \<and>
    put_ready h1 i \<and> kl_held (h_lock h1) = kl_held (h_lock h) \<and>
    (\<forall>j. j \<noteq> i \<longrightarrow> fc_content (h_cache h1) j = fc_content (h_cache h) j)"
  by (rule handlePut_ok [OF assms, of ps new_writer]) simp

definition fresh_handler :: fc_handler where
  "fresh_handler = NewHandler (shared empty_sys)"

lemma fresh_handler_ready [simp]: "put_ready fresh_handler i"
  by (simp add: fresh_handler_def NewHandler_def put_ready_def empty_sys_def entry_free_def
      tmp_writable_def NewKeyLocker_def kl_idle_def kl_held_def)

theorem handlePut_stores_witness:
  "\<exists>h1. handlePut no_faults idA ([[1], [2, 3]], None) new_writer fresh_handler =
      Returns (Served new_writer h1) \<and> fc_content (h_cache h1) idA = Some [1, 2, 3]"
  using handlePut_stores [of fresh_handler idA "[[1], [2, 3]]"] by auto

text \<open>
  The \<open>goto start\<close> of \<open>handlePut\<close> is taken at most once, whichever system calls fail: two
  rounds always reach an open writer, a reply or the panic, and more rounds change nothing.
\<close>

theorem put_loop_two_rounds:
  "put_loop 2 env i c \<noteq> None \<and> put_loop (Suc (Suc n)) env i c = put_loop 2 env i c"
proof -
  have again: "put_loop (Suc n) env i c1 = put_loop 1 env i c1" "\<exists>r. put_loop 1 env i c1 = Some r"
    if "FC_Remove env i c0 = (None, c1)" for c0 c1
    using put_loop_absent [OF FC_Remove_None [OF that]] by blast+
  obtain st c0 where opened: "FC_Write env i c = (st, c0)"
    by fastforce
  obtain e c1 where removed: "FC_Remove env i c0 = (e, c1)"
    by fastforce
  have round: "put_loop (Suc m) env i c =
      (case st of Opened f \<Rightarrow> Some (PutWriter f, c0) | NilAbort \<Rightarrow> Some (PutPanic, c0)
       | OpenErr e0 \<Rightarrow> if e0 = ErrExists
           then (case e of Some e' \<Rightarrow> Some (PutReply (''couldn't delete the file to update the data: '' @ fc_error_text e'), c1)
                 | None \<Rightarrow> put_loop m env i c1)
           else Some (PutReply (''failed to create a cache entry: '' @ fc_error_text e0), c0))" for m
    by (simp only: put_loop.simps opened removed prod.case)
  have two: "put_loop 2 env i c = put_loop (Suc 1) env i c"
    by (simp only: Suc_1)
  show ?thesis
    unfolding two round using again [of c0 c1] removed
    by (auto simp del: put_loop.simps split: fc_opened.split option.split)
qed

text \<open>
  A PUT whose body breaks off is answered 500 and leaves no partial file: the identifier
  is unlocked and its entry gone. That holds for a file that was there before too: the old
  version is deleted before the new one is read.
\<close>

theorem put_broken_body:
  assumes "put_ready h i"
  shows "\<exists>h1 w1. handlePut no_faults i (ps, Some e) new_writer h = Returns (Served w1 h1) \<and>
    final_status w1 = 500 \<and> cacheDir (h_cache h1) = (cacheDir (h_cache h))(i := None) \<and> put_ready h1 i"
proof -
  from assms have ready: "entry_free (h_cache h) i" "tmp_writable (h_cache h) i"
    "kl_idle (h_lock h)" "\<not> kl_held (h_lock h) i"
    by (simp_all add: put_ready_def)
  obtain c0 c1 f where start: "put_loop 2 no_faults i (h_cache h) = Some (PutWriter f, c1)"
    "FC_Write no_faults i c0 = (Opened f, c1)" and c0: "entry_free c0 i" "tmp_writable c0 i"
    "cacheDir c0 = (cacheDir (h_cache h))(i := None)"
    using put_loop_ok [OF ready(1,2)] .
  from c0 have "cacheDir c0 i = None" by simp
  from FC_Write_ok [OF c0(1) this c0(2)] start(2) have f: "f = \<lparr>fw_id = i, fw_open = True\<rparr>"
    and c1: "cacheDir c1 = cacheDir c0" "entry_writing c1 i"
    by auto
  obtain c2 where c2: "copy_chunks no_faults f ps c1 = (None, c2)"
    using copy_chunks_no_faults [of f ps c1] f by auto
  with c1 have "cacheDir c2 = cacheDir c0" "entry_writing c2 i"
    using copy_chunks_frame [OF c2] by (simp_all add: entry_writing_def)
  with ac.abort_ok [of c2 i] obtain c3 where c3: "Cache_abort no_faults i c2 = (None, c3)"
    "cacheDir c3 = cacheDir c0" "entry_free c3 i" "tmpDir c3 i = None"
    by auto
  obtain l1 l2 where l: "KeyLocker_Lock (h_lock h) i = Returns l1" "KeyLocker_Unlock l1 i = Returns l2"
    "kl_idle l2" "kl_held l2 = kl_held (h_lock h)"
    using km.critical_section [OF ready(3,4)] by metis
  have "handlePut no_faults i (ps, Some e) new_writer h =
      Returns (Served (http_Error (''couldn't copy data to cache: '' @ e) 500 new_writer) \<lparr>h_cache = c3, h_lock = l2\<rparr>)"
    using l start(1) c2 c3(1)
    by (simp add: handlePut_def put_rest_def copy_body_def fileWriter_abort_def file_Close_def f)
  then show ?thesis
    using l c3 c0(3) ready(4) by (auto simp: put_ready_def tmp_writable_def)
qed

theorem put_broken_body_witness:
  "\<exists>h1 w1. handlePut no_faults idA ([[1]], Some ''unexpected EOF'') new_writer fresh_handler =
      Returns (Served w1 h1) \<and> final_status w1 = 500 \<and> cacheDir (h_cache h1) idA = None"
  using put_broken_body [of fresh_handler idA "[[1]]" "''unexpected EOF''"] by fastforce

text \<open>
  A GET that runs by itself answers 200 with exactly the stored bytes and leaves the
  handler as it was. A GET that joins another one in flight shares only its error: when that
  one succeeds it answers 200 with an empty body, whatever the file holds.
\<close>

theorem handleGet_leader_and_follower:
  assumes "entry_free (h_cache h) i" "fc_content (h_cache h) i = Some data"
  shows "(\<exists>w. handleGet no_faults None i new_writer h = Served w h \<and> final_status w = 200 \<and> rw_body w = data) \<and>
    (\<exists>w. handleGet no_faults (Some None) i new_writer h = Served w h \<and> final_status w = 200 \<and> rw_body w = [])"
proof -
  obtain c1 where "FC_Get no_faults i (h_cache h) = (None, c1)" "fc_content c1 = fc_content (h_cache h)"
    "readUnlock i c1 = h_cache h"
    using FC_Get_ok [OF assms] .
  with assms(2) show ?thesis
    by (simp add: handleGet_def get_run_def)
qed

definition stored_handler :: fc_handler where
  "stored_handler = fresh_handler\<lparr>h_cache := (shared empty_sys)\<lparr>cacheDir := [idA \<mapsto> [(fileName, File 438 [5])]]\<rparr>\<rparr>"

lemma stored_handler_file [simp]:
  "entry_free (h_cache stored_handler) idA" "fc_content (h_cache stored_handler) idA = Some [5]"
  by (simp_all add: stored_handler_def empty_sys_def entry_free_def fc_content_def file_content_def)

theorem handleGet_leader_and_follower_witness:
  "(\<exists>w. handleGet no_faults None idA new_writer stored_handler = Served w stored_handler \<and>
      final_status w = 200 \<and> rw_body w = [5]) \<and>
   (\<exists>w. handleGet no_faults (Some None) idA new_writer stored_handler = Served w stored_handler \<and>
      final_status w = 200 \<and> rw_body w = [])"
  by (rule handleGet_leader_and_follower) simp_all

text \<open>
  C32. Uploading a local file through the client and downloading it into another cache, over a
  network that loses nothing, delivers exactly the bytes of the local file; neither call reports
  an error.
\<close>

theorem upload_download:
  assumes "put_ready h i" "local path = Inr (ps, None)"
    and "entry_free lc i" "cacheDir lc i = None" "tmp_writable lc i"
  shows "\<exists>h1 h2 lc1. Upload local None (perfect (file_route no_faults None)) i path h = Returns (None, h1) \<and>
    Download no_faults None (perfect (file_route no_faults None)) i lc h1 = Returns (None, lc1, h2) \<and>
    fc_content lc1 i = Some (concat ps) \<and> h2 = h1"
proof -
  obtain h1 where up: "Upload local None (perfect (file_route no_faults None)) i path h = Returns (None, h1)"
    and h1: "put_ready h1 i" "fc_content (h_cache h1) i = Some (concat ps)"
    using Upload_ok [of h i local path ps, OF assms(1,2)] by metis
  obtain c1 where get: "FC_Get no_faults i (h_cache h1) = (None, c1)" "fc_content c1 = fc_content (h_cache h1)"
    "readUnlock i c1 = h_cache h1"
    using FC_Get_ok [of "h_cache h1" i "concat ps"] h1 by (auto simp: put_ready_def)
  obtain f l1 l2 f1 l3 where "FC_Write no_faults i lc = (Opened f, l1)"
    "copy_body no_faults f ([concat ps], None) l1 = (None, l2)" "fileWriter_Close no_faults f l2 = (None, f1, l3)"
    "fc_content l3 i = Some (concat [concat ps])"
    using FC_store [OF assms(3-5), of "[concat ps]"] by metis
  with get h1(2) have "Download no_faults None (perfect (file_route no_faults None)) i lc h1 = Returns (None, l3, h1)"
    by (simp add: Download_def perfect_def file_route_def handleGet_def get_run_def download_store_def Let_def)
  with up \<open>fc_content l3 i = _\<close> show ?thesis by simp
qed

theorem upload_download_witness:
  "\<exists>h1 h2 lc1. Upload (\<lambda>_. Inr ([[1], [2]], None)) None (perfect (file_route no_faults None)) idA ''a.c'' fresh_handler =
      Returns (None, h1) \<and>
    Download no_faults None (perfect (file_route no_faults None)) idA (shared empty_sys) h1 = Returns (None, lc1, h2) \<and>
    fc_content lc1 idA = Some [1, 2]"
  using upload_download [of fresh_handler idA "\<lambda>_. Inr ([[1], [2]], None)" "''a.c''" "[[1], [2]]" "shared empty_sys"]
  by (simp add: empty_sys_def entry_free_def tmp_writable_def) blast

text \<open>
  Requests the handler rejects: a missing identifier and one that is not the text of an
  identifier are answered 400, a method other than GET and PUT 405, and the handler's state does
  not change.
\<close>

theorem file_route_rejects:
  "(query_get r ''id'' = '''' \<longrightarrow> (\<exists>w. file_route env joined r h = Returns (Served w h) \<and> final_status w = 400)) \<and>
   (\<forall>e. query_get r ''id'' \<noteq> '''' \<and> ID_UnmarshalText (query_get r ''id'') = Inl e \<longrightarrow>
      (\<exists>w. file_route env joined r h = Returns (Served w h) \<and> final_status w = 400)) \<and>
   (\<forall>i. query_get r ''id'' = ID_String i \<and> rq_method r \<notin> {''GET'', ''PUT''} \<longrightarrow>
      (\<exists>w. file_route env joined r h = Returns (Served w h) \<and> final_status w = 405))"
  by (auto simp: file_route_def Let_def)

theorem file_route_rejects_witness:
  "\<exists>w. file_route no_faults None (file_request ''POST'' idA ([], None)) fresh_handler =
      Returns (Served w fresh_handler) \<and> final_status w = 405"
  using file_route_rejects [of "file_request ''POST'' idA ([], None)" no_faults None fresh_handler]
  by auto

end
