(* ===== verification/Job_Queue.thy ===== *)
theory Job_Queue
  imports Prelude
begin

text \<open>
  Package \<open>scheduler\<close>, file \<open>queue.go\<close> and the interface \<open>Queue\<close> of \<open>scheduler.go\<close>: a
  buffered channel used as a first-in first-out queue. A send on a full channel and a receive on
  an empty one are not enabled (\<open>None\<close>).
\<close>

section \<open>The interface\<close>

locale fifo_queue =
  fixes contents :: "'q \<Rightarrow> 'a list"
    and new :: 'q
    and push :: "'q \<Rightarrow> 'a \<Rightarrow> 'q option"
    and pop :: "'q \<Rightarrow> ('a \<times> 'q) option"
    and room :: nat
  assumes contents_new: "contents new = []"
    and push_room: "length (contents q) < room \<Longrightarrow>
      \<exists>q'. push q x = Some q' \<and> contents q' = contents q @ [x]"
    and push_full: "\<not> length (contents q) < room \<Longrightarrow> push q x = None"
    and pop_empty: "contents q = [] \<Longrightarrow> pop q = None"
    and pop_first: "contents q = x # xs \<Longrightarrow> \<exists>q'. pop q = Some (x, q') \<and> contents q' = xs"
begin

lemma push_Some:
  "push q x = Some q' \<Longrightarrow> contents q' = contents q @ [x] \<and> length (contents q) < room"
  using push_room [of q x] push_full [of q x] by (cases "length (contents q) < room") auto

lemma pop_Some: "pop q = Some (x, q') \<Longrightarrow> contents q = x # contents q'"
  using pop_empty [of q] pop_first [of q] by (cases "contents q") auto

lemma pop_None: "pop q = None \<longleftrightarrow> contents q = []"
  using pop_empty [of q] pop_first [of q] by (cases "contents q") auto

end

section \<open>The implementation\<close>

record 'a chanQueue =
  channal :: "'a list"

definition queue_capacity :: nat where
  "queue_capacity = 10000"

definition newChanQueue :: "'a chanQueue" where
  "newChanQueue = \<lparr>channal = []\<rparr>"

definition Push :: "'a chanQueue \<Rightarrow> 'a \<Rightarrow> 'a chanQueue option" where
  "Push q item =
     (if length (channal q) < queue_capacity then Some (q\<lparr>channal := channal q @ [item]\<rparr>) else None)"

text \<open>A receive from the channel that \<open>Pop\<close> returns.\<close>

definition Pop :: "'a chanQueue \<Rightarrow> ('a \<times> 'a chanQueue) option" where
  "Pop q = (case channal q of [] \<Rightarrow> None | x # xs \<Rightarrow> Some (x, q\<lparr>channal := xs\<rparr>))"

interpretation cq: fifo_queue channal newChanQueue Push Pop queue_capacity
  by unfold_locales (auto simp: newChanQueue_def Push_def Pop_def split: list.splits)

end
