(* ===== verification/Api_Types.thy ===== *)
theory Api_Types
  imports Build_Graph
begin

text \<open>
  Package \<open>api\<close>, files \<open>heartbeat.go\<close> and \<open>build.go\<close>: the messages between workers,
  coordinator and client. A pointer field that may be nil is an \<open>option\<close>; a map the code ranges
  over is the list of its entries in range order.
\<close>

type_synonym WorkerID = string

record JobResult =
  res_ID :: ID
  Stdout :: bytes
  Stderr :: bytes
  ExitCode :: int
  Error :: "string option"

record JobSpec =
  SourceFiles :: "(ID \<times> string) list"
  Artifacts :: "(ID \<times> WorkerID) list"
  spec_Job :: Job

definition spec_ID :: "JobSpec \<Rightarrow> ID" where
  "spec_ID js = Job_ID (spec_Job js)"

record HeartbeatRequest =
  hb_WorkerID :: WorkerID
  FreeSlots :: int
  FinishedJob :: "JobResult list"
  AddedArtifacts :: "ID list"

record HeartbeatResponse =
  JobsToRun :: "ID \<rightharpoonup> JobSpec"

record BuildRequest =
  req_Graph :: Graph

record BuildStarted =
  started_ID :: ID
  MissingFiles :: "ID list"

text \<open>\<open>BuildFailed\<close> carries its message, \<open>BuildFinished\<close> and \<open>UploadDone\<close> have no fields.\<close>

record StatusUpdate =
  JobFinished :: "JobResult option"
  BuildFailed :: "string option"
  BuildFinished :: bool

record SignalRequest =
  UploadDone :: bool

end
