(* ===== verification/Scheduler.thy ===== *)
theory Scheduler
  imports Api_Types Job_Queue Machines
begin

text \<open>
  Package \<open>scheduler\<close>, file \<open>scheduler.go\<close>: the table of known jobs, the queue of jobs that wait
  for a worker, and the table of workers that hold an artifact. The code shares \<open>*PendingJob\<close>
  pointers between the table, the queue, running builds and workers; they are addresses of a
  store here.
\<close>

section \<open>State\<close>

text \<open>\<open>Finished\<close> is a channel that is only ever closed: the flag says whether it is.\<close>

record PendingJob =
  pj_Job :: JobSpec
  Finished :: bool
  Result :: "JobResult option"
  isCloseFinished :: bool

type_synonym ptr = nat

record Scheduler =
  isStop :: bool
  queue :: "ptr chanQueue"
  jobs :: "ID \<rightharpoonup> ptr"
  artifacts :: "ID \<rightharpoonup> WorkerID list"
  store :: "ptr \<Rightarrow> PendingJob"
  fresh :: ptr

definition empty_spec :: "ID \<Rightarrow> JobSpec" where
  "empty_spec i = \<lparr>SourceFiles = [], Artifacts = [],
     spec_Job = \<lparr>Job_ID = i, Job_Name = [], Inputs = [], Deps = [], Cmds = []\<rparr>\<rparr>"

definition new_pending :: "JobSpec \<Rightarrow> JobResult option \<Rightarrow> PendingJob" where
  "new_pending js res = \<lparr>pj_Job = js, Finished = False, Result = res, isCloseFinished = False\<rparr>"

definition NewScheduler :: Scheduler where
  "NewScheduler =
     \<lparr>isStop = False, queue = newChanQueue, jobs = Map.empty, artifacts = Map.empty,
      store = (\<lambda>_. new_pending (empty_spec ID_zero) None), fresh = 0\<rparr>"

section \<open>Operations\<close>

definition checkIsStop :: "string \<Rightarrow> Scheduler \<Rightarrow> unit go" where
  "checkIsStop msg c = (if isStop c then Panics msg else Returns ())"

text \<open>\<open>rand.Intn\<close> draws an index below the length: \<open>r\<close> is the source of randomness.\<close>

definition LocateArtifact :: "nat \<Rightarrow> ID \<Rightarrow> Scheduler \<Rightarrow> (WorkerID \<times> bool) go" where
  "LocateArtifact r i c =
     go_bind (checkIsStop ''call `LocateArtifact` after stop scheduling'' c) (\<lambda>_.
       let workersID = (case artifacts c i of None \<Rightarrow> [] | Some ws \<Rightarrow> ws);
           exist = artifacts c i \<noteq> None
       in if length workersID = 0 then Returns ('''', False)
          else Returns (workersID ! (r mod length workersID), exist))"

text \<open>
  \<open>OnJobComplete\<close> holds \<open>jobsMu\<close> in its first part and \<open>artifactsMu\<close> in its second; other
  goroutines can run in between. The first part returns whether the job was known. Closing a
  closed channel panics.
\<close>

definition complete_job :: "ID \<Rightarrow> JobResult option \<Rightarrow> Scheduler \<Rightarrow> (bool \<times> Scheduler) go" where
  "complete_job i res c =
     (let exist = jobs c i \<noteq> None;
          c1 = (if exist then c
                else c\<lparr>store := (store c)(fresh c := new_pending (empty_spec i) res),
                       jobs := (jobs c)(i \<mapsto> fresh c), fresh := Suc (fresh c)\<rparr>);
          p = the (jobs c1 i);
          pendingJob = store c1 p
      in if isCloseFinished pendingJob then Returns (exist, c1)
         else if Finished pendingJob then Panics ''close of closed channel''
         else Returns (exist, c1\<lparr>store := (store c1)(p :=
                pendingJob\<lparr>isCloseFinished := True, Result := res, Finished := True\<rparr>)\<rparr>))"

definition add_artifact :: "WorkerID \<Rightarrow> ID \<Rightarrow> Scheduler \<Rightarrow> Scheduler" where
  "add_artifact w i c =
     (let workersID = (case artifacts c i of None \<Rightarrow> [] | Some ws \<Rightarrow> ws) @ [w]
      in c\<lparr>artifacts := (artifacts c)(i \<mapsto>
             (if length workersID = 4 + 1 then drop 1 workersID else workersID))\<rparr>)"

definition OnJobComplete :: "WorkerID \<Rightarrow> ID \<Rightarrow> JobResult option \<Rightarrow> Scheduler \<Rightarrow> (bool \<times> Scheduler) go" where
  "OnJobComplete w i res c =
     go_bind (checkIsStop ''call `OnJobComplete` after stop scheduling'' c) (\<lambda>_.
       go_bind (complete_job i res c) (\<lambda>(exist, c1). Returns (exist, add_artifact w i c1)))"

definition RegisterWorker :: "WorkerID \<Rightarrow> Scheduler \<Rightarrow> Scheduler" where
  "RegisterWorker w c = c"

text \<open>
  \<open>Blocks\<close>: \<open>Push\<close> waits for room in the queue, and the call keeps \<open>jobsMu\<close> meanwhile, as the machine of
  \<open>Scheduler_Lock\<close> has it.
\<close>

definition ScheduleJob :: "JobSpec \<Rightarrow> Scheduler \<Rightarrow> (ptr \<times> Scheduler) go" where
  "ScheduleJob job c =
     go_bind (checkIsStop ''call `ScheduleJob` after stop scheduling'' c) (\<lambda>_.
       case jobs c (spec_ID job) of
         Some p \<Rightarrow> Returns (p, c)
       | None \<Rightarrow>
           (case Push (queue c) (fresh c) of
              None \<Rightarrow> Blocks
            | Some q \<Rightarrow>
                Returns (fresh c, c\<lparr>store := (store c)(fresh c := new_pending job None),
                  queue := q, jobs := (jobs c)(spec_ID job \<mapsto> fresh c), fresh := Suc (fresh c)\<rparr>)))"

text \<open>
  \<open>select\<close> takes a ready case; when the queue has an item and the context is done, either may be
  taken: \<open>prefer_job\<close> is the choice. A nil result is \<open>None\<close>.
\<close>

definition PickJob :: "bool \<Rightarrow> bool \<Rightarrow> Scheduler \<Rightarrow> (ptr option \<times> Scheduler) go" where
  "PickJob ctx_done prefer_job c =
     go_bind (checkIsStop ''call `PickingJob` after stop scheduling'' c) (\<lambda>_.
       case Pop (queue c) of
         Some (p, q) \<Rightarrow>
           if ctx_done \<and> \<not> prefer_job then Returns (None, c) else Returns (Some p, c\<lparr>queue := q\<rparr>)
       | None \<Rightarrow> if ctx_done then Returns (None, c) else Blocks)"

definition TryPickJob :: "bool \<Rightarrow> bool \<Rightarrow> Scheduler \<Rightarrow> ((ptr option \<times> bool) \<times> Scheduler) go" where
  "TryPickJob ctx_done prefer_job c =
     go_bind (checkIsStop ''call `TryPickingJob` after stop scheduling'' c) (\<lambda>_.
       case Pop (queue c) of
         Some (p, q) \<Rightarrow>
           if ctx_done \<and> \<not> prefer_job then Returns ((None, True), c)
           else Returns ((Some p, True), c\<lparr>queue := q\<rparr>)
       | None \<Rightarrow> Returns ((None, ctx_done), c))"

definition Scheduler_Stop :: "Scheduler \<Rightarrow> Scheduler go" where
  "Scheduler_Stop c =
     (if isStop c then Panics ''close of closed channel'' else Returns (c\<lparr>isStop := True\<rparr>))"

lemmas sched_ops = complete_job_def add_artifact_def OnJobComplete_def ScheduleJob_def
  PickJob_def TryPickJob_def LocateArtifact_def checkIsStop_def

section \<open>The concurrent system\<close>

text \<open>
  Goroutines of the coordinator call the scheduler concurrently; the steps are the parts that
  run under one lock. \<open>sc_scheduled\<close> and \<open>sc_picked\<close> record the jobs put into and taken from the
  queue, \<open>sc_adding\<close> the calls of \<open>OnJobComplete\<close> between their two parts, \<open>sc_added\<close> the
  completed second parts. A call of \<open>ScheduleJob\<close> that waits for room has not happened yet here; the
  machine of \<open>Scheduler_Lock\<close>, in which it keeps the other calls out, has fewer runs.
\<close>

datatype sched_act =
    ActSchedule JobSpec
  | ActPick
  | ActComplete WorkerID ID "JobResult option"
  | ActAdd WorkerID ID

record sched_sys =
  sc_sched :: Scheduler
  sc_scheduled :: "ptr list"
  sc_picked :: "ptr list"
  sc_adding :: "(WorkerID \<times> ID) multiset"
  sc_added :: "(WorkerID \<times> ID) list"

fun sched_step :: "sched_sys \<Rightarrow> sched_act \<Rightarrow> sched_sys option" where
  "sched_step s (ActSchedule job) =
     (case ScheduleJob job (sc_sched s) of
        Returns (p, c) \<Rightarrow> Some (s\<lparr>sc_sched := c,
          sc_scheduled := sc_scheduled s @
            (if jobs (sc_sched s) (spec_ID job) = None then [p] else [])\<rparr>)
      | _ \<Rightarrow> None)"
| "sched_step s ActPick =
     (case PickJob False True (sc_sched s) of
        Returns (Some p, c) \<Rightarrow> Some (s\<lparr>sc_sched := c, sc_picked := sc_picked s @ [p]\<rparr>)
      | _ \<Rightarrow> None)"
| "sched_step s (ActComplete w i res) =
     (if isStop (sc_sched s) then None
      else case complete_job i res (sc_sched s) of
        Returns (e, c) \<Rightarrow> Some (s\<lparr>sc_sched := c, sc_adding := add_mset (w, i) (sc_adding s)\<rparr>)
      | _ \<Rightarrow> None)"
| "sched_step s (ActAdd w i) =
     (if (w, i) \<in># sc_adding s
      then Some (s\<lparr>sc_sched := add_artifact w i (sc_sched s),
                  sc_adding := sc_adding s - {#(w, i)#}, sc_added := sc_added s @ [(w, i)]\<rparr>)
      else None)"

definition sched_fresh :: sched_sys where
  "sched_fresh = \<lparr>sc_sched = NewScheduler, sc_scheduled = [], sc_picked = [],
     sc_adding = {#}, sc_added = []\<rparr>"

text \<open>The specification of the artifact table: the last four workers that reported a job.\<close>

definition reporters :: "ID \<Rightarrow> (WorkerID \<times> ID) list \<Rightarrow> WorkerID list" where
  "reporters i as = map fst (filter (\<lambda>a. snd a = i) as)"

definition recent_reporters :: "ID \<Rightarrow> (WorkerID \<times> ID) list \<Rightarrow> WorkerID list option" where
  "recent_reporters i as = (if reporters i as = [] then None else Some (lastn 4 (reporters i as)))"

definition jobs_ok :: "Scheduler \<Rightarrow> bool" where
  [inv_defs]: "jobs_ok c \<longleftrightarrow> (\<forall>i p. jobs c i = Some p \<longrightarrow> p < fresh c \<and>
     spec_ID (pj_Job (store c p)) = i \<and> isCloseFinished (store c p) = Finished (store c p))"

definition queue_ok :: "ptr list \<Rightarrow> ptr list \<Rightarrow> Scheduler \<Rightarrow> bool" where
  [inv_defs]: "queue_ok sch pk c \<longleftrightarrow> sch = pk @ channal (queue c) \<and>
     distinct (pk @ channal (queue c)) \<and> (\<forall>p \<in> set (pk @ channal (queue c)). jobs c (spec_ID (pj_Job (store c p))) = Some p)"

definition located_ok :: "(WorkerID \<times> ID) multiset \<Rightarrow> Scheduler \<Rightarrow> bool" where
  [inv_defs]: "located_ok ad c \<longleftrightarrow> (\<forall>i p. jobs c i = Some p \<longrightarrow> Finished (store c p) \<longrightarrow>
        artifacts c i \<noteq> None \<or> i \<in> snd ` set_mset ad)"

definition sched_inv :: "sched_sys \<Rightarrow> bool" where
  "sched_inv s \<longleftrightarrow> jobs_ok (sc_sched s) \<and>
     queue_ok (sc_scheduled s) (sc_picked s) (sc_sched s) \<and>
     located_ok (sc_adding s) (sc_sched s) \<and>
     artifacts (sc_sched s) = (\<lambda>i. recent_reporters i (sc_added s))"

lemma spec_ID_empty [simp]: "spec_ID (empty_spec i) = i"
  by (simp add: spec_ID_def empty_spec_def)

lemma reporters_snoc [simp]:
  "reporters i (as @ [(w, j)]) = reporters i as @ (if i = j then [w] else [])"
  by (simp add: reporters_def)

lemma recent_reporters_snoc:
  "recent_reporters i (as @ [(w, j)]) =
     (if i = j then Some (lastn 4 ((case recent_reporters i as of None \<Rightarrow> [] | Some ws \<Rightarrow> ws) @ [w]))
      else recent_reporters i as)"
  by (simp add: recent_reporters_def lastn_lastn_snoc)

lemma lastn_5: "length xs \<le> 5 \<Longrightarrow> (if length xs = 5 then drop 1 xs else xs) = lastn 4 xs"
  by (auto simp: lastn_def)

lemma lastn_4_Nil [simp]: "lastn 4 xs = [] \<longleftrightarrow> xs = []"
  by (cases xs) (auto simp: lastn_def)

lemma recent_reporters_length: "recent_reporters i as = Some ws \<Longrightarrow> ws \<noteq> [] \<and> length ws \<le> 4"
  by (auto simp: recent_reporters_def split: if_splits)

lemma add_artifact_recent:
  assumes "artifacts c = (\<lambda>i. recent_reporters i as)"
  shows "artifacts (add_artifact w j c) = (\<lambda>i. recent_reporters i (as @ [(w, j)]))"
proof
  fix i
  let ?ws = "(case recent_reporters j as of None \<Rightarrow> [] | Some ws \<Rightarrow> ws) @ [w]"
  have "length ?ws \<le> 5"
    by (auto dest: recent_reporters_length split: option.split)
  from lastn_5 [OF this] show "artifacts (add_artifact w j c) i = recent_reporters i (as @ [(w, j)])"
    by (simp add: add_artifact_def Let_def assms recent_reporters_snoc)
qed

lemma add_artifact_frame [simp]:
  "jobs (add_artifact w i c) = jobs c" "queue (add_artifact w i c) = queue c"
  "store (add_artifact w i c) = store c" "fresh (add_artifact w i c) = fresh c"
  "isStop (add_artifact w i c) = isStop c"
  by (simp_all add: add_artifact_def Let_def)

text \<open>What the operations do to the table, case by case.\<close>

lemma ScheduleJob_cases:
  assumes "ScheduleJob job c = Returns (p, c')"
  obtains (known) "jobs c (spec_ID job) = Some p" "c' = c" "\<not> isStop c"
  | (queued) q where "jobs c (spec_ID job) = None" "p = fresh c" "\<not> isStop c"
      "channal q = channal (queue c) @ [fresh c]"
      "c' = c\<lparr>store := (store c)(fresh c := new_pending job None), queue := q,
             jobs := (jobs c)(spec_ID job \<mapsto> fresh c), fresh := Suc (fresh c)\<rparr>"
  using assms
  by (auto simp: ScheduleJob_def checkIsStop_def dest: cq.push_Some split: option.splits if_splits)

lemma ScheduleJob_room:
  "ScheduleJob js c = Returns (p, c') \<Longrightarrow> jobs c (spec_ID js) = None \<Longrightarrow>
     length (channal (queue c)) < queue_capacity"
  by (auto simp: ScheduleJob_def checkIsStop_def dest: cq.push_Some split: option.splits if_splits)

lemma complete_job_cases:
  assumes "jobs_ok c"
  obtains (first) p where "jobs c i = Some p" "\<not> Finished (store c p)"
      "complete_job i res c = Returns (True, c\<lparr>store := (store c)(p := (store c p)
         \<lparr>isCloseFinished := True, Result := res, Finished := True\<rparr>)\<rparr>)"
  | (again) p where "jobs c i = Some p" "Finished (store c p)" "complete_job i res c = Returns (True, c)"
  | (unknown) "jobs c i = None"
      "complete_job i res c = Returns (False, c\<lparr>store := (store c)(fresh c :=
           \<lparr>pj_Job = empty_spec i, Finished = True, Result = res, isCloseFinished = True\<rparr>),
         jobs := (jobs c)(i \<mapsto> fresh c), fresh := Suc (fresh c)\<rparr>)"
proof (cases "jobs c i")
  case None
  then show ?thesis
    by (intro unknown) (simp_all add: complete_job_def new_pending_def Let_def)
next
  case (Some p)
  with assms have "isCloseFinished (store c p) = Finished (store c p)"
    by (simp add: jobs_ok_def)
  with Some first again show ?thesis
    by (cases "Finished (store c p)") (auto simp: complete_job_def Let_def)
qed

lemma sched_inv_fresh: "s = sched_fresh \<Longrightarrow> sched_inv s"
  by (simp add: sched_inv_def inv_defs sched_fresh_def NewScheduler_def newChanQueue_def
      recent_reporters_def reporters_def)

text \<open>A new entry of the table, queued or not, keeps the invariant.\<close>

lemma fresh_not_scheduled: "jobs_ok c \<Longrightarrow> queue_ok sch pk c \<Longrightarrow> fresh c \<notin> set sch"
  unfolding jobs_ok_def queue_ok_def by (metis less_irrefl)

lemma new_entry_ok:
  assumes ok: "jobs_ok c" "queue_ok sch pk c" "located_ok ad c" and new: "jobs c i = None"
    and pj: "spec_ID (pj_Job pj) = i" "isCloseFinished pj = Finished pj"
    and c': "c' = c\<lparr>store := (store c)(fresh c := pj), queue := q, jobs := (jobs c)(i \<mapsto> fresh c),
      fresh := Suc (fresh c)\<rparr>"
  shows "jobs_ok c'"
    and "channal q = channal (queue c) \<Longrightarrow> queue_ok sch pk c'"
    and "channal q = channal (queue c) @ [fresh c] \<Longrightarrow> queue_ok (sch @ [fresh c]) pk c'"
    and "\<not> Finished pj \<or> i \<in> snd ` set_mset ad' \<Longrightarrow> ad \<subseteq># ad' \<Longrightarrow> located_ok ad' c'"
proof -
  have old: "j \<noteq> i" "p \<noteq> fresh c" if "jobs c j = Some p" for j p
    using that ok(1) new by (auto simp: jobs_ok_def)
  show "jobs_ok c'"
    using ok(1) pj old by (auto simp: jobs_ok_def c' less_SucI)
  note fresh = fresh_not_scheduled [OF ok(1,2)]
  then have table: "\<forall>p \<in> set sch. p \<noteq> fresh c \<and> spec_ID (pj_Job (store c p)) \<noteq> i \<and>
      jobs c (spec_ID (pj_Job (store c p))) = Some p"
    using ok(2) new by (auto simp: queue_ok_def)
  with fresh ok(2) pj(1) show "channal q = channal (queue c) \<Longrightarrow> queue_ok sch pk c'"
    and "channal q = channal (queue c) @ [fresh c] \<Longrightarrow> queue_ok (sch @ [fresh c]) pk c'"
    by (simp_all add: queue_ok_def c')
  show "located_ok ad' c'" if "\<not> Finished pj \<or> i \<in> snd ` set_mset ad'" "ad \<subseteq># ad'"
    unfolding located_ok_def
  proof (intro allI impI)
    fix j p assume jp: "jobs c' j = Some p" "Finished (store c' p)"
    show "artifacts c' j \<noteq> None \<or> j \<in> snd ` set_mset ad'"
    proof (cases "j = i")
      case True
      with jp that(1) show ?thesis by (auto simp: c')
    next
      case False
      with jp(1) have "jobs c j = Some p" by (simp add: c')
      with jp(2) old have "jobs c j = Some p" "Finished (store c p)" by (auto simp: c')
      with ok(3) have "artifacts c j \<noteq> None \<or> j \<in> snd ` set_mset ad"
        by (simp add: located_ok_def)
      with image_mono [OF set_mset_mono [OF that(2)], of snd] show ?thesis
        by (auto simp: c')
    qed
  qed
qed

lemma queue_frame [simp]:
  "jobs_ok (c\<lparr>queue := q\<rparr>) = jobs_ok c" "located_ok ad (c\<lparr>queue := q\<rparr>) = located_ok ad c"
  by (simp_all add: jobs_ok_def located_ok_def)

lemma located_ok_more: "located_ok ad c \<Longrightarrow> ad \<subseteq># ad' \<Longrightarrow> located_ok ad' c"
  unfolding located_ok_def using set_mset_mono by blast

lemma finish_entry_ok:
  assumes ok: "jobs_ok c" "queue_ok sch pk c" "located_ok ad c" and p: "jobs c i = Some p"
    and c': "c' = c\<lparr>store := (store c)(p :=
      (store c p)\<lparr>isCloseFinished := True, Result := res, Finished := True\<rparr>)\<rparr>"
  shows "jobs_ok c'" "queue_ok sch pk c'" "located_ok (add_mset (w, i) ad) c'"
proof -
  show "jobs_ok c'" "queue_ok sch pk c'"
    using ok(1,2) by (simp_all add: jobs_ok_def queue_ok_def c')
  have "j = i" if "jobs c j = Some p" for j
    using that p ok(1) by (auto simp: jobs_ok_def)
  with ok(3) show "located_ok (add_mset (w, i) ad) c'"
    by (fastforce simp: located_ok_def c')
qed

lemma sched_inv_Schedule:
  assumes inv: "sched_inv s" and step: "sched_step s (ActSchedule job) = Some t"
  shows "sched_inv t"
proof -
  from step obtain p c where call: "ScheduleJob job (sc_sched s) = Returns (p, c)"
    and t: "t = s\<lparr>sc_sched := c, sc_scheduled := sc_scheduled s @
            (if jobs (sc_sched s) (spec_ID job) = None then [p] else [])\<rparr>"
    by (auto split: go.splits prod.splits)
  from call show ?thesis
  proof (cases rule: ScheduleJob_cases)
    case known
    with inv t show ?thesis by (simp add: sched_inv_def)
  next
    case (queued q)
    with inv t show ?thesis
      using new_entry_ok [OF _ _ _ queued(1) _ _ queued(5), of "sc_scheduled s" "sc_picked s" "sc_adding s"]
      by (simp add: sched_inv_def new_pending_def)
  qed
qed

lemma sched_inv_Pick:
  assumes inv: "sched_inv s" and step: "sched_step s ActPick = Some t"
  shows "sched_inv t"
proof -
  from step obtain p q where "Pop (queue (sc_sched s)) = Some (p, q)"
    and t: "t = s\<lparr>sc_sched := (sc_sched s)\<lparr>queue := q\<rparr>, sc_picked := sc_picked s @ [p]\<rparr>"
    by (auto simp: PickJob_def checkIsStop_def split: go.splits option.splits if_splits prod.splits)
  from cq.pop_Some [OF this(1)] inv show ?thesis
    by (simp add: t sched_inv_def queue_ok_def)
qed

lemma sched_inv_Complete:
  assumes inv: "sched_inv s" and step: "sched_step s (ActComplete w i res) = Some t"
  shows "sched_inv t"
proof -
  from step obtain e c where call: "complete_job i res (sc_sched s) = Returns (e, c)"
    and t: "t = s\<lparr>sc_sched := c, sc_adding := add_mset (w, i) (sc_adding s)\<rparr>"
    by (auto split: go.splits prod.splits if_splits)
  from inv have ok: "jobs_ok (sc_sched s)" "queue_ok (sc_scheduled s) (sc_picked s) (sc_sched s)"
      "located_ok (sc_adding s) (sc_sched s)"
    by (simp_all add: sched_inv_def)
  from ok(1) show ?thesis
  proof (cases rule: complete_job_cases [of _ i res])
    case (first p)
    with call t inv finish_entry_ok [OF ok first(1) refl] show ?thesis
      by (auto simp: sched_inv_def)
  next
    case (again p)
    with call t inv located_ok_more [OF ok(3)] show ?thesis
      by (auto simp: sched_inv_def)
  next
    case unknown
    with call t inv show ?thesis
      using new_entry_ok [OF ok unknown(1), of
          "\<lparr>pj_Job = empty_spec i, Finished = True, Result = res, isCloseFinished = True\<rparr>"
          c "queue (sc_sched s)"]
      by (auto simp: sched_inv_def)
  qed
qed

lemma sched_inv_Add:
  assumes inv: "sched_inv s" and step: "sched_step s (ActAdd w i) = Some t"
  shows "sched_inv t"
proof -
  from step have t: "t = s\<lparr>sc_sched := add_artifact w i (sc_sched s),
      sc_adding := sc_adding s - {#(w, i)#}, sc_added := sc_added s @ [(w, i)]\<rparr>"
    by (auto split: if_splits)
  from inv have hist: "artifacts (sc_sched s) = (\<lambda>i. recent_reporters i (sc_added s))"
    by (simp add: sched_inv_def)
  note artifacts = add_artifact_recent [OF this]
  have keep: "j \<in> snd ` set_mset (ad - {#(w, i)#})" if "j \<in> snd ` set_mset ad" "j \<noteq> i" for j ad
    using that by (force simp: in_diff_count)
  have "located_ok (sc_adding t) (sc_sched t)"
    using inv keep
    by (simp add: t sched_inv_def located_ok_def artifacts hist recent_reporters_snoc) blast
  with inv show ?thesis
    by (simp add: sched_inv_def jobs_ok_def queue_ok_def t artifacts)
qed

lemma sched_inv_step: "sched_inv s \<Longrightarrow> sched_step s a = Some t \<Longrightarrow> sched_inv t"
  using sched_inv_Schedule sched_inv_Pick sched_inv_Complete sched_inv_Add by (cases a) blast+

interpretation sc: invariant_machine sched_step "\<lambda>s. s = sched_fresh" sched_inv
  by unfold_locales (fact sched_inv_fresh sched_inv_step)+

text \<open>Entries stay in the table under their address, and a finished entry does not change.\<close>

lemma sched_step_keeps:
  assumes inv: "sched_inv s" and step: "sched_step s a = Some t"
    and entry: "jobs (sc_sched s) i = Some p"
  shows "jobs (sc_sched t) i = Some p"
    and "Finished (store (sc_sched s) p) \<Longrightarrow> store (sc_sched t) p = store (sc_sched s) p"
    and "pj_Job (store (sc_sched t) p) = pj_Job (store (sc_sched s) p)"
proof -
  from inv have ok: "jobs_ok (sc_sched s)" by (simp add: sched_inv_def)
  with entry have p: "p < fresh (sc_sched s)" by (auto simp: jobs_ok_def)
  have "jobs (sc_sched t) i = Some p \<and>
    (Finished (store (sc_sched s) p) \<longrightarrow> store (sc_sched t) p = store (sc_sched s) p) \<and>
    pj_Job (store (sc_sched t) p) = pj_Job (store (sc_sched s) p)"
  proof (cases a)
    case (ActSchedule job)
    with step entry p show ?thesis
      by (auto split: go.splits prod.splits elim!: ScheduleJob_cases)
  next
    case ActPick
    with step entry show ?thesis
      by (auto simp: PickJob_def checkIsStop_def split: go.splits option.splits if_splits prod.splits)
  next
    case (ActComplete w j res)
    with step entry p show ?thesis
      by (cases rule: complete_job_cases [OF ok, of j res]) (auto split: if_splits)
  next
    case (ActAdd w j)
    with step entry show ?thesis by (auto split: if_splits)
  qed
  then show "jobs (sc_sched t) i = Some p"
    and "Finished (store (sc_sched s) p) \<Longrightarrow> store (sc_sched t) p = store (sc_sched s) p"
    and "pj_Job (store (sc_sched t) p) = pj_Job (store (sc_sched s) p)"
    by simp_all
qed

section \<open>Properties\<close>

text \<open>
  Whatever the interleaving of scheduler calls, the jobs handed to workers followed by the
  jobs still queued are the scheduled jobs in the order they were scheduled, and no two of them
  have the same job identifier: every job is handed out at most once.
\<close>

theorem Scheduler_fifo_exactly_once:
  assumes "run sched_step sched_fresh as = Some t"
  shows "sc_scheduled t = sc_picked t @ channal (queue (sc_sched t)) \<and>
    distinct (map (\<lambda>p. spec_ID (pj_Job (store (sc_sched t) p))) (sc_scheduled t))"
proof -
  from sc.reachable_inv [OF refl assms]
  have ok: "queue_ok (sc_scheduled t) (sc_picked t) (sc_sched t)"
    by (simp add: sched_inv_def)
  then have "inj_on (\<lambda>p. spec_ID (pj_Job (store (sc_sched t) p))) (set (sc_scheduled t))"
    unfolding queue_ok_def by (intro inj_onI) (metis option.inject)
  with ok show ?thesis
    by (simp only: queue_ok_def distinct_map)
qed

definition demo_spec :: JobSpec where
  "demo_spec = empty_spec ID_zero"

theorem Scheduler_fifo_exactly_once_witness:
  "\<exists>t. run sched_step sched_fresh [ActSchedule demo_spec, ActSchedule demo_spec, ActPick] = Some t \<and>
    sc_picked t = [0] \<and> sc_scheduled t = sc_picked t @ channal (queue (sc_sched t))"
proof -
  have "\<exists>t. run sched_step sched_fresh [ActSchedule demo_spec, ActSchedule demo_spec, ActPick] = Some t \<and>
    sc_picked t = [0]"
    by (simp add: sched_fresh_def NewScheduler_def newChanQueue_def ScheduleJob_def PickJob_def
        checkIsStop_def Push_def Pop_def queue_capacity_def)
  then show ?thesis
    using Scheduler_fifo_exactly_once by blast
qed

text \<open>
  The first result of a job is final: once a job is finished, no later interleaving of
  scheduler calls changes its entry, its specification or its result.
\<close>

theorem Scheduler_result_final:
  assumes "run sched_step sched_fresh as = Some t"
    and "jobs (sc_sched t) i = Some p" "Finished (store (sc_sched t) p)"
    and "run sched_step t bs = Some u"
  shows "jobs (sc_sched u) i = Some p \<and> store (sc_sched u) p = store (sc_sched t) p"
proof -
  let ?P = "\<lambda>s. jobs (sc_sched s) i = Some p \<and> store (sc_sched s) p = store (sc_sched t) p"
  have "?P v" if "sched_inv s" "sched_step s a = Some v" "?P s" for s a v
    using sched_step_keeps [OF that(1,2), of i p] that(3) assms(3) by simp
  from sc.run_stable [of "\<lambda>_. True" ?P, OF this sc.reachable_inv [OF refl assms(1)] assms(4)]
  show ?thesis using assms(2) by simp
qed

lemma sched_demo_finished:
  "\<exists>t. run sched_step sched_fresh [ActSchedule js, ActPick, ActComplete w (spec_ID js) res] = Some t \<and>
    jobs (sc_sched t) (spec_ID js) = Some 0 \<and> Finished (store (sc_sched t) 0) \<and>
    Result (store (sc_sched t) 0) = res \<and> (w, spec_ID js) \<in># sc_adding t \<and>
    \<not> isStop (sc_sched t) \<and> artifacts (sc_sched t) (spec_ID js) = None"
  by (simp add: sched_fresh_def NewScheduler_def newChanQueue_def ScheduleJob_def PickJob_def
      checkIsStop_def Push_def Pop_def queue_capacity_def complete_job_def new_pending_def Let_def)

theorem Scheduler_result_final_witness:
  "\<exists>t u. run sched_step sched_fresh [ActSchedule demo_spec, ActPick, ActComplete ''w'' (spec_ID demo_spec) None] = Some t \<and>
    run sched_step t [ActAdd ''w'' (spec_ID demo_spec)] = Some u \<and>
    store (sc_sched u) 0 = store (sc_sched t) 0"
proof -
  obtain t where t: "run sched_step sched_fresh
      [ActSchedule demo_spec, ActPick, ActComplete ''w'' (spec_ID demo_spec) None] = Some t"
    and fin: "jobs (sc_sched t) (spec_ID demo_spec) = Some 0" "Finished (store (sc_sched t) 0)"
    and ad: "(''w'', spec_ID demo_spec) \<in># sc_adding t"
    using sched_demo_finished [of demo_spec "''w''" None] by blast
  from ad obtain u where u: "run sched_step t [ActAdd ''w'' (spec_ID demo_spec)] = Some u"
    by simp
  with Scheduler_result_final [OF t fin u] t show ?thesis by blast
qed

text \<open>
  \<open>LocateArtifact\<close> answers exactly from the last four workers that reported the job: not
  found when none has, otherwise one of those four, whichever index is drawn.
\<close>

theorem LocateArtifact_recent:
  assumes "run sched_step sched_fresh as = Some t" "\<not> isStop (sc_sched t)"
  shows "LocateArtifact r i (sc_sched t) = Returns
     (let ws = lastn 4 (reporters i (sc_added t))
      in if ws = [] then ('''', False) else (ws ! (r mod length ws), True))"
proof -
  from sc.reachable_inv [OF refl assms(1)]
  have "artifacts (sc_sched t) i = recent_reporters i (sc_added t)"
    by (simp add: sched_inv_def)
  with assms(2) lastn_4_Nil [of "reporters i (sc_added t)"] show ?thesis
    by (cases "reporters i (sc_added t) = []")
      (simp_all add: LocateArtifact_def checkIsStop_def recent_reporters_def Let_def del: lastn_4_Nil)
qed

theorem LocateArtifact_recent_witness:
  "\<exists>t. run sched_step sched_fresh [ActComplete ''a'' ID_zero None, ActAdd ''a'' ID_zero,
       ActComplete ''b'' ID_zero None, ActAdd ''b'' ID_zero] = Some t \<and>
     LocateArtifact 3 ID_zero (sc_sched t) = Returns (''b'', True)"
proof -
  have "\<exists>t. run sched_step sched_fresh [ActComplete ''a'' ID_zero None, ActAdd ''a'' ID_zero,
       ActComplete ''b'' ID_zero None, ActAdd ''b'' ID_zero] = Some t \<and> \<not> isStop (sc_sched t) \<and>
     sc_added t = [(''a'', ID_zero), (''b'', ID_zero)]"
    by (simp add: sched_fresh_def NewScheduler_def complete_job_def new_pending_def Let_def)
  then obtain t where t: "run sched_step sched_fresh [ActComplete ''a'' ID_zero None, ActAdd ''a'' ID_zero,
       ActComplete ''b'' ID_zero None, ActAdd ''b'' ID_zero] = Some t" "\<not> isStop (sc_sched t)"
     and added: "sc_added t = [(''a'', ID_zero), (''b'', ID_zero)]"
    by blast
  have "LocateArtifact 3 ID_zero (sc_sched t) = Returns (''b'', True)"
    using LocateArtifact_recent [OF t, of 3 ID_zero]
    by (simp add: added reporters_def Let_def) (simp add: numeral_2_eq_2 [symmetric])
  with t(1) show ?thesis by blast
qed

text \<open>
  \<open>OnJobComplete\<close> never closes a channel twice: on every reachable scheduler it returns,
  tells whether the job was known, leaves the job finished and records the worker as the newest
  holder of the artifact.
\<close>

theorem OnJobComplete_total:
  assumes "run sched_step sched_fresh as = Some t" "\<not> isStop (sc_sched t)"
  shows "\<exists>c p ws. OnJobComplete w i res (sc_sched t) = Returns (jobs (sc_sched t) i \<noteq> None, c) \<and>
    jobs c i = Some p \<and> Finished (store c p) \<and> artifacts c i = Some ws \<and> last ws = w"
proof -
  from sc.reachable_inv [OF refl assms(1)] have ok: "jobs_ok (sc_sched t)"
    by (simp add: sched_inv_def)
  have add: "\<exists>ws. artifacts (add_artifact w i c) i = Some ws \<and> last ws = w" for c
    by (auto simp: add_artifact_def Let_def)
  from ok show ?thesis
  proof (cases rule: complete_job_cases [of _ i res])
    case (first p)
    then show ?thesis
      using assms(2) add by (simp add: OnJobComplete_def checkIsStop_def)
  next
    case (again p)
    then show ?thesis
      using assms(2) add by (simp add: OnJobComplete_def checkIsStop_def)
  next
    case unknown
    then show ?thesis
      using assms(2) add by (simp add: OnJobComplete_def checkIsStop_def)
  qed
qed

theorem OnJobComplete_total_witness:
  "\<exists>c p ws. OnJobComplete ''w'' ID_zero None NewScheduler = Returns (False, c) \<and>
    jobs c ID_zero = Some p \<and> Finished (store c p) \<and> artifacts c ID_zero = Some ws \<and> last ws = ''w''"
  using OnJobComplete_total [of "[]" sched_fresh "''w''" ID_zero None]
  by (simp add: sched_fresh_def NewScheduler_def)

text \<open>
  C16. A finished job whose reports are all recorded can be located: \<open>LocateArtifact\<close> finds a
  worker that reported it.
\<close>

theorem finished_job_located:
  assumes "run sched_step sched_fresh as = Some t" "\<not> isStop (sc_sched t)"
    and "jobs (sc_sched t) i = Some p" "Finished (store (sc_sched t) p)"
    and "\<forall>w. (w, i) \<notin># sc_adding t"
  shows "\<exists>w. LocateArtifact r i (sc_sched t) = Returns (w, True) \<and> (w, i) \<in> set (sc_added t)"
proof -
  from sc.reachable_inv [OF refl assms(1)] assms(3-5)
  obtain ws where "artifacts (sc_sched t) i = Some ws" and "recent_reporters i (sc_added t) = Some ws"
    by (force simp: sched_inv_def located_ok_def)
  moreover from this recent_reporters_length have "ws \<noteq> []"
    by blast
  moreover have "(w, i) \<in> set (sc_added t)" if "w \<in> set ws" for w
    using that \<open>recent_reporters i (sc_added t) = Some ws\<close> set_lastn [of 4 "reporters i (sc_added t)"]
    by (auto simp: recent_reporters_def reporters_def split: if_splits)
  ultimately show ?thesis
    using assms(2) by (simp add: LocateArtifact_def checkIsStop_def)
qed

theorem finished_job_located_witness:
  "\<exists>t. run sched_step sched_fresh [ActComplete ''a'' ID_zero None, ActAdd ''a'' ID_zero] = Some t \<and>
     (\<exists>w. LocateArtifact 0 ID_zero (sc_sched t) = Returns (w, True) \<and> (w, ID_zero) \<in> set (sc_added t))"
proof -
  have "\<exists>t. run sched_step sched_fresh [ActComplete ''a'' ID_zero None, ActAdd ''a'' ID_zero] = Some t \<and>
     \<not> isStop (sc_sched t) \<and> jobs (sc_sched t) ID_zero = Some 0 \<and>
     Finished (store (sc_sched t) 0) \<and> sc_adding t = {#}"
    by (simp add: sched_fresh_def NewScheduler_def complete_job_def new_pending_def Let_def)
  then show ?thesis
    using finished_job_located [of _ _ ID_zero 0 0] by fastforce
qed

text \<open>
  Between the two parts of \<open>OnJobComplete\<close> the scheduler announces a finished job whose
  artifact it cannot locate: for every job, worker and result there is a reachable state with
  the job's \<open>Finished\<close> channel closed in which \<open>LocateArtifact\<close> answers that it does not exist.
\<close>

theorem finished_before_located:
  "\<exists>t p. run sched_step sched_fresh [ActSchedule js, ActPick, ActComplete w (spec_ID js) res] = Some t \<and>
    jobs (sc_sched t) (spec_ID js) = Some p \<and> Finished (store (sc_sched t) p) \<and>
    LocateArtifact r (spec_ID js) (sc_sched t) = Returns ('''', False)"
  using sched_demo_finished [of js w res]
  by (auto simp: LocateArtifact_def checkIsStop_def)

text \<open>
  Scheduling a job again, under any specification with the same identifier, returns the
  entry of the first call and changes nothing.
\<close>

theorem ScheduleJob_idempotent:
  assumes "ScheduleJob job c = Returns (p, c1)" "spec_ID job' = spec_ID job"
  shows "ScheduleJob job' c1 = Returns (p, c1)"
  using assms(1)
proof (cases rule: ScheduleJob_cases)
  case known
  with assms(2) show ?thesis by (simp add: ScheduleJob_def checkIsStop_def)
next
  case (queued q)
  with assms(2) show ?thesis by (simp add: ScheduleJob_def checkIsStop_def)
qed

theorem ScheduleJob_idempotent_witness:
  "\<exists>c. ScheduleJob demo_spec NewScheduler = Returns (0, c) \<and> ScheduleJob demo_spec c = Returns (0, c)"
proof -
  have "\<exists>c. ScheduleJob demo_spec NewScheduler = Returns (0, c)"
    by (simp add: NewScheduler_def newChanQueue_def ScheduleJob_def checkIsStop_def Push_def
        queue_capacity_def)
  then show ?thesis
    using ScheduleJob_idempotent by blast
qed

end
