(* ===== verification/Status_Stream.thy ===== *)
theory Status_Stream
  imports Api_Types Http
begin

text \<open>
  Package \<open>api\<close>: the stream of build messages. \<open>status_writer.go\<close> writes it on the coordinator,
  \<open>status_reader.go\<close> and \<open>build_client.go\<close> read it on the client, \<open>build_handler.go\<close> serves it
  and the signals. A message is what one JSON document carries; JSON text itself is not
  modelled. The writer's methods hold its mutex, so each is one atomic step.
\<close>

section \<open>Messages\<close>

datatype message = MsgStarted BuildStarted | MsgUpdate StatusUpdate

definition no_update :: StatusUpdate where
  "no_update = \<lparr>JobFinished = None, BuildFailed = None, BuildFinished = False\<rparr>"

definition failed_update :: "string \<Rightarrow> StatusUpdate" where
  "failed_update e = no_update\<lparr>BuildFailed := Some e\<rparr>"

section \<open>The writer\<close>

datatype sw_error =
    StartedTwice            \<comment> \<open>started message already sent\<close>
  | NotYetStarted           \<comment> \<open>started message not sent\<close>
  | WriteFailed string
  | FlushFailed string

text \<open>
  \<open>sw_out\<close> is what the calls have written; \<open>sw_cut\<close> is how much of it had been written when
  the HTTP handler returned, once it has. The server then ends the response: the rest never
  reaches the client (\<open>net/http\<close> does not allow a \<open>ResponseWriter\<close> to be used any more; such a call
  may report an error or none).
\<close>

record streamStatusWriter =
  startMsgSend :: bool
  sw_done :: bool
  sw_out :: "message list"
  sw_cut :: "nat option"

definition NewStatusWriter :: streamStatusWriter where
  "NewStatusWriter = \<lparr>startMsgSend = False, sw_done = False, sw_out = [], sw_cut = None\<rparr>"

text \<open>\<open>startBuildHandler\<close> returns from \<open><-done\<close>: the stream ends.\<close>

definition handler_returns :: "streamStatusWriter \<Rightarrow> streamStatusWriter option" where
  "handler_returns w =
     (if sw_done w \<and> sw_cut w = None then Some (w\<lparr>sw_cut := Some (length (sw_out w))\<rparr>) else None)"

definition delivered :: "streamStatusWriter \<Rightarrow> message list" where
  "delivered w = (case sw_cut w of None \<Rightarrow> sw_out w | Some n \<Rightarrow> take n (sw_out w))"

text \<open>The end has not been announced, and the handler waits for it.\<close>

definition writer_open :: "streamStatusWriter \<Rightarrow> bool" where
  "writer_open w \<longleftrightarrow> \<not> sw_done w \<and> sw_cut w = None"

lemma NewStatusWriter_simps [simp]:
  "writer_open NewStatusWriter" "\<not> startMsgSend NewStatusWriter" "sw_out NewStatusWriter = []"
  by (simp_all add: writer_open_def NewStatusWriter_def)

text \<open>The connection: the error of writing a message, and of flushing it, if any.\<close>

type_synonym conn = "string option \<times> string option"

definition send :: "conn \<Rightarrow> message \<Rightarrow> streamStatusWriter \<Rightarrow> sw_error option \<times> streamStatusWriter" where
  "send k msg s =
     (case fst k of
        Some e \<Rightarrow> (Some (WriteFailed e), s)
      | None \<Rightarrow>
          (map_option FlushFailed (snd k), s\<lparr>sw_out := sw_out s @ [msg]\<rparr>))"

definition Started :: "conn \<Rightarrow> BuildStarted \<Rightarrow> streamStatusWriter \<Rightarrow> sw_error option \<times> streamStatusWriter" where
  "Started k rsp s =
     (if startMsgSend s then (Some StartedTwice, s)
      else send k (MsgStarted rsp) (s\<lparr>startMsgSend := True\<rparr>))"

text \<open>Closing \<open>done\<close> a second time panics.\<close>

definition Updated :: "conn \<Rightarrow> StatusUpdate \<Rightarrow> streamStatusWriter \<Rightarrow> (sw_error option \<times> streamStatusWriter) go" where
  "Updated k update s =
     (if \<not> startMsgSend s then Returns (Some NotYetStarted, s)
      else case send k (MsgUpdate update) s of
        (Some e, s1) \<Rightarrow> Returns (Some e, s1)
      | (None, s1) \<Rightarrow>
          if BuildFinished update
          then (if sw_done s1 then Panics ''close of closed channel''
                else Returns (None, s1\<lparr>sw_done := True\<rparr>))
          else Returns (None, s1))"

lemmas status_ops = send_def Started_def Updated_def

lemma Started_open: "Started k b w = (e, w1) \<Longrightarrow> writer_open w1 = writer_open w"
  by (auto simp: status_ops writer_open_def split: if_splits option.splits)

section \<open>The contract of a status writer\<close>

text \<open>What the build service relies on: the messages go out in the order of the calls.\<close>

locale status_writer =
  fixes out :: "'w \<Rightarrow> message list"
    and opened :: "'w \<Rightarrow> bool"
    and finished :: "'w \<Rightarrow> bool"
    and started :: "BuildStarted \<Rightarrow> 'w \<Rightarrow> 'e option \<times> 'w"
    and updated :: "StatusUpdate \<Rightarrow> 'w \<Rightarrow> ('e option \<times> 'w) go"
  assumes started_ok: "\<not> opened w \<Longrightarrow> \<exists>w'. started b w = (None, w') \<and> opened w' \<and>
      out w' = out w @ [MsgStarted b] \<and> finished w' = finished w"
    and updated_ok: "opened w \<Longrightarrow> \<not> (BuildFinished u \<and> finished w) \<Longrightarrow>
      \<exists>w'. updated u w = Returns (None, w') \<and> opened w' \<and> out w' = out w @ [MsgUpdate u] \<and>
        finished w' = (finished w \<or> BuildFinished u)"
    and updated_closed: "\<not> opened w \<Longrightarrow> \<exists>e. updated u w = Returns (Some e, w)"
begin

lemma started_then_updated:
  assumes "\<not> opened w" "\<not> finished w"
  obtains w1 w2 where "started b w = (None, w1)" "updated u w1 = Returns (None, w2)"
    "out w2 = out w @ [MsgStarted b, MsgUpdate u]" "finished w2 = BuildFinished u" "opened w2"
  using started_ok [OF assms(1), of b] updated_ok [of _ u] assms(2) by fastforce

lemma updated_last:
  "opened w \<Longrightarrow> \<not> finished w \<Longrightarrow> updated u w = Returns (e, w') \<Longrightarrow>
     e = None \<and> opened w' \<and> out w' = out w @ [MsgUpdate u] \<and> finished w' = BuildFinished u"
  using updated_ok [of w u] by auto

end

interpretation sw: status_writer sw_out startMsgSend sw_done "Started (None, None)" "Updated (None, None)"
  by unfold_locales (auto simp: status_ops)

section \<open>Reader and client\<close>

text \<open>
  A response body as it arrives: messages, then its end or an error. Decoding one kind of
  message into the other finds none of its fields and gives the zero value.
\<close>

record streamStatusReader =
  sr_rest :: "message list"
  sr_end :: "string option"

datatype next_result = Next_Update StatusUpdate | Next_EOF | Next_Err string

definition Next :: "streamStatusReader \<Rightarrow> next_result \<times> streamStatusReader" where
  "Next r =
     (case sr_rest r of
        [] \<Rightarrow> (case sr_end r of None \<Rightarrow> (Next_EOF, r) | Some e \<Rightarrow> (Next_Err e, r))
      | m # ms \<Rightarrow>
          (Next_Update (case m of MsgUpdate u \<Rightarrow> u | MsgStarted b \<Rightarrow> no_update), r\<lparr>sr_rest := ms\<rparr>))"

datatype api_error =
    ApiRequestFailed string
  | ApiSendFailed string
  | ApiReadBody string
  | ApiStatus nat bytes
  | ApiDecode string

record stream_response =
  st_status :: nat
  st_error :: body             \<comment> \<open>the body when the status is not 200\<close>
  st_stream :: streamStatusReader

text \<open>
  \<open>doRequest\<close>: encoding the request and building it can fail (\<open>bad\<close>), then the transport.
\<close>

definition doRequest :: "string option \<Rightarrow> ('rq \<Rightarrow> 's \<Rightarrow> (string + 'rs) \<times> 's) \<Rightarrow> 'rq \<Rightarrow> 's
    \<Rightarrow> (api_error + 'rs) \<times> 's" where
  "doRequest bad T rq s =
     (case bad of
        Some e \<Rightarrow> (Inl (ApiRequestFailed e), s)
      | None \<Rightarrow> (case T rq s of (Inl e, s1) \<Rightarrow> (Inl (ApiSendFailed e), s1) | (Inr rs, s1) \<Rightarrow> (Inr rs, s1)))"

definition status_error :: "nat \<Rightarrow> body \<Rightarrow> api_error" where
  "status_error code b = (case snd b of Some e \<Rightarrow> ApiReadBody e | None \<Rightarrow> ApiStatus code (body_bytes b))"

definition client_StartBuild :: "string option \<Rightarrow> (Graph \<Rightarrow> 's \<Rightarrow> (string + stream_response) \<times> 's) \<Rightarrow>
    BuildRequest \<Rightarrow> 's \<Rightarrow> (api_error + BuildStarted \<times> streamStatusReader) \<times> 's" where
  "client_StartBuild bad T request s =
     (case doRequest bad T (req_Graph request) s of
        (Inl e, s1) \<Rightarrow> (Inl e, s1)
      | (Inr rs, s1) \<Rightarrow>
          if st_status rs \<noteq> 200 then (Inl (status_error (st_status rs) (st_error rs)), s1)
          else
            (case sr_rest (st_stream rs) of
               [] \<Rightarrow> (Inl (ApiDecode (case sr_end (st_stream rs) of None \<Rightarrow> ''EOF'' | Some e \<Rightarrow> e)), s1)
             | m # ms \<Rightarrow>
                 (Inr (case m of MsgStarted b \<Rightarrow> b | MsgUpdate u \<Rightarrow> \<lparr>started_ID = ID_zero, MissingFiles = []\<rparr>,
                       (st_stream rs)\<lparr>sr_rest := ms\<rparr>), s1)))"

definition client_SignalBuild :: "string option \<Rightarrow> (ID \<times> SignalRequest \<Rightarrow> 's \<Rightarrow> (string + nat \<times> body) \<times> 's) \<Rightarrow>
    ID \<Rightarrow> SignalRequest \<Rightarrow> 's \<Rightarrow> api_error option \<times> 's" where
  "client_SignalBuild bad T buildID signal s =
     (case doRequest bad T (buildID, signal) s of
        (Inl e, s1) \<Rightarrow> (Some e, s1)
      | (Inr (code, b), s1) \<Rightarrow> if code = 200 then (None, s1) else (Some (status_error code b), s1))"

definition client_Heartbeat :: "string option \<Rightarrow> (HeartbeatRequest \<Rightarrow> 's \<Rightarrow> (string + nat \<times> body \<times> (string + HeartbeatResponse)) \<times> 's) \<Rightarrow>
    HeartbeatRequest \<Rightarrow> 's \<Rightarrow> (api_error + HeartbeatResponse) \<times> 's" where
  "client_Heartbeat bad T req s =
     (case doRequest bad T req s of
        (Inl e, s1) \<Rightarrow> (Inl e, s1)
      | (Inr (code, b, decoded), s1) \<Rightarrow>
          if code \<noteq> 200 then (Inl (status_error code b), s1)
          else (case decoded of Inl e \<Rightarrow> (Inl (ApiDecode e), s1) | Inr resp \<Rightarrow> (Inr resp, s1)))"

section \<open>Handlers\<close>

text \<open>
  \<open>startBuildHandler\<close> up to the point where it returns or waits for \<open>done\<close>. \<open>decoded\<close> is the
  result of decoding the body; the service gets the writer and returns it as it left it.
\<close>

datatype start_result =
    StartReply nat                           \<comment> \<open>an error response before the stream began\<close>
  | StartEnded streamStatusWriter            \<comment> \<open>returned after the stream began\<close>
  | StartWaiting streamStatusWriter          \<comment> \<open>waits until \<open>done\<close> is closed\<close>

definition startBuildHandler :: "conn \<Rightarrow> (BuildRequest \<Rightarrow> streamStatusWriter \<Rightarrow> 's \<Rightarrow> (string option \<times> streamStatusWriter \<times> 's) go) \<Rightarrow>
    string + Graph \<Rightarrow> 's \<Rightarrow> (start_result \<times> 's) go" where
  "startBuildHandler k StartBuild decoded s =
     (case decoded of
        Inl e \<Rightarrow> Returns (StartReply 400, s)
      | Inr g \<Rightarrow>
          go_bind (StartBuild \<lparr>req_Graph = g\<rparr> NewStatusWriter s) (\<lambda>(err, w, s1).
            case err of
              Some e \<Rightarrow>
                if startMsgSend w
                then go_bind (Updated k (failed_update e) w) (\<lambda>(sendErr, w1). Returns (StartEnded w1, s1))
                else Returns (StartReply 500, s1)
            | None \<Rightarrow> Returns (if sw_done w then StartEnded w else StartWaiting w, s1)))"

definition signalBuildHandler :: "(ID \<Rightarrow> SignalRequest \<Rightarrow> 's \<Rightarrow> (string option \<times> 's) go) \<Rightarrow>
    string \<Rightarrow> string + SignalRequest \<Rightarrow> 's \<Rightarrow> (nat \<times> 's) go" where
  "signalBuildHandler SignalBuild strID decoded s =
     (if strID = '''' then Returns (400, s)
      else case ID_UnmarshalText strID of
        Inl _ \<Rightarrow> Returns (400, s)
      | Inr buildID \<Rightarrow>
          (case decoded of
             Inl e \<Rightarrow> Returns (400, s)
           | Inr signal \<Rightarrow>
               go_bind (SignalBuild buildID signal s) (\<lambda>(err, s1).
                 Returns (if err = None then 200 else 500, s1))))"

text \<open>
  The heartbeat handler dereferences the response: an error or nothing to send, it must not be
  nil. When the response cannot be encoded the request is answered 400, after the service has run.
\<close>

definition heartbeatHandler :: "(HeartbeatRequest \<Rightarrow> 's \<Rightarrow> ((string + HeartbeatResponse option) \<times> 's) go) \<Rightarrow>
    (HeartbeatResponse \<Rightarrow> string + bytes) \<Rightarrow> string + HeartbeatRequest \<Rightarrow> 's \<Rightarrow> ((nat \<times> bytes) \<times> 's) go" where
  "heartbeatHandler Heartbeat encode decoded s =
     (case decoded of
        Inl e \<Rightarrow> Returns ((400, []), s)
      | Inr req \<Rightarrow>
          go_bind (Heartbeat req s) (\<lambda>(res, s1).
            case res of
              Inl e \<Rightarrow> Returns ((500, []), s1)
            | Inr None \<Rightarrow> Panics ''nil pointer dereference''
            | Inr (Some resp) \<Rightarrow>
                Returns ((case encode resp of Inl e \<Rightarrow> (400, []) | Inr p \<Rightarrow> (200, p)), s1)))"

end
