(* ===== verification/Build_Service.thy ===== *)
theory Build_Service
  imports Top_Sort Sync_Map Happens_Before Scheduler Status_Stream File_Cache
begin

text \<open>
  Package \<open>dist\<close>, files \<open>build_service.go\<close> and \<open>coordinator.go\<close>: starting a build and running
  its signal. \<open>SignalBuild\<close> has a main loop and one goroutine per job; its steps interleave with
  each other and with the scheduler's other users.
\<close>

section \<open>Starting a build\<close>

text \<open>
  The status writer of a build is shared with its HTTP handler; the map holds the writer's
  current state.
\<close>

record coordinatorCore =
  core_sched :: Scheduler
  core_fileCache :: Cache
  buildGraph :: "(ID, Job list) SyncMap"
  buildSourceFiles :: "(ID, (ID \<times> string) list list) SyncMap"
  buildStatusWriter :: "(ID, streamStatusWriter) SyncMap"
  core_hb :: "ID hb"

definition NewCoordinator :: "Cache \<Rightarrow> coordinatorCore" where
  "NewCoordinator fileCache =
     \<lparr>core_sched = NewScheduler, core_fileCache = fileCache, buildGraph = NewSyncMap 0,
      buildSourceFiles = NewSyncMap 0, buildStatusWriter = NewSyncMap 0,
      core_hb = NewHappenceBeforeMachine\<rparr>"

definition Coordinator_Stop :: "coordinatorCore \<Rightarrow> coordinatorCore go" where
  "Coordinator_Stop c =
     go_bind (Scheduler_Stop (core_sched c)) (\<lambda>s. Returns (c\<lparr>core_sched := s\<rparr>))"

definition fileNameToID :: "(ID \<times> string) list \<Rightarrow> string \<rightharpoonup> ID" where
  "fileNameToID files = fold (\<lambda>(fileID, path) m. m(path \<mapsto> fileID)) files Map.empty"

text \<open>
  The files of one job, by identifier; an input that is not a source file has the zero
  identifier. The list is in the order in which a later range visits the map.
\<close>

definition job_files :: "(string \<rightharpoonup> ID) \<Rightarrow> Job \<Rightarrow> (ID \<times> string) list" where
  "job_files names job =
     fold (\<lambda>input m. AList.update (case names input of None \<Rightarrow> ID_zero | Some i \<Rightarrow> i) input m) (Inputs job) []"

text \<open>\<open>k\<close> is the connection, \<open>rand\<close> the source of randomness of \<open>NewID\<close>.\<close>

definition StartBuild :: "string + bytes \<Rightarrow> conn \<Rightarrow> BuildRequest \<Rightarrow> streamStatusWriter \<Rightarrow> coordinatorCore
    \<Rightarrow> (sw_error option \<times> streamStatusWriter \<times> coordinatorCore) go" where
  "StartBuild rand k request w c =
     (let files = Graph_SourceFiles (req_Graph request) in
      go_bind (NewID rand) (\<lambda>buildID.
        let (err, w1) = Started k \<lparr>started_ID = buildID, MissingFiles = map fst files\<rparr> w in
        case err of
          Some e \<Rightarrow> Returns (Some e, w1, c)
        | None \<Rightarrow>
            (case TopSort (Graph_Jobs (req_Graph request)) of
               None \<Rightarrow> Panics ''index out of range''
             | Some sorted_jobs \<Rightarrow>
                 go_bind (Happen (core_hb c) buildID) (\<lambda>h.
                   Returns (None, w1, c\<lparr>core_hb := h,
                     buildSourceFiles := Store (buildSourceFiles c) buildID
                       (map (job_files (fileNameToID files)) sorted_jobs),
                     buildGraph := Store (buildGraph c) buildID sorted_jobs,
                     buildStatusWriter := Store (buildStatusWriter c) buildID w1\<rparr>)))))"

section \<open>Running a signal\<close>

datatype sig_error = CtxErr | UpdateErr sw_error

text \<open>\<open>SignalPanicked\<close>: the HTTP server recovers a panic of the goroutine that serves the request.\<close>

datatype main_pc = Scheduling | AwaitAll | SignalReturned "sig_error option" | SignalPanicked string

text \<open>
  A job's goroutine: before its job is finished, after counting it, with the update built, after
  sending it, ended. \<open>SendFailed\<close> records whether the update went out before the error.
\<close>

datatype go_pc =
    AwaitJob | Cancelled | Counted
  | Reporting StatusUpdate | Removing StatusUpdate | Exited StatusUpdate | SendFailed bool StatusUpdate

text \<open>
  \<open>sg_done\<close> (the jobs the loop is through with) is history. \<open>sg_crash\<close>: a panic in a goroutine
  nobody recovers ends the process.
\<close>

record signal_run =
  sg_sys :: sched_sys
  sg_writer :: streamStatusWriter
  sg_files :: Cache
  sg_done :: "Job list"
  sg_todo :: "(Job \<times> (ID \<times> string) list) list"
  sg_deps :: "ID list"
  sg_arts :: "(ID \<times> WorkerID) list"
  sg_pending :: "ID \<rightharpoonup> ptr"
  sg_gos :: "(ptr \<times> go_pc) multiset"
  sg_count :: nat
  sg_total :: nat
  sg_errs :: "sig_error list"
  sg_main :: main_pc
  sg_crash :: "string option"

definition next_deps :: "(Job \<times> (ID \<times> string) list) list \<Rightarrow> ID list" where
  "next_deps todo = (case todo of [] \<Rightarrow> [] | jf # _ \<Rightarrow> Deps (fst jf))"

text \<open>
  \<open>SignalBuild\<close> up to the loop: \<open>Inl\<close> is a return without scheduling anything.
\<close>

definition SignalBuild_begin :: "sched_sys \<Rightarrow> ID \<Rightarrow> SignalRequest \<Rightarrow> coordinatorCore \<Rightarrow> (coordinatorCore + coordinatorCore \<times> signal_run) go" where
  "SignalBuild_begin sys buildID signal c =
     go_bind (Before (core_hb c) buildID) (\<lambda>h.
       let c1 = c\<lparr>core_hb := h\<rparr> in
       if \<not> UploadDone signal then Returns (Inl c1)
       else (case (Load (buildSourceFiles c1) buildID, Load (buildGraph c1) buildID, Load (buildStatusWriter c1) buildID) of
               (Some sourceFiles, Some js, Some w) \<Rightarrow>
                 Returns (Inr (c1, \<lparr>sg_sys = sys, sg_writer = w, sg_files = core_fileCache c1, sg_done = [],
                   sg_todo = zip js sourceFiles, sg_deps = next_deps (zip js sourceFiles), sg_arts = [],
                   sg_pending = Map.empty, sg_gos = {#}, sg_count = 0, sg_total = length js, sg_errs = [],
                   sg_main = Scheduling, sg_crash = None\<rparr>))
             | _ \<Rightarrow> Panics ''concurrency.HappenceBeforeMachine does not work''))"

fun removeSourceFiles :: "os_env \<Rightarrow> (ID \<times> string) list \<Rightarrow> Cache \<Rightarrow> fc_error option \<times> Cache" where
  "removeSourceFiles env [] c = (None, c)"
| "removeSourceFiles env ((fileID, path) # files) c =
     (case FC_Remove env fileID c of
        (Some e, c1) \<Rightarrow> (Some e, c1)
      | (None, c1) \<Rightarrow> removeSourceFiles env files c1)"

subsection \<open>The main loop\<close>

text \<open>
  One dependency of the current job: its entry must be known, the loop waits until it is
  finished, and asks for a worker that has its artifact. \<open>None\<close>: it has to wait.
\<close>

definition main_dep :: "nat \<Rightarrow> signal_run \<Rightarrow> signal_run option" where
  "main_dep r s =
     (case sg_deps s of
        [] \<Rightarrow> None
      | dep # deps \<Rightarrow>
          (case sg_pending s dep of
             None \<Rightarrow> Some (s\<lparr>sg_main := SignalPanicked ''top sort does not work''\<rparr>)
           | Some p \<Rightarrow>
               if Finished (store (sc_sched (sg_sys s)) p)
               then (case LocateArtifact r dep (sc_sched (sg_sys s)) of
                       Returns (w, True) \<Rightarrow>
                         Some (s\<lparr>sg_deps := deps, sg_arts := AList.update dep w (sg_arts s)\<rparr>)
                     | Returns (w, False) \<Rightarrow> Some (s\<lparr>sg_main := SignalPanicked ''top sort does not work''\<rparr>)
                     | Panics m \<Rightarrow> Some (s\<lparr>sg_main := SignalPanicked m\<rparr>)
                     | Blocks \<Rightarrow> None)
               else None))"

definition main_schedule :: "signal_run \<Rightarrow> signal_run option" where
  "main_schedule s =
     (case sg_todo s of
        [] \<Rightarrow> None
      | (job, files) # todo \<Rightarrow>
          if sg_deps s \<noteq> [] then None
          else
            (let spec = \<lparr>SourceFiles = files, Artifacts = sg_arts s, spec_Job = job\<rparr> in
             case ScheduleJob spec (sc_sched (sg_sys s)) of
               Panics m \<Rightarrow> Some (s\<lparr>sg_main := SignalPanicked m\<rparr>)
             | Blocks \<Rightarrow> None
             | Returns (p, _) \<Rightarrow>
                 map_option (\<lambda>sys. s\<lparr>sg_sys := sys, sg_pending := (sg_pending s)(Job_ID job \<mapsto> p),
                     sg_gos := add_mset (p, AwaitJob) (sg_gos s), sg_done := sg_done s @ [job],
                     sg_todo := todo, sg_deps := next_deps todo, sg_arts := []\<rparr>)
                   (sched_step (sg_sys s) (ActSchedule spec))))"

subsection \<open>The goroutine of a job\<close>

text \<open>Replace a goroutine by its next state.\<close>

definition go_moves :: "signal_run \<Rightarrow> ptr \<times> go_pc \<Rightarrow> go_pc \<Rightarrow> signal_run" where
  "go_moves s g pc = s\<lparr>sg_gos := add_mset (fst g, pc) (sg_gos s - {#g#})\<rparr>"

definition job_update :: "JobResult \<Rightarrow> bool \<Rightarrow> StatusUpdate" where
  "job_update res last_job =
     \<lparr>JobFinished = Some res, BuildFailed = Error res, BuildFinished = last_job\<rparr>"

text \<open>
  Building the update reads the result, which may be nil, and \<open>CompareAndSwap(len(jobs), 0)\<close>
  decides who announces the end.
\<close>

definition go_build :: "ptr \<Rightarrow> signal_run \<Rightarrow> signal_run" where
  "go_build p s =
     (case Result (store (sc_sched (sg_sys s)) p) of
        None \<Rightarrow> s\<lparr>sg_crash := Some ''nil pointer dereference''\<rparr>
      | Some res \<Rightarrow>
          (let swapped = (sg_count s = sg_total s) in
           go_moves (if swapped then s\<lparr>sg_count := 0\<rparr> else s) (p, Counted)
             (Reporting (job_update res swapped))))"

definition go_send :: "conn \<Rightarrow> ptr \<Rightarrow> StatusUpdate \<Rightarrow> signal_run \<Rightarrow> signal_run" where
  "go_send k p u s =
     (case Updated k u (sg_writer s) of
        Returns (None, w) \<Rightarrow> (go_moves s (p, Reporting u) (Removing u))\<lparr>sg_writer := w\<rparr>
      | Returns (Some e, w) \<Rightarrow>
          (go_moves s (p, Reporting u) (SendFailed (\<exists>m. e = FlushFailed m) u))
            \<lparr>sg_writer := w, sg_errs := sg_errs s @ [UpdateErr e]\<rparr>
      | Panics m \<Rightarrow> s\<lparr>sg_crash := Some m\<rparr>
      | Blocks \<Rightarrow> s)"

definition go_remove :: "os_env \<Rightarrow> ptr \<Rightarrow> StatusUpdate \<Rightarrow> signal_run \<Rightarrow> signal_run" where
  "go_remove env p u s =
     (go_moves s (p, Removing u) (Exited u))\<lparr>sg_files :=
        snd (removeSourceFiles env (SourceFiles (pj_Job (store (sc_sched (sg_sys s)) p))) (sg_files s))\<rparr>"

definition go_over :: "go_pc \<Rightarrow> bool" where
  "go_over pc \<longleftrightarrow> (case pc of Cancelled \<Rightarrow> True | Exited u \<Rightarrow> True | SendFailed b u \<Rightarrow> True | _ \<Rightarrow> False)"

subsection \<open>The machine\<close>

datatype sig_act =
    Env sched_act
  | NextDep nat | DoSchedule | EndLoop | MainCancel | MainReturn bool
  | GoCount ptr | GoCancel ptr | GoBuild ptr | GoSend conn ptr StatusUpdate
  | GoRemove os_env ptr StatusUpdate
  | LoseErr nat | HandlerReturns

text \<open>
  The goroutines append to \<open>errs\<close> without a lock. An append that starts from a slice others have
  extended meanwhile overwrites what they appended: \<open>LoseErr\<close> takes away an error of several, one of
  them always stays. (Only the first is ever read. That two threads tear the header of the slice
  apart is not modelled.) \<open>HandlerReturns\<close> is the handler of the build's stream, not the signal's.
\<close>

fun sig_step :: "signal_run \<Rightarrow> sig_act \<Rightarrow> signal_run option" where
  "sig_step s (Env a) =
     (if sg_crash s \<noteq> None then None
      else map_option (\<lambda>sys. s\<lparr>sg_sys := sys\<rparr>) (sched_step (sg_sys s) a))"
| "sig_step s (NextDep r) =
     (if sg_crash s = None \<and> sg_main s = Scheduling then main_dep r s else None)"
| "sig_step s DoSchedule =
     (if sg_crash s = None \<and> sg_main s = Scheduling then main_schedule s else None)"
| "sig_step s EndLoop =
     (if sg_crash s = None \<and> sg_main s = Scheduling \<and> sg_todo s = []
      then Some (s\<lparr>sg_main := AwaitAll\<rparr>) else None)"
| "sig_step s MainCancel =
     (if sg_crash s = None \<and> sg_main s = Scheduling \<and> sg_deps s \<noteq> []
      then Some (s\<lparr>sg_main := SignalReturned (Some CtxErr)\<rparr>) else None)"
| "sig_step s (MainReturn ctx_done) =
     (if sg_crash s = None \<and> sg_main s = AwaitAll \<and> (\<forall>g \<in># sg_gos s. go_over (snd g))
      then Some (s\<lparr>sg_main := SignalReturned
             (case sg_errs s of e # _ \<Rightarrow> Some e | [] \<Rightarrow> if ctx_done then Some CtxErr else None)\<rparr>)
      else None)"
| "sig_step s (GoCount p) =
     (if sg_crash s = None \<and> (p, AwaitJob) \<in># sg_gos s \<and> Finished (store (sc_sched (sg_sys s)) p)
      then Some (go_moves (s\<lparr>sg_count := sg_count s + 1\<rparr>) (p, AwaitJob) Counted) else None)"
| "sig_step s (GoCancel p) =
     (if sg_crash s = None \<and> (p, AwaitJob) \<in># sg_gos s
      then Some ((go_moves s (p, AwaitJob) Cancelled)\<lparr>sg_errs := sg_errs s @ [CtxErr]\<rparr>) else None)"
| "sig_step s (GoBuild p) =
     (if sg_crash s = None \<and> (p, Counted) \<in># sg_gos s then Some (go_build p s) else None)"
| "sig_step s (GoSend k p u) =
     (if sg_crash s = None \<and> (p, Reporting u) \<in># sg_gos s then Some (go_send k p u s) else None)"
| "sig_step s (GoRemove env p u) =
     (if sg_crash s = None \<and> (p, Removing u) \<in># sg_gos s then Some (go_remove env p u s) else None)"
| "sig_step s (LoseErr n) =
     (if sg_crash s = None \<and> n < length (sg_errs s) \<and> 2 \<le> length (sg_errs s)
      then Some (s\<lparr>sg_errs := take n (sg_errs s) @ drop (Suc n) (sg_errs s)\<rparr>) else None)"
| "sig_step s HandlerReturns =
     (if sg_crash s = None then map_option (\<lambda>w. s\<lparr>sg_writer := w\<rparr>) (handler_returns (sg_writer s)) else None)"

end
