(* ===== verification/Signal_Invariant.thy ===== *)
theory Signal_Invariant
  imports Build_Service
begin

text \<open>
  The invariant of a running signal and that every step of its machine keeps it: what the
  goroutines know of their jobs, which dependencies are finished, how the counter relates to the
  goroutines, and what has gone out on the stream.
\<close>

section \<open>Invariant of a signal\<close>

definition pc_counted :: "go_pc \<Rightarrow> bool" where
  "pc_counted pc \<longleftrightarrow> pc \<noteq> AwaitJob \<and> pc \<noteq> Cancelled"

fun pc_update :: "go_pc \<Rightarrow> StatusUpdate option" where
  "pc_update (Reporting u) = Some u"
| "pc_update (Removing u) = Some u"
| "pc_update (Exited u) = Some u"
| "pc_update (SendFailed b u) = Some u"
| "pc_update pc = None"

fun pc_written :: "go_pc \<Rightarrow> StatusUpdate multiset" where
  "pc_written (Removing u) = {#u#}"
| "pc_written (Exited u) = {#u#}"
| "pc_written (SendFailed b u) = (if b then {#u#} else {#})"
| "pc_written pc = {#}"

definition pc_final :: "go_pc \<Rightarrow> bool" where
  "pc_final pc \<longleftrightarrow> (case pc_update pc of None \<Rightarrow> False | Some u \<Rightarrow> BuildFinished u)"

definition n_counted :: "(ptr \<times> go_pc) multiset \<Rightarrow> nat" where
  "n_counted gos = size (filter_mset (\<lambda>g. pc_counted (snd g)) gos)"

definition n_final :: "(ptr \<times> go_pc) multiset \<Rightarrow> nat" where
  "n_final gos = size (filter_mset (\<lambda>g. pc_final (snd g)) gos)"

definition written_updates :: "(ptr \<times> go_pc) multiset \<Rightarrow> StatusUpdate multiset" where
  "written_updates gos = sum_mset (image_mset (\<lambda>g. pc_written (snd g)) gos)"

text \<open>The scheduler only gets further.\<close>

definition sched_ext :: "Scheduler \<Rightarrow> Scheduler \<Rightarrow> bool" where
  "sched_ext c c' \<longleftrightarrow> (\<forall>i p. jobs c i = Some p \<longrightarrow> jobs c' i = Some p \<and>
     (Finished (store c p) \<longrightarrow> store c' p = store c p))"

definition job_finished :: "Scheduler \<Rightarrow> ID \<Rightarrow> bool" where
  "job_finished c i \<longleftrightarrow> (\<exists>p. jobs c i = Some p \<and> Finished (store c p))"

definition go_ok :: "Scheduler \<Rightarrow> ptr \<times> go_pc \<Rightarrow> bool" where
  "go_ok c g \<longleftrightarrow> (\<exists>i. jobs c i = Some (fst g)) \<and> (pc_counted (snd g) \<longrightarrow> Finished (store c (fst g))) \<and>
     (\<forall>u. pc_update (snd g) = Some u \<longrightarrow>
        (\<exists>res. Result (store c (fst g)) = Some res \<and> u = job_update res (BuildFinished u)))"

definition entries_ok :: "Scheduler \<Rightarrow> (ID \<rightharpoonup> ptr) \<Rightarrow> Job list \<Rightarrow> (ptr \<times> go_pc) multiset \<Rightarrow> bool" where
  "entries_ok c pending js gos \<longleftrightarrow> (\<forall>d p. pending d = Some p \<longrightarrow> jobs c d = Some p) \<and>
     dom pending = Job_ID ` set js \<and> (\<forall>g \<in># gos. go_ok c g) \<and>
     image_mset fst gos = image_mset (\<lambda>j. the (jobs c (Job_ID j))) (mset js)"

definition deps_ok :: "Scheduler \<Rightarrow> Job list \<Rightarrow> (Job \<times> (ID \<times> string) list) list \<Rightarrow> ID list \<Rightarrow> bool" where
  "deps_ok c js todo deps \<longleftrightarrow> (\<forall>j \<in> set js. \<forall>d \<in> set (Deps j). job_finished c d) \<and>
     (\<exists>ds. next_deps todo = ds @ deps \<and> (\<forall>d \<in> set ds. job_finished c d))"

definition count_ok :: "nat \<Rightarrow> nat \<Rightarrow> nat \<Rightarrow> (ptr \<times> go_pc) multiset \<Rightarrow> bool" where
  "count_ok todo n cnt gos \<longleftrightarrow> todo + size gos = n \<and>
     (n_final gos = 0 \<and> cnt = n_counted gos \<and>
        (cnt = n \<longrightarrow> n = 0 \<or> (\<exists>p. (p, Counted) \<in># gos)) \<or>
      n_final gos = 1 \<and> cnt = 0 \<and> n_counted gos = n)"

definition writer_ok :: "streamStatusWriter \<Rightarrow> (ptr \<times> go_pc) multiset \<Rightarrow> bool" where
  "writer_ok w gos \<longleftrightarrow> startMsgSend w \<and>
     (\<exists>b us. sw_out w = MsgStarted b # map MsgUpdate us \<and> mset us = written_updates gos) \<and>
     (sw_done w \<longrightarrow> (\<exists>p u. ((p, Removing u) \<in># gos \<or> (p, Exited u) \<in># gos) \<and> BuildFinished u))"

text \<open>Without an error no goroutine was cancelled or failed; what the main loop knows at its ends.\<close>

definition ends_ok :: "signal_run \<Rightarrow> bool" where
  "ends_ok s \<longleftrightarrow>
     (sg_errs s = [] \<longrightarrow> (\<forall>g \<in># sg_gos s. snd g \<noteq> Cancelled \<and> (\<forall>b u. snd g \<noteq> SendFailed b u))) \<and>
     (sg_main s = AwaitAll \<longrightarrow> sg_todo s = []) \<and>
     (sg_main s = SignalReturned None \<longrightarrow> sg_todo s = [] \<and> (\<forall>g \<in># sg_gos s. \<exists>u. snd g = Exited u))"

definition sig_inv :: "signal_run \<Rightarrow> bool" where
  "sig_inv s \<longleftrightarrow> sched_inv (sg_sys s) \<and>
     entries_ok (sc_sched (sg_sys s)) (sg_pending s) (sg_done s) (sg_gos s) \<and>
     deps_ok (sc_sched (sg_sys s)) (sg_done s) (sg_todo s) (sg_deps s) \<and>
     count_ok (length (sg_todo s)) (sg_total s) (sg_count s) (sg_gos s) \<and>
     writer_ok (sg_writer s) (sg_gos s) \<and> ends_ok s \<and>
     sg_crash s \<in> {None, Some ''nil pointer dereference''}"

text \<open>A signal begins on any reachable scheduler, with the writer just opened and its handler waiting.\<close>

definition sig_start :: "signal_run \<Rightarrow> bool" where
  "sig_start s \<longleftrightarrow> (\<exists>as. run sched_step sched_fresh as = Some (sg_sys s)) \<and>
     startMsgSend (sg_writer s) \<and> \<not> sw_done (sg_writer s) \<and> sw_cut (sg_writer s) = None \<and> (\<exists>b. sw_out (sg_writer s) = [MsgStarted b]) \<and>
     sg_done s = [] \<and> sg_deps s = next_deps (sg_todo s) \<and> sg_arts s = [] \<and> sg_pending s = Map.empty \<and>
     sg_gos s = {#} \<and> sg_count s = 0 \<and> sg_total s = length (sg_todo s) \<and> sg_errs s = [] \<and>
     sg_main s = Scheduling \<and> sg_crash s = None"

lemma gos_simps [simp]:
  "n_counted {#} = 0" "n_final {#} = 0" "written_updates {#} = {#}"
  "n_counted (add_mset g A) = (if pc_counted (snd g) then Suc (n_counted A) else n_counted A)"
  "n_final (add_mset g A) = (if pc_final (snd g) then Suc (n_final A) else n_final A)"
  "written_updates (add_mset g A) = pc_written (snd g) + written_updates A"
  by (simp_all add: n_counted_def n_final_def written_updates_def)

lemma pc_simps [simp]:
  "\<not> pc_counted AwaitJob" "\<not> pc_counted Cancelled" "pc_counted Counted" "pc_counted (Reporting u)"
  "pc_counted (Removing u)" "pc_counted (Exited u)" "pc_counted (SendFailed b u)"
  "\<not> pc_final AwaitJob" "\<not> pc_final Cancelled" "\<not> pc_final Counted" "pc_final (Reporting u) = BuildFinished u"
  "pc_final (Removing u) = BuildFinished u" "pc_final (Exited u) = BuildFinished u"
  "pc_final (SendFailed b u) = BuildFinished u"
  by (simp_all add: pc_counted_def pc_final_def)

lemma sig_start_inv: "sig_start s \<Longrightarrow> sig_inv s"
  using sc.reachable_inv [OF refl, of _ "sg_sys s"]
  by (auto simp: sig_start_def sig_inv_def entries_ok_def deps_ok_def count_ok_def writer_ok_def ends_ok_def)

lemma sched_step_ext: "sched_inv s \<Longrightarrow> sched_step s a = Some t \<Longrightarrow> sched_ext (sc_sched s) (sc_sched t)"
  using sched_step_keeps(1,2) by (fastforce simp: sched_ext_def)

lemma job_finished_ext: "sched_ext c c' \<Longrightarrow> job_finished c i \<Longrightarrow> job_finished c' i"
  by (fastforce simp: sched_ext_def job_finished_def)

lemma pc_update_counted: "pc_update pc = Some u \<Longrightarrow> pc_counted pc"
  by (cases pc) simp_all

lemma go_ok_ext:
  assumes "sched_ext c c'" "go_ok c g"
  shows "go_ok c' g"
proof -
  from assms(2) obtain i where "jobs c i = Some (fst g)" by (auto simp: go_ok_def)
  with assms(1) have "jobs c' i = Some (fst g)" "Finished (store c (fst g)) \<Longrightarrow> store c' (fst g) = store c (fst g)"
    by (simp_all add: sched_ext_def)
  with assms(2) show ?thesis
    by (cases "pc_counted (snd g)") (auto simp: go_ok_def dest: pc_update_counted)
qed

lemma entries_ok_ext:
  assumes "sched_ext c c'" "entries_ok c pending js gos"
  shows "entries_ok c' pending js gos"
proof -
  have "the (jobs c' (Job_ID j)) = the (jobs c (Job_ID j))" if "j \<in> set js" for j
  proof -
    from assms(2) that have "Job_ID j \<in> dom pending" by (simp add: entries_ok_def)
    then obtain p where "pending (Job_ID j) = Some p" by blast
    with assms(2) have "jobs c (Job_ID j) = Some p" by (simp add: entries_ok_def)
    with assms(1) show ?thesis by (simp add: sched_ext_def)
  qed
  then have "image_mset (\<lambda>j. the (jobs c' (Job_ID j))) (mset js) = image_mset (\<lambda>j. the (jobs c (Job_ID j))) (mset js)"
    by (intro image_mset_cong) simp
  with assms show ?thesis
    using go_ok_ext [OF assms(1)] by (auto simp: entries_ok_def sched_ext_def)
qed

lemma deps_ok_ext: "sched_ext c c' \<Longrightarrow> deps_ok c js todo deps \<Longrightarrow> deps_ok c' js todo deps"
  unfolding deps_ok_def using job_finished_ext by blast

text \<open>Steps of the main loop.\<close>

lemma sig_inv_Env:
  assumes inv: "sig_inv s" and step: "sched_step (sg_sys s) a = Some sys"
  shows "sig_inv (s\<lparr>sg_sys := sys\<rparr>)"
proof -
  from inv have "sched_inv (sg_sys s)" by (simp add: sig_inv_def)
  with step have "sched_inv sys" "sched_ext (sc_sched (sg_sys s)) (sc_sched sys)"
    using sched_inv_step sched_step_ext by blast+
  with inv show ?thesis
    by (auto simp: sig_inv_def ends_ok_def intro: entries_ok_ext deps_ok_ext)
qed

lemma ends_ok_panicked: "ends_ok s \<Longrightarrow> ends_ok (s\<lparr>sg_main := SignalPanicked m\<rparr>)"
  by (simp add: ends_ok_def)

lemma sig_inv_panicked: "sig_inv s \<Longrightarrow> sig_inv (s\<lparr>sg_main := SignalPanicked m\<rparr>)"
  by (simp add: sig_inv_def ends_ok_panicked)

lemma sig_inv_NextDep:
  assumes inv: "sig_inv s" and main: "sg_main s = Scheduling" and step: "main_dep r s = Some t"
  shows "sig_inv t"
proof -
  consider (panic) m where "t = s\<lparr>sg_main := SignalPanicked m\<rparr>"
    | (ok) d ds p w where "sg_deps s = d # ds" "sg_pending s d = Some p"
        "Finished (store (sc_sched (sg_sys s)) p)"
        "t = s\<lparr>sg_deps := ds, sg_arts := AList.update d w (sg_arts s)\<rparr>"
    using step by (auto simp: main_dep_def split: list.splits option.splits if_splits go.splits bool.splits)
  then show ?thesis
  proof cases
    case panic
    with inv show ?thesis by (simp add: sig_inv_panicked)
  next
    case ok
    with inv have fin: "job_finished (sc_sched (sg_sys s)) d"
      by (auto simp: sig_inv_def entries_ok_def job_finished_def)
    from inv ok(1) obtain ds0 where "next_deps (sg_todo s) = ds0 @ d # ds"
      "\<forall>d \<in> set ds0. job_finished (sc_sched (sg_sys s)) d"
      by (auto simp: sig_inv_def deps_ok_def)
    with fin have "deps_ok (sc_sched (sg_sys s)) (sg_done s) (sg_todo s) ds"
      using inv by (auto simp: sig_inv_def deps_ok_def intro!: exI [of _ "ds0 @ [d]"])
    with inv main show ?thesis
      by (simp add: sig_inv_def ok(4) ends_ok_def)
  qed
qed

lemma ScheduleJob_entry:
  assumes "sched_step sys (ActSchedule spec) = Some sys'" "ScheduleJob spec (sc_sched sys) = Returns (p, c)"
  shows "sc_sched sys' = c" "jobs (sc_sched sys') (spec_ID spec) = Some p"
  using assms by (auto elim!: ScheduleJob_cases)

lemma main_schedule_cases:
  assumes "main_schedule s = Some t"
  obtains (panic) m where "t = s\<lparr>sg_main := SignalPanicked m\<rparr>" "isStop (sc_sched (sg_sys s))"
    | (ok) job files todo spec p c sys where "sg_todo s = (job, files) # todo" "sg_deps s = []"
        "spec = \<lparr>SourceFiles = files, Artifacts = sg_arts s, spec_Job = job\<rparr>"
        "ScheduleJob spec (sc_sched (sg_sys s)) = Returns (p, c)"
        "sched_step (sg_sys s) (ActSchedule spec) = Some sys"
        "t = s\<lparr>sg_sys := sys, sg_pending := (sg_pending s)(Job_ID job \<mapsto> p),
           sg_gos := add_mset (p, AwaitJob) (sg_gos s), sg_done := sg_done s @ [job],
           sg_todo := todo, sg_deps := next_deps todo, sg_arts := []\<rparr>"
proof (cases "sg_todo s")
  case Nil
  with assms show thesis by (simp add: main_schedule_def)
next
  case (Cons jf todo)
  obtain job files where jf: "jf = (job, files)" by fastforce
  let ?spec = "\<lparr>SourceFiles = files, Artifacts = sg_arts s, spec_Job = job\<rparr>"
  from assms Cons jf have deps: "sg_deps s = []"
    by (auto simp: main_schedule_def split: if_splits)
  show thesis
  proof (cases "ScheduleJob ?spec (sc_sched (sg_sys s))")
    case (Returns pc)
    obtain p c where pc: "pc = (p, c)" by fastforce
    with Returns assms Cons jf deps obtain sys where
      "sched_step (sg_sys s) (ActSchedule ?spec) = Some sys"
      "t = s\<lparr>sg_sys := sys, sg_pending := (sg_pending s)(Job_ID job \<mapsto> p),
           sg_gos := add_mset (p, AwaitJob) (sg_gos s), sg_done := sg_done s @ [job],
           sg_todo := todo, sg_deps := next_deps todo, sg_arts := []\<rparr>"
      by (auto simp: main_schedule_def Let_def simp del: sched_step.simps)
    with Returns pc Cons jf deps show thesis
      by (intro ok [OF _ _ refl]) (simp_all del: sched_step.simps)
  next
    case (Panics m)
    with assms Cons jf deps have "t = s\<lparr>sg_main := SignalPanicked m\<rparr>"
      by (simp add: main_schedule_def Let_def)
    moreover from Panics have "isStop (sc_sched (sg_sys s))"
      by (auto simp: ScheduleJob_def checkIsStop_def split: if_splits option.splits)
    ultimately show thesis by (rule panic)
  next
    case Blocks
    with assms Cons jf deps show thesis by (simp add: main_schedule_def Let_def)
  qed
qed

lemma sig_inv_Schedule:
  assumes inv: "sig_inv s" and main: "sg_main s = Scheduling" and step: "main_schedule s = Some t"
  shows "sig_inv t"
proof -
  from step show ?thesis
  proof (cases rule: main_schedule_cases)
    case panic
    with inv show ?thesis by (simp add: sig_inv_panicked)
  next
    case (ok job files todo spec p c sys)
    let ?c = "sc_sched sys"
    from inv have "sched_inv (sg_sys s)" by (simp add: sig_inv_def)
    with ok(5) have sched: "sched_inv sys" "sched_ext (sc_sched (sg_sys s)) ?c"
      using sched_inv_step sched_step_ext by blast+
    have entry: "jobs ?c (Job_ID job) = Some p"
      using ScheduleJob_entry [OF ok(5,4)] ok(3) by (simp add: spec_ID_def)
    have "entries_ok ?c (sg_pending s) (sg_done s) (sg_gos s)" "deps_ok ?c (sg_done s) (sg_todo s) (sg_deps s)"
      using inv sched(2) entries_ok_ext deps_ok_ext by (auto simp: sig_inv_def)
    with entry ok(1,2) have "entries_ok ?c (sg_pending t) (sg_done t) (sg_gos t)" "deps_ok ?c (sg_done t) todo (next_deps todo)"
      by (auto simp: ok(6) entries_ok_def go_ok_def deps_ok_def next_deps_def)
    moreover have "count_ok (length todo) (sg_total s) (sg_count s) (sg_gos t)"
      using inv ok(1) by (auto simp: sig_inv_def count_ok_def ok(6))
    moreover have "writer_ok (sg_writer s) (sg_gos t)"
      using inv by (auto simp: sig_inv_def writer_ok_def ok(6))
    moreover have "ends_ok t"
      using inv main by (simp add: sig_inv_def ends_ok_def ok(6))
    ultimately show ?thesis
      using sched(1) inv by (simp add: sig_inv_def ok(6))
  qed
qed

text \<open>Steps of the goroutines.\<close>

lemma go_moves_simps [simp]:
  "sg_sys (go_moves s g pc) = sg_sys s" "sg_writer (go_moves s g pc) = sg_writer s"
  "sg_done (go_moves s g pc) = sg_done s" "sg_todo (go_moves s g pc) = sg_todo s"
  "sg_deps (go_moves s g pc) = sg_deps s" "sg_pending (go_moves s g pc) = sg_pending s"
  "sg_count (go_moves s g pc) = sg_count s" "sg_total (go_moves s g pc) = sg_total s"
  "sg_errs (go_moves s g pc) = sg_errs s" "sg_main (go_moves s g pc) = sg_main s"
  "sg_crash (go_moves s g pc) = sg_crash s" "sg_files (go_moves s g pc) = sg_files s"
  "sg_arts (go_moves s g pc) = sg_arts s"
  "sg_gos (go_moves s g pc) = add_mset (fst g, pc) (sg_gos s - {#g#})"
  by (simp_all add: go_moves_def)

text \<open>A running goroutine excludes that the signal has returned without an error.\<close>

lemma ends_ok_running:
  assumes "ends_ok s" "g \<in># sg_gos s" "\<And>u. snd g \<noteq> Exited u"
  shows "sg_main s \<noteq> SignalReturned None"
  using assms unfolding ends_ok_def by blast

lemma entries_ok_move:
  "entries_ok c pending js (add_mset g A) \<Longrightarrow> go_ok c (fst g, pc) \<Longrightarrow>
     entries_ok c pending js (add_mset (fst g, pc) A)"
  by (simp add: entries_ok_def)

lemma sig_inv_GoCount:
  assumes inv: "sig_inv s" and g: "(p, AwaitJob) \<in># sg_gos s"
    and fin: "Finished (store (sc_sched (sg_sys s)) p)"
  shows "sig_inv (go_moves (s\<lparr>sg_count := sg_count s + 1\<rparr>) (p, AwaitJob) Counted)" (is "sig_inv ?t")
proof -
  obtain A where A: "sg_gos s = add_mset (p, AwaitJob) A" using g by (auto dest: multi_member_split)
  let ?c = "sc_sched (sg_sys s)"
  from inv A have parts: "entries_ok ?c (sg_pending s) (sg_done s) (add_mset (p, AwaitJob) A)"
    "count_ok (length (sg_todo s)) (sg_total s) (sg_count s) (add_mset (p, AwaitJob) A)"
    "writer_ok (sg_writer s) (add_mset (p, AwaitJob) A)" "ends_ok s"
    by (simp_all add: sig_inv_def)
  have "go_ok ?c (p, Counted)"
    using parts(1) fin by (simp add: entries_ok_def go_ok_def)
  with parts(1) have "entries_ok ?c (sg_pending s) (sg_done s) (add_mset (p, Counted) A)"
    using entries_ok_move [of ?c _ _ "(p, AwaitJob)" A Counted] by simp
  moreover have "n_counted A \<le> size A"
    by (simp add: n_counted_def)
  with parts(2) have "count_ok (length (sg_todo s)) (sg_total s) (sg_count s + 1) (add_mset (p, Counted) A)"
    by (auto simp: count_ok_def)
  moreover have "writer_ok (sg_writer s) (add_mset (p, Counted) A)"
    using parts(3) by (auto simp: writer_ok_def)
  moreover have "ends_ok ?t"
    using parts(4) A ends_ok_running [OF parts(4) g] by (auto simp: ends_ok_def)
  ultimately show ?thesis
    using inv A by (simp add: sig_inv_def)
qed

lemma sig_inv_GoCancel:
  assumes inv: "sig_inv s" and g: "(p, AwaitJob) \<in># sg_gos s"
  shows "sig_inv ((go_moves s (p, AwaitJob) Cancelled)\<lparr>sg_errs := sg_errs s @ [CtxErr]\<rparr>)" (is "sig_inv ?t")
proof -
  obtain A where A: "sg_gos s = add_mset (p, AwaitJob) A" using g by (auto dest: multi_member_split)
  let ?c = "sc_sched (sg_sys s)"
  from inv A have parts: "entries_ok ?c (sg_pending s) (sg_done s) (add_mset (p, AwaitJob) A)"
    "count_ok (length (sg_todo s)) (sg_total s) (sg_count s) (add_mset (p, AwaitJob) A)"
    "writer_ok (sg_writer s) (add_mset (p, AwaitJob) A)" "ends_ok s"
    by (simp_all add: sig_inv_def)
  have "go_ok ?c (p, Cancelled)"
    using parts(1) by (simp add: entries_ok_def go_ok_def)
  with parts(1) have "entries_ok ?c (sg_pending s) (sg_done s) (add_mset (p, Cancelled) A)"
    using entries_ok_move [of ?c _ _ "(p, AwaitJob)" A Cancelled] by simp
  moreover have "count_ok (length (sg_todo s)) (sg_total s) (sg_count s) (add_mset (p, Cancelled) A)"
    using parts(2) by (auto simp: count_ok_def)
  moreover have "writer_ok (sg_writer s) (add_mset (p, Cancelled) A)"
    using parts(3) by (auto simp: writer_ok_def)
  moreover have "ends_ok ?t"
    using parts(4) A ends_ok_running [OF parts(4) g] by (auto simp: ends_ok_def)
  ultimately show ?thesis
    using inv A by (simp add: sig_inv_def)
qed

lemma sig_inv_GoBuild:
  assumes inv: "sig_inv s" and g: "(p, Counted) \<in># sg_gos s"
  shows "sig_inv (go_build p s)"
proof (cases "Result (store (sc_sched (sg_sys s)) p)")
  case None
  with inv show ?thesis by (simp add: go_build_def sig_inv_def ends_ok_def)
next
  case (Some res)
  obtain A where A: "sg_gos s = add_mset (p, Counted) A" using g by (auto dest: multi_member_split)
  let ?c = "sc_sched (sg_sys s)" and ?sw = "sg_count s = sg_total s"
  let ?pc = "Reporting (job_update res ?sw)"
  have t: "go_build p s = go_moves (if ?sw then s\<lparr>sg_count := 0\<rparr> else s) (p, Counted) ?pc"
    using Some by (simp add: go_build_def Let_def)
  from inv A have parts: "entries_ok ?c (sg_pending s) (sg_done s) (add_mset (p, Counted) A)"
    "count_ok (length (sg_todo s)) (sg_total s) (sg_count s) (add_mset (p, Counted) A)"
    "writer_ok (sg_writer s) (add_mset (p, Counted) A)" "ends_ok s"
    by (simp_all add: sig_inv_def)
  have "go_ok ?c (p, ?pc)"
    using parts(1) Some by (simp add: entries_ok_def go_ok_def job_update_def)
  with parts(1) have "entries_ok ?c (sg_pending s) (sg_done s) (add_mset (p, ?pc) A)"
    using entries_ok_move [of ?c _ _ "(p, Counted)" A ?pc] by simp
  moreover have "count_ok (length (sg_todo s)) (sg_total s) (if ?sw then 0 else sg_count s) (add_mset (p, ?pc) A)"
    using parts(2) by (auto simp: count_ok_def job_update_def)
  moreover have "writer_ok (sg_writer s) (add_mset (p, ?pc) A)"
    using parts(3) by (auto simp: writer_ok_def)
  moreover have "ends_ok (go_build p s)"
    using parts(4) A ends_ok_running [OF parts(4) g] by (auto simp: ends_ok_def t)
  ultimately show ?thesis
    using inv A by (cases ?sw) (simp_all add: sig_inv_def t)
qed

lemma Updated_cases:
  assumes "startMsgSend w"
  obtains (unwritten) e where "Updated k u w = Returns (Some (WriteFailed e), w)"
  | (unflushed) e where "Updated k u w = Returns (Some (FlushFailed e), w\<lparr>sw_out := sw_out w @ [MsgUpdate u]\<rparr>)"
  | (sent) "Updated k u w = Returns (None, w\<lparr>sw_out := sw_out w @ [MsgUpdate u],
        sw_done := (sw_done w \<or> BuildFinished u)\<rparr>)" "\<not> (BuildFinished u \<and> sw_done w)"
  | (closed) "Updated k u w = Panics ''close of closed channel''" "BuildFinished u" "sw_done w"
proof (cases "fst k")
  case (Some e)
  with assms show thesis by (intro unwritten [of e]) (simp add: status_ops)
next
  case None
  show thesis
  proof (cases "snd k")
    case (Some e)
    with None assms show thesis by (intro unflushed [of e]) (simp add: status_ops)
  next
    case none: None
    with None assms show thesis
      by (cases "BuildFinished u"; cases "sw_done w") (auto simp: status_ops intro: sent closed)
  qed
qed

lemma sig_inv_GoSend:
  assumes inv: "sig_inv s" and g: "(p, Reporting u) \<in># sg_gos s"
  shows "sig_inv (go_send k p u s)"
proof -
  obtain A where A: "sg_gos s = add_mset (p, Reporting u) A" using g by (auto dest: multi_member_split)
  let ?c = "sc_sched (sg_sys s)"
  from inv A have parts: "entries_ok ?c (sg_pending s) (sg_done s) (add_mset (p, Reporting u) A)"
    "count_ok (length (sg_todo s)) (sg_total s) (sg_count s) (add_mset (p, Reporting u) A)"
    "writer_ok (sg_writer s) (add_mset (p, Reporting u) A)" "ends_ok s"
    by (simp_all add: sig_inv_def)
  have running: "sg_main s \<noteq> SignalReturned None"
    using ends_ok_running [OF parts(4) g] by simp
  have move: "entries_ok ?c (sg_pending s) (sg_done s) (add_mset (p, pc) A) \<and>
      count_ok (length (sg_todo s)) (sg_total s) (sg_count s) (add_mset (p, pc) A)"
    if "pc \<in> {Removing u, SendFailed b u}" for pc b
  proof
    have "go_ok ?c (p, pc)"
      using parts(1) that by (auto simp: entries_ok_def go_ok_def)
    with parts(1) show "entries_ok ?c (sg_pending s) (sg_done s) (add_mset (p, pc) A)"
      using entries_ok_move [of ?c _ _ "(p, Reporting u)" A pc] by simp
    show "count_ok (length (sg_todo s)) (sg_total s) (sg_count s) (add_mset (p, pc) A)"
      using parts(2) that by (auto simp: count_ok_def)
  qed
  obtain b us where out: "sw_out (sg_writer s) = MsgStarted b # map MsgUpdate us" "mset us = written_updates A"
    using parts(3) by (auto simp: writer_ok_def)
  have out': "\<exists>b us'. sw_out (sg_writer s) @ [MsgUpdate u] = MsgStarted b # map MsgUpdate us' \<and>
      mset us' = add_mset u (written_updates A)"
    by (rule exI [of _ b], rule exI [of _ "us @ [u]"]) (simp add: out)
  have opened: "startMsgSend (sg_writer s)"
    using parts(3) by (simp add: writer_ok_def)
  then show ?thesis
  proof (cases rule: Updated_cases [of _ k u])
    case (unwritten e)
    have "writer_ok (sg_writer s) (add_mset (p, SendFailed False u) A)"
      using parts(3) by (auto simp: writer_ok_def)
    with unwritten move [of "SendFailed False u"] inv A running show ?thesis
      by (simp add: go_send_def sig_inv_def ends_ok_def)
  next
    case (unflushed e)
    have "writer_ok ((sg_writer s)\<lparr>sw_out := sw_out (sg_writer s) @ [MsgUpdate u]\<rparr>) (add_mset (p, SendFailed True u) A)"
      using parts(3) out' by (auto simp: writer_ok_def)
    with unflushed move [of "SendFailed True u"] inv A running show ?thesis
      by (simp add: go_send_def sig_inv_def ends_ok_def)
  next
    case sent
    have "writer_ok ((sg_writer s)\<lparr>sw_out := sw_out (sg_writer s) @ [MsgUpdate u],
        sw_done := (sw_done (sg_writer s) \<or> BuildFinished u)\<rparr>) (add_mset (p, Removing u) A)"
      using parts(3) out' by (auto simp: writer_ok_def)
    with sent move [of "Removing u"] inv A running show ?thesis
      by (auto simp: go_send_def sig_inv_def ends_ok_def)
  next
    case closed
    then obtain p' u' where "((p', Removing u') \<in># A \<or> (p', Exited u') \<in># A)" "BuildFinished u'"
      using parts(3) by (auto simp: writer_ok_def)
    then have "\<exists>g \<in># A. pc_final (snd g)"
      by (auto intro: bexI [of _ "(p', Removing u')"] bexI [of _ "(p', Exited u')"])
    then have "n_final A \<noteq> 0"
      by (auto simp: n_final_def filter_mset_eq_conv)
    with parts(2) closed(2) have False
      by (auto simp: count_ok_def)
    then show ?thesis ..
  qed
qed

lemma sig_inv_GoRemove:
  assumes inv: "sig_inv s" and g: "(p, Removing u) \<in># sg_gos s"
  shows "sig_inv (go_remove env p u s)"
proof -
  obtain A where A: "sg_gos s = add_mset (p, Removing u) A" using g by (auto dest: multi_member_split)
  let ?c = "sc_sched (sg_sys s)"
  from inv A have parts: "entries_ok ?c (sg_pending s) (sg_done s) (add_mset (p, Removing u) A)"
    "count_ok (length (sg_todo s)) (sg_total s) (sg_count s) (add_mset (p, Removing u) A)"
    "writer_ok (sg_writer s) (add_mset (p, Removing u) A)" "ends_ok s"
    by (simp_all add: sig_inv_def)
  have running: "sg_main s \<noteq> SignalReturned None"
    using ends_ok_running [OF parts(4) g] by simp
  have "go_ok ?c (p, Exited u)"
    using parts(1) by (auto simp: entries_ok_def go_ok_def)
  with parts(1) have "entries_ok ?c (sg_pending s) (sg_done s) (add_mset (p, Exited u) A)"
    using entries_ok_move [of ?c _ _ "(p, Removing u)" A "Exited u"] by simp
  moreover have "count_ok (length (sg_todo s)) (sg_total s) (sg_count s) (add_mset (p, Exited u) A)"
    using parts(2) by (auto simp: count_ok_def)
  moreover have "writer_ok (sg_writer s) (add_mset (p, Exited u) A)"
    using parts(3) by (auto simp: writer_ok_def)
  ultimately show ?thesis
    using inv A running by (simp add: go_remove_def sig_inv_def ends_ok_def)
qed

lemma sig_inv_MainReturn:
  assumes inv: "sig_inv s" and "sg_main s = AwaitAll" "\<forall>g \<in># sg_gos s. go_over (snd g)"
  shows "sig_inv (s\<lparr>sg_main := SignalReturned
     (case sg_errs s of e # _ \<Rightarrow> Some e | [] \<Rightarrow> if ctx_done then Some CtxErr else None)\<rparr>)"
proof -
  have "\<exists>u. snd g = Exited u" if "g \<in># sg_gos s" "sg_errs s = []" for g
    using inv assms(3) that by (cases "snd g") (auto simp: sig_inv_def ends_ok_def go_over_def)
  with inv assms(2) show ?thesis
    by (auto simp: sig_inv_def ends_ok_def split: list.split)
qed

lemma sig_inv_step:
  assumes inv: "sig_inv s" and step: "sig_step s a = Some t"
  shows "sig_inv t"
proof (cases a)
  case EndLoop
  with step have "t = s\<lparr>sg_main := AwaitAll\<rparr>" "sg_todo s = []" by (auto split: if_splits)
  with inv show ?thesis by (simp add: sig_inv_def ends_ok_def)
next
  case MainCancel
  with step have "t = s\<lparr>sg_main := SignalReturned (Some CtxErr)\<rparr>" by (auto split: if_splits)
  with inv show ?thesis by (simp add: sig_inv_def ends_ok_def)
next
  case (MainReturn ctx_done)
  with inv step show ?thesis
    using sig_inv_MainReturn [of s ctx_done] by (simp split: if_split_asm)
next
  case (GoCount p)
  with inv step show ?thesis
    using sig_inv_GoCount [of s p] by (simp split: if_split_asm)
next
  case (LoseErr n)
  with step have "t = s\<lparr>sg_errs := take n (sg_errs s) @ drop (Suc n) (sg_errs s)\<rparr>" "2 \<le> length (sg_errs s)"
    by (auto split: if_splits)
  with inv show ?thesis by (auto simp: sig_inv_def ends_ok_def)
next
  case HandlerReturns
  with step obtain n where t: "t = s\<lparr>sg_writer := (sg_writer s)\<lparr>sw_cut := n\<rparr>\<rparr>"
    by (auto simp: handler_returns_def split: if_splits)
  have "writer_ok ((sg_writer s)\<lparr>sw_cut := n\<rparr>) gos = writer_ok (sg_writer s) gos" for gos
    by (simp add: writer_ok_def)
  with inv show ?thesis by (simp add: t sig_inv_def ends_ok_def)
qed (use inv step in \<open>auto split: if_splits simp del: sched_step.simps intro: sig_inv_Env sig_inv_NextDep
   sig_inv_Schedule sig_inv_GoCancel sig_inv_GoBuild sig_inv_GoSend sig_inv_GoRemove\<close>)

interpretation sg: invariant_machine sig_step sig_start sig_inv
  by unfold_locales (fact sig_start_inv sig_inv_step)+

section \<open>Consequences\<close>

text \<open>The jobs of the build do not change, only which of them have been scheduled.\<close>

lemma sig_step_jobs:
  assumes "sig_step s a = Some t"
  shows "sg_done t @ map fst (sg_todo t) = sg_done s @ map fst (sg_todo s)"
proof (cases a)
  case (NextDep r)
  with assms show ?thesis
    by (auto simp: main_dep_def split: if_splits list.splits option.splits go.splits bool.splits)
next
  case DoSchedule
  with assms have "main_schedule s = Some t" by (simp split: if_splits)
  then show ?thesis by (cases rule: main_schedule_cases) simp_all
next
  case (GoBuild p)
  with assms show ?thesis by (auto simp: go_build_def Let_def split: if_splits option.splits)
next
  case (GoSend k p u)
  with assms show ?thesis
    by (auto simp: go_send_def split: if_splits go.splits prod.splits option.splits)
next
  case (GoRemove env p u)
  with assms show ?thesis by (auto simp: go_remove_def split: if_splits)
qed (use assms in \<open>auto simp del: sched_step.simps split: if_splits\<close>)

lemma sig_run_jobs:
  assumes "sig_start s" "run sig_step s as = Some t"
  shows "sg_done t @ map fst (sg_todo t) = map fst (sg_todo s)"
  using sg.run_stable [of "\<lambda>_. True" "\<lambda>v. sg_done v @ map fst (sg_todo v) = map fst (sg_todo s)", OF _ sig_start_inv [OF assms(1)] assms(2)]
    sig_step_jobs assms(1)
  by (auto simp: sig_start_def)

text \<open>The number of final updates among those written.\<close>

lemma written_final_le: "size (filter_mset BuildFinished (written_updates gos)) \<le> n_final gos"
proof (induction gos)
  case (add g gos)
  then show ?case by (cases "snd g") auto
qed simp

lemma go_ok_update:
  assumes "go_ok c g" "pc_update (snd g) = Some u"
  shows "JobFinished u = Result (store c (fst g))" "JobFinished u \<noteq> None"
proof -
  from assms obtain res where res: "Result (store c (fst g)) = Some res" "u = job_update res (BuildFinished u)"
    by (auto simp: go_ok_def)
  have "JobFinished u = JobFinished (job_update res (BuildFinished u))"
    by (rule arg_cong [OF res(2)])
  with res(1) show "JobFinished u = Result (store c (fst g))" "JobFinished u \<noteq> None"
    by (simp_all add: job_update_def)
qed

lemma written_all_exited:
  assumes "\<forall>g \<in># gos. \<exists>u. snd g = Exited u"
  shows "size (filter_mset BuildFinished (written_updates gos)) = n_final gos" "n_counted gos = size gos"
    "\<forall>g \<in># gos. go_ok c g \<Longrightarrow> image_mset JobFinished (written_updates gos) =
       image_mset (\<lambda>p. Result (store c p)) (image_mset fst gos)"
  using assms
proof (induction gos)
  case (add g gos)
  { case 1 with add show ?case by auto }
  { case 2 with add show ?case by auto }
  { case 3
    then obtain u where u: "snd g = Exited u" by auto
    with 3 have "JobFinished u = Result (store c (fst g))"
      by (intro go_ok_update) simp_all
    with 3 add(3) u show ?case by auto }
qed simp_all

lemma sig_inv_written:
  assumes "sig_inv s"
  obtains b us where "sw_out (sg_writer s) = MsgStarted b # map MsgUpdate us" "mset us = written_updates (sg_gos s)"
  using assms by (auto simp: sig_inv_def writer_ok_def)

end
