(* ===== verification/Signal_Properties.thy ===== *)
theory Signal_Properties
  imports Signal_Invariant
begin

text \<open>
  What a signal guarantees to the client of the build and to the scheduler, what it waits for, a
  concrete run, and the run of a valid graph that panics.
\<close>

section \<open>Properties of a signal\<close>

text \<open>
  The locations found so far for the current job: one for each dependency the loop is through
  with, at a worker that has reported it.
\<close>

definition arts_ok :: "signal_run \<Rightarrow> bool" where
  "arts_ok s \<longleftrightarrow> is_go_map (sg_arts s) \<and>
     (\<exists>ds. next_deps (sg_todo s) = ds @ sg_deps s \<and> dom (map_of (sg_arts s)) = set ds) \<and>
     (\<forall>d w. map_of (sg_arts s) d = Some w \<longrightarrow> (w, d) \<in> set (sc_added (sg_sys s)))"

lemma sched_step_added: "sched_step s a = Some t \<Longrightarrow> set (sc_added s) \<subseteq> set (sc_added t)"
  by (cases a) (auto split: go.splits prod.splits option.splits if_splits)

lemma LocateArtifact_reported:
  assumes "sched_inv s" "LocateArtifact r d (sc_sched s) = Returns (w, True)"
  shows "(w, d) \<in> set (sc_added s)"
proof -
  from assms(2) obtain ws where ws: "artifacts (sc_sched s) d = Some ws" "w \<in> set ws"
    by (auto simp: LocateArtifact_def checkIsStop_def Let_def split: if_splits option.splits)
  with assms(1) have "w \<in> set (lastn 4 (reporters d (sc_added s)))"
    by (auto simp: sched_inv_def recent_reporters_def split: if_splits)
  then have "w \<in> set (reporters d (sc_added s))"
    by (rule subsetD [OF set_lastn])
  then show ?thesis by (auto simp: reporters_def)
qed

lemma arts_ok_NextDep:
  assumes inv: "sig_inv s" "arts_ok s" and step: "main_dep r s = Some t"
  shows "arts_ok t"
proof -
  consider (panic) m where "t = s\<lparr>sg_main := SignalPanicked m\<rparr>"
    | (ok) d ds w where "sg_deps s = d # ds" "LocateArtifact r d (sc_sched (sg_sys s)) = Returns (w, True)"
        "t = s\<lparr>sg_deps := ds, sg_arts := AList.update d w (sg_arts s)\<rparr>"
    using step by (auto simp: main_dep_def split: list.splits option.splits if_splits go.splits bool.splits)
  then show ?thesis
  proof cases
    case panic
    with inv(2) show ?thesis by (simp add: arts_ok_def)
  next
    case ok
    from inv(1) ok(2) have "(w, d) \<in> set (sc_added (sg_sys s))"
      by (intro LocateArtifact_reported) (simp_all add: sig_inv_def)
    moreover from inv(2) ok(1) obtain ds0 where "next_deps (sg_todo s) = ds0 @ d # ds"
      "dom (map_of (sg_arts s)) = set ds0"
      by (auto simp: arts_ok_def)
    ultimately show ?thesis
      using inv(2) by (auto simp: arts_ok_def ok(3) is_go_map_def distinct_update intro!: exI [of _ "ds0 @ [d]"])
  qed
qed

lemma arts_ok_step:
  assumes inv: "sig_inv s" "arts_ok s" and step: "sig_step s a = Some t"
  shows "arts_ok t"
proof (cases a)
  case (Env e)
  with step obtain sys where "sched_step (sg_sys s) e = Some sys" "t = s\<lparr>sg_sys := sys\<rparr>"
    by (auto split: if_splits)
  with inv(2) sched_step_added show ?thesis
    by (fastforce simp: arts_ok_def)
next
  case (NextDep r)
  with step inv show ?thesis by (auto split: if_splits intro: arts_ok_NextDep)
next
  case DoSchedule
  with step have "main_schedule s = Some t" by (simp split: if_splits)
  then show ?thesis
    using inv(2) by (cases rule: main_schedule_cases) (auto simp: arts_ok_def)
next
  case (GoBuild p)
  with step inv(2) show ?thesis
    by (auto simp: arts_ok_def go_build_def Let_def split: if_splits option.splits)
next
  case (GoSend k p u)
  with step inv(2) show ?thesis
    by (auto simp: arts_ok_def go_send_def split: if_splits go.splits prod.splits option.splits)
next
  case (GoRemove env p u)
  with step inv(2) show ?thesis by (auto simp: arts_ok_def go_remove_def split: if_splits)
qed (use step inv(2) in \<open>auto simp: arts_ok_def split: if_splits\<close>)

interpretation located: invariant_machine sig_step sig_start "\<lambda>s. sig_inv s \<and> arts_ok s"
  by unfold_locales (auto simp: sig_start_inv arts_ok_step sig_inv_step, auto simp: sig_start_def arts_ok_def)

text \<open>
  C2. Dependencies first: whatever the interleaving of the signal, its goroutines and all other
  users of the scheduler, when the loop gives a job to the scheduler every dependency of that
  job is finished there already, and the specification it gives names exactly one worker for each
  dependency, one that has reported to have it.
\<close>

theorem signal_schedules_after_deps:
  assumes "sig_start s0" "run sig_step s0 as = Some s"
    and "sig_step s DoSchedule = Some t" "sg_done t = sg_done s @ [job]"
  shows "\<exists>files arts p c. ScheduleJob \<lparr>SourceFiles = files, Artifacts = arts, spec_Job = job\<rparr> (sc_sched (sg_sys s)) =
      Returns (p, c) \<and> sc_sched (sg_sys t) = c \<and> is_go_map arts \<and> fst ` set arts = set (Deps job) \<and>
    (\<forall>d \<in> set (Deps job). job_finished (sc_sched (sg_sys s)) d) \<and>
    (\<forall>(d, w) \<in> set arts. (w, d) \<in> set (sc_added (sg_sys s)))"
proof -
  have inv: "sig_inv s" "arts_ok s"
    using located.reachable_inv [OF assms(1,2)] by simp_all
  from assms(3) have "main_schedule s = Some t" by (simp split: if_splits)
  then show ?thesis
  proof (cases rule: main_schedule_cases)
    case (panic m)
    with assms(4) show ?thesis by simp
  next
    case (ok job' files todo spec p c sys)
    with assms(4) have deps: "next_deps (sg_todo s) = Deps job" "sg_deps s = []" and job: "job' = job"
      by (simp_all add: next_deps_def)
    with inv(1) have "\<forall>d \<in> set (Deps job). job_finished (sc_sched (sg_sys s)) d"
      by (auto simp: sig_inv_def deps_ok_def)
    moreover from inv(2) deps have "is_go_map (sg_arts s)" "fst ` set (sg_arts s) = set (Deps job)"
      by (simp_all add: arts_ok_def dom_map_of_conv_image_fst)
    moreover have "\<forall>(d, w) \<in> set (sg_arts s). (w, d) \<in> set (sc_added (sg_sys s))"
      using inv(2) is_go_map_map_of by (fastforce simp: arts_ok_def)
    moreover have "sc_sched (sg_sys t) = c"
      using ScheduleJob_entry(1) [OF ok(5,4)] by (simp add: ok(6))
    ultimately show ?thesis
      using ok(3,4) job by blast
  qed
qed

lemma written_updates_some:
  "\<forall>g \<in># gos. go_ok c g \<Longrightarrow> \<forall>u \<in># written_updates gos. JobFinished u \<noteq> None"
proof (induction gos)
  case (add g gos)
  have "JobFinished u \<noteq> None" if "u \<in># pc_written (snd g)" for u
  proof -
    from that have u: "pc_update (snd g) = Some u" by (cases "snd g") (auto split: if_splits)
    have "go_ok c g" using add.prems by simp
    with u show ?thesis by (intro go_ok_update(2))
  qed
  moreover have "\<forall>u \<in># written_updates gos. JobFinished u \<noteq> None"
    using add by simp
  ultimately show ?case by (simp del: not_None_eq) blast
qed simp

lemma signal_success_updates:
  assumes "sig_start s0" "run sig_step s0 as = Some t" "sg_main t = SignalReturned None"
  shows "\<exists>b us. sw_out (sg_writer t) = MsgStarted b # map MsgUpdate us \<and>
    image_mset JobFinished (mset us) =
      image_mset (\<lambda>j. Result (store (sc_sched (sg_sys t)) (the (jobs (sc_sched (sg_sys t)) (Job_ID j)))))
        (mset (map fst (sg_todo s0))) \<and>
    length (filter BuildFinished us) = (if sg_todo s0 = [] then 0 else 1) \<and>
    (\<forall>u \<in> set us. JobFinished u \<noteq> None)"
proof -
  let ?c = "sc_sched (sg_sys t)"
  have inv: "sig_inv t" by (rule sg.reachable_inv [OF assms(1,2)])
  with assms(3) have ended: "sg_todo t = []" "\<forall>g \<in># sg_gos t. \<exists>u. snd g = Exited u"
    by (simp_all add: sig_inv_def ends_ok_def)
  obtain b us where out: "sw_out (sg_writer t) = MsgStarted b # map MsgUpdate us"
    "mset us = written_updates (sg_gos t)"
    using sig_inv_written [OF inv] .
  from inv ended(1) have entries: "\<forall>g \<in># sg_gos t. go_ok ?c g"
    "image_mset fst (sg_gos t) = image_mset (\<lambda>j. the (jobs ?c (Job_ID j))) (mset (sg_done t))"
    and count: "count_ok 0 (sg_total t) (sg_count t) (sg_gos t)"
    by (simp_all add: sig_inv_def entries_ok_def)
  note written = written_all_exited [OF ended(2)]
  have all: "sg_done t = map fst (sg_todo s0)"
    using sig_run_jobs [OF assms(1,2)] ended(1) by simp
  have "size (sg_gos t) = length (sg_done t)"
    using arg_cong [OF entries(2), of size] by simp
  then have "n_final (sg_gos t) = (if sg_todo s0 = [] then 0 else 1)"
    using count written(2) ended(2) all by (auto simp: count_ok_def)
  then have "length (filter BuildFinished us) = (if sg_todo s0 = [] then 0 else 1)"
    using written(1) out(2) by (metis mset_filter size_mset)
  moreover have "\<forall>u \<in> set us. JobFinished u \<noteq> None"
    using written_updates_some [OF entries(1)] out(2) by (metis set_mset_mset)
  ultimately show ?thesis
    using out written(3) [OF entries(1)] entries(2) all
    by (auto simp: multiset.map_comp comp_def intro!: exI [of _ b] exI [of _ us])
qed

text \<open>
  A build without jobs: its signal returns at once, and nothing ever announces the end. The handler
  of the stream waits for ever, and so does the client that reads it.
\<close>

lemma empty_build_never_ends:
  assumes "sig_start s0" "sg_todo s0 = []" "run sig_step s0 as = Some t"
  shows "\<not> sw_done (sg_writer t)" "sig_step t HandlerReturns = None"
proof -
  have inv: "sig_inv t" by (rule sg.reachable_inv [OF assms(1,3)])
  have "sg_done t = []"
    using sig_run_jobs [OF assms(1,3)] assms(2) by simp
  with inv have "sg_gos t = {#}" by (simp add: sig_inv_def entries_ok_def)
  with inv show "\<not> sw_done (sg_writer t)" by (auto simp: sig_inv_def writer_ok_def)
  then show "sig_step t HandlerReturns = None" by (simp add: handler_returns_def)
qed

text \<open>
  C1. A signal that returns without an error has sent, after the start message and in some
  order, exactly one update for each job of the build, carrying the result the scheduler holds
  for it. Exactly one of them announces the end of the build - unless the build has no jobs:
  then nothing announces it, the writer's channel stays open and the handler of the stream waits
  for ever.
\<close>

theorem signal_success_complete:
  assumes "sig_start s0" "run sig_step s0 as = Some t" "sg_main t = SignalReturned None"
  shows "(\<exists>b us. sw_out (sg_writer t) = MsgStarted b # map MsgUpdate us \<and>
    image_mset JobFinished (mset us) =
      image_mset (\<lambda>j. Result (store (sc_sched (sg_sys t)) (the (jobs (sc_sched (sg_sys t)) (Job_ID j)))))
        (mset (map fst (sg_todo s0))) \<and>
    length (filter BuildFinished us) = (if sg_todo s0 = [] then 0 else 1)) \<and>
    (sg_todo s0 = [] \<longrightarrow> \<not> sw_done (sg_writer t))"
  using signal_success_updates [OF assms] empty_build_never_ends(1) [OF assms(1) _ assms(2)] by blast

lemma signal_success_entries:
  assumes "sig_start s0" "run sig_step s0 as = Some t" "sg_main t = SignalReturned None"
    and "jf \<in> set (sg_todo s0)"
  shows "\<exists>p. jobs (sc_sched (sg_sys t)) (Job_ID (fst jf)) = Some p"
proof -
  have inv: "sig_inv t" by (rule sg.reachable_inv [OF assms(1,2)])
  with assms(3) have "sg_todo t = []" by (simp add: sig_inv_def ends_ok_def)
  then have "fst jf \<in> set (sg_done t)"
    using sig_run_jobs [OF assms(1,2)] assms(4) by simp
  with inv show ?thesis
    unfolding sig_inv_def entries_ok_def by (metis domD image_eqI)
qed

text \<open>The end is announced only when every job of the build is finished.\<close>

lemma final_all_finished:
  assumes inv: "sig_inv t" and final: "n_final (sg_gos t) \<noteq> 0"
  shows "sg_todo t = []" "\<forall>j \<in> set (sg_done t). job_finished (sc_sched (sg_sys t)) (Job_ID j)"
proof -
  let ?c = "sc_sched (sg_sys t)"
  from inv have entries: "entries_ok ?c (sg_pending t) (sg_done t) (sg_gos t)"
    and count: "count_ok (length (sg_todo t)) (sg_total t) (sg_count t) (sg_gos t)"
    by (simp_all add: sig_inv_def)
  have le: "n_counted (sg_gos t) \<le> size (sg_gos t)"
    by (simp add: n_counted_def)
  with count final show "sg_todo t = []"
    by (auto simp: count_ok_def simp flip: length_0_conv)
  with count final have "n_counted (sg_gos t) = size (sg_gos t)"
    by (auto simp: count_ok_def)
  then have "filter_mset (\<lambda>g. pc_counted (snd g)) (sg_gos t) = sg_gos t"
    unfolding n_counted_def by (metis multiset_filter_subset mset_subset_size nat_neq_iff subset_mset.le_imp_less_or_eq)
  then have counted: "pc_counted (snd g)" if "g \<in># sg_gos t" for g
    using that by (metis (no_types, lifting) mem_Collect_eq set_mset_filter)
  show "\<forall>j \<in> set (sg_done t). job_finished ?c (Job_ID j)"
  proof
    fix j assume j: "j \<in> set (sg_done t)"
    then have "the (jobs ?c (Job_ID j)) \<in># image_mset fst (sg_gos t)" "Job_ID j \<in> dom (sg_pending t)"
      using entries by (auto simp: entries_ok_def)
    from this(2) obtain p where "sg_pending t (Job_ID j) = Some p" by blast
    then have "jobs ?c (Job_ID j) = Some p"
      using entries by (simp add: entries_ok_def)
    moreover from \<open>_ \<in># image_mset fst _\<close> obtain g where g: "g \<in># sg_gos t" "fst g = the (jobs ?c (Job_ID j))"
      by auto
    moreover from g(1) entries counted have "Finished (store ?c (fst g))"
      by (auto simp: entries_ok_def go_ok_def)
    ultimately show "job_finished ?c (Job_ID j)"
      by (simp add: job_finished_def)
  qed
qed


text \<open>
  When the handler of the stream has returned, the announcement of the end is among what had been
  written by then.
\<close>

definition cut_ok :: "streamStatusWriter \<Rightarrow> bool" where
  "cut_ok w \<longleftrightarrow> (\<forall>n. sw_cut w = Some n \<longrightarrow>
     n \<le> length (sw_out w) \<and> (\<exists>u. MsgUpdate u \<in> set (take n (sw_out w)) \<and> BuildFinished u))"

lemma done_announced:
  assumes "writer_ok w gos" "sw_done w"
  shows "\<exists>u. MsgUpdate u \<in> set (sw_out w) \<and> BuildFinished u"
proof -
  from assms obtain p u b us where g: "(p, Removing u) \<in># gos \<or> (p, Exited u) \<in># gos" "BuildFinished u"
    and out: "sw_out w = MsgStarted b # map MsgUpdate us" "mset us = written_updates gos"
    by (auto simp: writer_ok_def)
  from g(1) have "u \<in># written_updates gos"
    by (auto dest!: multi_member_split)
  then have "u \<in> set us" by (metis out(2) set_mset_mset)
  with g(2) out(1) show ?thesis by auto
qed

lemma cut_ok_append: "cut_ok w \<Longrightarrow> cut_ok (w\<lparr>sw_out := sw_out w @ ms, sw_done := d\<rparr>)"
  by (auto simp: cut_ok_def)

lemma cut_ok_step:
  assumes inv: "sig_inv s" and ok: "cut_ok (sg_writer s)" and step: "sig_step s a = Some t"
  shows "cut_ok (sg_writer t)"
proof (cases a)
  case (GoSend k p u)
  have opened: "startMsgSend (sg_writer s)"
    using inv by (simp add: sig_inv_def writer_ok_def)
  from step GoSend have t: "t = go_send k p u s" by (simp split: if_splits)
  from opened show ?thesis
    using ok cut_ok_append [OF ok, where ms = "[MsgUpdate u]" and d = "sw_done (sg_writer s)"]
      cut_ok_append [OF ok, where ms = "[MsgUpdate u]" and d = "sw_done (sg_writer s) \<or> BuildFinished u"]
    by (cases rule: Updated_cases [of _ k u]) (simp_all add: t go_send_def)
next
  case HandlerReturns
  with step have t: "t = s\<lparr>sg_writer := (sg_writer s)\<lparr>sw_cut := Some (length (sw_out (sg_writer s)))\<rparr>\<rparr>"
    and "sw_done (sg_writer s)"
    by (auto simp: handler_returns_def split: if_splits)
  moreover have "writer_ok (sg_writer s) (sg_gos s)" using inv by (simp add: sig_inv_def)
  ultimately show ?thesis
    using done_announced [of "sg_writer s" "sg_gos s"] by (simp add: cut_ok_def)
next
  case (NextDep r)
  with step ok show ?thesis
    by (auto simp: main_dep_def split: if_splits list.splits option.splits go.splits bool.splits)
next
  case DoSchedule
  with step have "main_schedule s = Some t" by (simp split: if_splits)
  then show ?thesis using ok by (cases rule: main_schedule_cases) simp_all
next
  case (GoBuild p)
  with step ok show ?thesis by (auto simp: go_build_def Let_def split: if_splits option.splits)
next
  case (GoRemove env p u)
  with step ok show ?thesis by (auto simp: go_remove_def split: if_splits)
qed (use step ok in \<open>auto simp del: sched_step.simps split: if_splits\<close>)

lemma cut_ok_run:
  assumes "sig_start s0" "run sig_step s0 as = Some t"
  shows "cut_ok (sg_writer t)"
proof -
  have "cut_ok (sg_writer v)" if "sig_inv s" "sig_step s a = Some v" "cut_ok (sg_writer s)" for s a v
    using cut_ok_step [OF that(1,3,2)] .
  from sg.run_stable [of "\<lambda>_. True" "\<lambda>v. cut_ok (sg_writer v)", OF this sig_start_inv [OF assms(1)] assms(2)] assms(1)
  show ?thesis by (simp add: sig_start_def cut_ok_def)
qed

text \<open>Every update that has been written carries the result of a job, and no two that of the same.\<close>

lemma written_results:
  "\<forall>g \<in># gos. go_ok c g \<Longrightarrow> image_mset JobFinished (written_updates gos) \<subseteq>#
     image_mset (\<lambda>p. Result (store c p)) (image_mset fst gos)"
proof (induction gos)
  case (add g gos)
  have "image_mset JobFinished (pc_written (snd g)) \<subseteq># {#Result (store c (fst g))#}"
  proof (cases "pc_written (snd g) = {#}")
    case False
    then obtain u where "pc_written (snd g) = {#u#}" "pc_update (snd g) = Some u"
      by (cases "snd g") (auto split: if_splits)
    with go_ok_update(1) [of c g u] add.prems show ?thesis by simp
  qed simp
  with add show ?case
    by (simp add: subset_mset.add_mono [of _ "{#Result (store c (fst g))#}", simplified])
qed simp

lemma delivered_updates:
  assumes "sig_start s0" "run sig_step s0 as = Some t" "sw_cut (sg_writer t) = Some n"
  shows "\<exists>b us. delivered (sg_writer t) = MsgStarted b # map MsgUpdate us \<and> n = Suc (length us) \<and> (\<exists>u \<in> set us. BuildFinished u) \<and>
    (\<forall>u \<in> set us. JobFinished u \<noteq> None) \<and> image_mset JobFinished (mset us) \<subseteq>#
      image_mset (\<lambda>j. Result (store (sc_sched (sg_sys t)) (the (jobs (sc_sched (sg_sys t)) (Job_ID j)))))
        (mset (map fst (sg_todo s0))) \<and>
    (\<forall>jf \<in> set (sg_todo s0). job_finished (sc_sched (sg_sys t)) (Job_ID (fst jf)))"
proof -
  let ?c = "sc_sched (sg_sys t)"
  have inv: "sig_inv t" by (rule sg.reachable_inv [OF assms(1,2)])
  obtain b us where out: "sw_out (sg_writer t) = MsgStarted b # map MsgUpdate us"
    "mset us = written_updates (sg_gos t)"
    using sig_inv_written [OF inv] .
  from cut_ok_run [OF assms(1,2)] assms(3) obtain u where
    u: "MsgUpdate u \<in> set (take n (sw_out (sg_writer t)))" "BuildFinished u" and le: "n \<le> length (sw_out (sg_writer t))"
    by (auto simp: cut_ok_def)
  then obtain m where n: "n = Suc m" by (cases n) auto
  with u(1) out(1) have um: "u \<in> set (take m us)" by (auto simp: take_map)
  have part: "mset (take m us) \<subseteq># mset us"
    by (metis append_take_drop_id mset_append mset_subset_eq_add_left)
  from um have "u \<in> set us" by (rule in_set_takeD)
  with u(2) have "filter BuildFinished us \<noteq> []" by (auto simp: filter_empty_conv)
  moreover have "length (filter BuildFinished us) \<le> n_final (sg_gos t)"
    using written_final_le [of "sg_gos t"] out(2) by (metis mset_filter size_mset)
  ultimately have final: "n_final (sg_gos t) \<noteq> 0" by (cases "filter BuildFinished us") auto
  have all: "sg_done t = map fst (sg_todo s0)"
    using sig_run_jobs [OF assms(1,2)] final_all_finished(1) [OF inv final] by simp
  have entries: "\<forall>g \<in># sg_gos t. go_ok ?c g"
    "image_mset fst (sg_gos t) = image_mset (\<lambda>j. the (jobs ?c (Job_ID j))) (mset (sg_done t))"
    using inv by (simp_all add: sig_inv_def entries_ok_def)
  have "image_mset JobFinished (mset (take m us)) \<subseteq># image_mset JobFinished (mset us)"
    by (rule image_mset_subseteq_mono [OF part])
  also have "\<dots> \<subseteq># image_mset (\<lambda>p. Result (store ?c p)) (image_mset fst (sg_gos t))"
    unfolding out(2) by (rule written_results [OF entries(1)])
  also have "\<dots> = image_mset (\<lambda>j. Result (store ?c (the (jobs ?c (Job_ID j))))) (mset (map fst (sg_todo s0)))"
    by (simp add: entries(2) all multiset.map_comp comp_def)
  finally have results: "image_mset JobFinished (mset (take m us)) \<subseteq>#
      image_mset (\<lambda>j. Result (store ?c (the (jobs ?c (Job_ID j))))) (mset (map fst (sg_todo s0)))" .
  have "\<forall>u \<in> set (take m us). JobFinished u \<noteq> None"
    using written_updates_some [OF entries(1)] out(2) by (metis in_set_takeD set_mset_mset)
  moreover have "\<forall>jf \<in> set (sg_todo s0). job_finished ?c (Job_ID (fst jf))"
    using final_all_finished(2) [OF inv final] all by simp
  moreover have "delivered (sg_writer t) = MsgStarted b # map MsgUpdate (take m us)"
    by (simp add: delivered_def assms(3) out(1) n take_map)
  moreover have "n = Suc (length (take m us))"
    using le n out(1) by simp
  ultimately show ?thesis
    using results um u(2) by blast
qed

text \<open>A goroutine belongs to a job that has been scheduled; where it can move.\<close>

lemma go_job:
  assumes "entries_ok c pending js gos" "g \<in># gos"
  obtains j where "j \<in> set js" "jobs c (Job_ID j) = Some (fst g)"
proof -
  from assms have "fst g \<in># image_mset (\<lambda>j. the (jobs c (Job_ID j))) (mset js)"
    by (metis entries_ok_def image_eqI set_image_mset)
  then obtain j where j: "j \<in> set js" "fst g = the (jobs c (Job_ID j))" by auto
  with assms(1) have "Job_ID j \<in> dom pending" by (simp add: entries_ok_def)
  with assms(1) j that show thesis by (force simp: entries_ok_def)
qed

definition own_step :: "sig_act \<Rightarrow> bool" where
  "own_step a \<longleftrightarrow> a \<noteq> MainCancel \<and> (\<forall>e. a \<noteq> Env e) \<and> (\<forall>p. a \<noteq> GoCancel p) \<and> (\<forall>n. a \<noteq> LoseErr n) \<and> a \<noteq> HandlerReturns"

lemma goroutine_moves:
  assumes "sg_crash s = None" "(p, pc) \<in># sg_gos s" "\<not> go_over pc"
    and "pc = AwaitJob \<longrightarrow> Finished (store (sc_sched (sg_sys s)) p)"
  shows "\<exists>a t. sig_step s a = Some t \<and> own_step a"
proof -
  have "(\<exists>t. sig_step s (GoCount p) = Some t) \<or> (\<exists>t. sig_step s (GoBuild p) = Some t) \<or>
    (\<exists>t u. sig_step s (GoSend (None, None) p u) = Some t) \<or> (\<exists>t u. sig_step s (GoRemove no_faults p u) = Some t)"
    using assms by (cases pc) (auto simp: go_over_def)
  then show ?thesis
    unfolding own_step_def by (elim disjE exE) (blast | fastforce)+
qed

lemma main_dep_moves:
  assumes "sg_deps s = d # ds" "\<forall>p. sg_pending s d = Some p \<longrightarrow> Finished (store (sc_sched (sg_sys s)) p)"
  shows "main_dep r s \<noteq> None"
proof (cases "sg_pending s d")
  case (Some p)
  with assms show ?thesis
    by (auto simp: main_dep_def LocateArtifact_def checkIsStop_def Let_def split: bool.split)
qed (simp add: main_dep_def assms(1))

lemma main_schedule_moves:
  assumes "sg_todo s = (job, files) # todo" "sg_deps s = []"
    and "length (channal (queue (sc_sched (sg_sys s)))) < queue_capacity"
  shows "main_schedule s \<noteq> None"
proof -
  let ?spec = "\<lparr>SourceFiles = files, Artifacts = sg_arts s, spec_Job = job\<rparr>"
  have "ScheduleJob ?spec (sc_sched (sg_sys s)) \<noteq> Blocks"
    using cq.push_room [OF assms(3)]
    by (auto simp: ScheduleJob_def checkIsStop_def split: option.split dest: spec)
       (metis option.distinct(1))
  then show ?thesis
    using assms(1,2) by (auto simp: main_schedule_def Let_def split: go.splits prod.splits)
qed

text \<open>
  C3. The signal only ever waits for workers: as long as it has neither returned nor panicked,
  one of its own goroutines can move (a cancellation does not count), or a job it has scheduled
  is not finished yet, or the scheduler's queue is full.
\<close>

theorem signal_progress:
  assumes "sig_start s0" "run sig_step s0 as = Some s"
    and "sg_crash s = None" "sg_main s \<in> {Scheduling, AwaitAll}"
  shows "(\<exists>a t. sig_step s a = Some t \<and> own_step a) \<or>
    (\<exists>j \<in> set (sg_done s). \<not> job_finished (sc_sched (sg_sys s)) (Job_ID j)) \<or>
    \<not> length (channal (queue (sc_sched (sg_sys s)))) < queue_capacity"
proof (rule ccontr)
  let ?c = "sc_sched (sg_sys s)"
  assume stuck: "\<not> ?thesis"
  have inv: "sig_inv s" by (rule sg.reachable_inv [OF assms(1,2)])
  then have entries: "entries_ok ?c (sg_pending s) (sg_done s) (sg_gos s)" by (simp add: sig_inv_def)
  have finished: "Finished (store ?c p)" if "jobs ?c (Job_ID j) = Some p" "j \<in> set (sg_done s)" for j p
    using stuck that by (auto simp: job_finished_def)
  have blocked: "sig_step s a = None" if "own_step a" for a
    using stuck that by (cases "sig_step s a") blast+
  show False
  proof (cases "sg_main s = Scheduling")
    case True
    show False
    proof (cases "sg_todo s")
      case Nil
      with True assms(3) blocked [of EndLoop] show False by (simp add: own_step_def)
    next
      case (Cons jf todo)
      obtain job files where jf: "jf = (job, files)" by fastforce
      show False
      proof (cases "sg_deps s")
        case Nil
        with main_schedule_moves [of s job files todo] Cons jf stuck True assms(3) blocked [of DoSchedule]
        show False by (simp add: own_step_def)
      next
        case deps: (Cons d ds)
        have "\<forall>p. sg_pending s d = Some p \<longrightarrow> Finished (store ?c p)"
        proof (intro allI impI)
          fix p assume p: "sg_pending s d = Some p"
          with entries have "d \<in> Job_ID ` set (sg_done s)" "jobs ?c d = Some p"
            by (auto simp: entries_ok_def)
          then show "Finished (store ?c p)" using finished by auto
        qed
        then have "main_dep 0 s \<noteq> None"
          by (rule main_dep_moves [OF deps])
        with True assms(3) blocked [of "NextDep 0"] show False by (simp add: own_step_def)
      qed
    qed
  next
    case False
    with assms(4) have main: "sg_main s = AwaitAll" by simp
    have "go_over (snd g)" if g: "g \<in># sg_gos s" for g
    proof (rule ccontr)
      assume "\<not> go_over (snd g)"
      moreover obtain j where "j \<in> set (sg_done s)" "jobs ?c (Job_ID j) = Some (fst g)"
        using go_job [OF entries g] .
      ultimately show False
        using goroutine_moves [OF assms(3), of "fst g" "snd g"] g finished blocked
        by (metis option.distinct(1) prod.collapse)
    qed
    with main assms(3) blocked [of "MainReturn False"] show False by (simp add: own_step_def)
  qed
qed

section \<open>A concrete build\<close>

text \<open>Two jobs, the second depends on the first.\<close>

definition demo_todo :: "(Job \<times> (ID \<times> string) list) list" where
  "demo_todo = [(job_named 98 [], []), (job_named 97 [ID_lit [98]], [])]"

definition demo_result :: "ID \<Rightarrow> JobResult" where
  "demo_result i = \<lparr>res_ID = i, Stdout = [], Stderr = [], ExitCode = 0, Error = None\<rparr>"

definition demo_signal :: signal_run where
  "demo_signal = \<lparr>sg_sys = sched_fresh,
     sg_writer = \<lparr>startMsgSend = True, sw_done = False,
       sw_out = [MsgStarted \<lparr>started_ID = ID_zero, MissingFiles = []\<rparr>], sw_cut = None\<rparr>,
     sg_files = shared empty_sys, sg_done = [], sg_todo = demo_todo, sg_deps = [], sg_arts = [],
     sg_pending = Map.empty, sg_gos = {#}, sg_count = 0, sg_total = 2, sg_errs = [],
     sg_main = Scheduling, sg_crash = None\<rparr>"

lemma demo_signal_start: "sig_start demo_signal"
  by (auto simp: sig_start_def demo_signal_def demo_todo_def next_deps_def job_named_def
      intro!: exI [of _ "[]"])

definition demo_update :: "ID \<Rightarrow> bool \<Rightarrow> StatusUpdate" where
  "demo_update i last_job = job_update (demo_result i) last_job"

text \<open>The first job runs on a worker, then the second.\<close>

definition demo_jobs_run :: "sig_act list" where
  "demo_jobs_run =
     [DoSchedule, Env ActPick, Env (ActComplete ''w'' idB (Some (demo_result idB))), Env (ActAdd ''w'' idB),
      NextDep 0, DoSchedule, Env ActPick, Env (ActComplete ''w'' idA (Some (demo_result idA))),
      Env (ActAdd ''w'' idA), EndLoop]"

definition demo_updates_run :: "sig_act list" where
  "demo_updates_run =
     [GoCount 0, GoCount 1, GoBuild 0, GoBuild 1, GoSend (None, None) 0 (demo_update idB True),
      GoSend (None, None) 1 (demo_update idA False)]"

lemmas demo_defs = demo_signal_def demo_todo_def sched_fresh_def NewScheduler_def newChanQueue_def
  job_named_def

lemma demo_jobs_end:
  "\<exists>t. run sig_step demo_signal demo_jobs_run = Some t \<and> sg_gos t = {#(0, AwaitJob), (1, AwaitJob)#} \<and>
     Finished (store (sc_sched (sg_sys t)) 0) \<and> Finished (store (sc_sched (sg_sys t)) 1) \<and>
     Result (store (sc_sched (sg_sys t)) 0) = Some (demo_result idB) \<and>
     Result (store (sc_sched (sg_sys t)) 1) = Some (demo_result idA) \<and>
     sg_writer t = sg_writer demo_signal \<and> sg_count t = 0 \<and> sg_total t = 2 \<and> sg_main t = AwaitAll \<and>
     sg_crash t = None \<and> sg_errs t = []"
  by (simp add: demo_jobs_run_def demo_defs main_schedule_def main_dep_def next_deps_def Let_def
      sched_ops Push_def Pop_def queue_capacity_def new_pending_def spec_ID_def)

lemma demo_updates_end:
  assumes "sg_gos t = {#(0, AwaitJob), (1, AwaitJob)#}"
    "Finished (store (sc_sched (sg_sys t)) 0)" "Finished (store (sc_sched (sg_sys t)) 1)"
    "Result (store (sc_sched (sg_sys t)) 0) = Some (demo_result idB)"
    "Result (store (sc_sched (sg_sys t)) 1) = Some (demo_result idA)"
    "sg_writer t = sg_writer demo_signal" "sg_count t = 0" "sg_total t = 2" "sg_main t = AwaitAll"
    "sg_crash t = None" "sg_errs t = []"
  shows "\<exists>u. run sig_step t demo_updates_run = Some u \<and>
      sw_out (sg_writer u) = sw_out (sg_writer demo_signal) @
        [MsgUpdate (demo_update idB True), MsgUpdate (demo_update idA False)] \<and>
      sg_gos u = {#(0, Removing (demo_update idB True)), (1, Removing (demo_update idA False))#} \<and>
      sg_main u = AwaitAll \<and> sg_crash u = None \<and> sg_errs u = [] \<and> sw_done (sg_writer u) \<and> sw_cut (sg_writer u) = None"
  using assms
  by (simp add: demo_updates_run_def go_build_def go_send_def go_moves_def Let_def demo_update_def
      status_ops job_update_def demo_signal_def add_mset_commute)

definition demo_full_run :: "sig_act list" where
  "demo_full_run = demo_jobs_run @ demo_updates_run @
     [GoRemove no_faults 0 (demo_update idB True), GoRemove no_faults 1 (demo_update idA False), MainReturn False]"

lemma demo_full_ends:
  "\<exists>t. run sig_step demo_signal demo_full_run = Some t \<and> sg_main t = SignalReturned None \<and> sg_crash t = None \<and>
     sw_done (sg_writer t) \<and> sw_cut (sg_writer t) = None \<and> length (sw_out (sg_writer t)) = 3"
proof -
  obtain t where t: "run sig_step demo_signal demo_jobs_run = Some t"
    and props: "sg_gos t = {#(0, AwaitJob), (1, AwaitJob)#}"
    "Finished (store (sc_sched (sg_sys t)) 0)" "Finished (store (sc_sched (sg_sys t)) 1)"
    "Result (store (sc_sched (sg_sys t)) 0) = Some (demo_result idB)"
    "Result (store (sc_sched (sg_sys t)) 1) = Some (demo_result idA)"
    "sg_writer t = sg_writer demo_signal" "sg_count t = 0" "sg_total t = 2" "sg_main t = AwaitAll"
    "sg_crash t = None" "sg_errs t = []"
    using demo_jobs_end by blast
  obtain u where u: "run sig_step t demo_updates_run = Some u"
    "sg_gos u = {#(0, Removing (demo_update idB True)), (1, Removing (demo_update idA False))#}"
    "sg_main u = AwaitAll" "sg_crash u = None" "sg_errs u = []" "sw_done (sg_writer u)" "sw_cut (sg_writer u) = None"
    "length (sw_out (sg_writer u)) = 3"
    using demo_updates_end [OF props] by (auto simp: demo_signal_def)
  have "\<exists>v. run sig_step u [GoRemove no_faults 0 (demo_update idB True),
      GoRemove no_faults 1 (demo_update idA False), MainReturn False] = Some v \<and>
      sg_main v = SignalReturned None \<and> sg_crash v = None \<and> sw_done (sg_writer v) \<and> sw_cut (sg_writer v) = None \<and>
      length (sw_out (sg_writer v)) = 3"
    using u(2-) by (simp add: go_remove_def go_moves_def go_over_def add_mset_commute)
  with t u(1) show ?thesis
    by (simp add: demo_full_run_def run_append del: run.simps)
qed

lemma demo_full_end:
  "\<exists>t. run sig_step demo_signal demo_full_run = Some t \<and> sg_main t = SignalReturned None"
  using demo_full_ends by blast

text \<open>The handler returns after everything, or as soon as the end is announced.\<close>

definition demo_early_run :: "sig_act list" where
  "demo_early_run = demo_jobs_run @ take 5 demo_updates_run @ HandlerReturns # drop 5 demo_updates_run"

lemma demo_handler_late:
  "\<exists>t. run sig_step demo_signal (demo_full_run @ [HandlerReturns]) = Some t \<and> sg_main t = SignalReturned None \<and>
     sw_cut (sg_writer t) = Some 3 \<and> length (sw_out (sg_writer t)) = 3"
proof -
  obtain t where "run sig_step demo_signal demo_full_run = Some t" "sg_main t = SignalReturned None" "sg_crash t = None"
    "sw_done (sg_writer t)" "sw_cut (sg_writer t) = None" "length (sw_out (sg_writer t)) = 3"
    using demo_full_ends by blast
  then show ?thesis by (simp add: run_append handler_returns_def)
qed

lemma demo_handler_early:
  "\<exists>t. run sig_step demo_signal demo_early_run = Some t \<and> sw_cut (sg_writer t) = Some 2 \<and> length (sw_out (sg_writer t)) = 3"
proof -
  obtain t where t: "run sig_step demo_signal demo_jobs_run = Some t"
    and props: "sg_gos t = {#(0, AwaitJob), (1, AwaitJob)#}"
    "Finished (store (sc_sched (sg_sys t)) 0)" "Finished (store (sc_sched (sg_sys t)) 1)"
    "Result (store (sc_sched (sg_sys t)) 0) = Some (demo_result idB)"
    "Result (store (sc_sched (sg_sys t)) 1) = Some (demo_result idA)"
    "sg_writer t = sg_writer demo_signal" "sg_count t = 0" "sg_total t = 2" "sg_main t = AwaitAll"
    "sg_crash t = None" "sg_errs t = []"
    using demo_jobs_end by blast
  from props have "\<exists>u. run sig_step t (take 5 demo_updates_run @ HandlerReturns # drop 5 demo_updates_run) = Some u \<and>
      sw_cut (sg_writer u) = Some 2 \<and> length (sw_out (sg_writer u)) = 3"
    by (simp add: demo_updates_run_def go_build_def go_send_def go_moves_def Let_def demo_update_def
      status_ops job_update_def demo_signal_def add_mset_commute handler_returns_def)
  with t show ?thesis
    by (simp add: demo_early_run_def run_append del: run.simps)
qed

text \<open>The second job of the build is scheduled after its dependency has been located.\<close>

lemma demo_second_scheduled:
  "\<exists>s t. run sig_step demo_signal (take 5 demo_jobs_run) = Some s \<and> sig_step s DoSchedule = Some t \<and>
     sg_done t = sg_done s @ [job_named 97 [idB]]"
  by (simp add: demo_jobs_run_def demo_defs main_schedule_def main_dep_def next_deps_def Let_def
      sched_ops Push_def Pop_def queue_capacity_def new_pending_def spec_ID_def)

theorem signal_schedules_after_deps_witness:
  "\<exists>s t arts. run sig_step demo_signal (take 5 demo_jobs_run) = Some s \<and> sig_step s DoSchedule = Some t \<and>
    fst ` set arts = {idB} \<and> (\<forall>(d, w) \<in> set arts. (w, d) \<in> set (sc_added (sg_sys s))) \<and>
    job_finished (sc_sched (sg_sys s)) idB"
proof -
  obtain s t where s: "run sig_step demo_signal (take 5 demo_jobs_run) = Some s" "sig_step s DoSchedule = Some t"
    "sg_done t = sg_done s @ [job_named 97 [idB]]"
    using demo_second_scheduled by blast
  from signal_schedules_after_deps [OF demo_signal_start this] s(1,2) show ?thesis
    by (auto simp: job_named_def)
qed

theorem signal_success_complete_witness:
  "\<exists>t b us. run sig_step demo_signal demo_full_run = Some t \<and> sg_main t = SignalReturned None \<and>
    sw_out (sg_writer t) = MsgStarted b # map MsgUpdate us \<and> length (filter BuildFinished us) = 1"
  using demo_full_end signal_success_complete [OF demo_signal_start, of demo_full_run]
  by (fastforce simp: demo_signal_def demo_todo_def)


theorem signal_progress_witness:
  "(\<exists>a t. sig_step demo_signal a = Some t \<and> own_step a) \<or>
    (\<exists>j \<in> set (sg_done demo_signal). \<not> job_finished (sc_sched (sg_sys demo_signal)) (Job_ID j)) \<or>
    \<not> length (channal (queue (sc_sched (sg_sys demo_signal)))) < queue_capacity"
  using signal_progress [OF demo_signal_start, of "[]" demo_signal] by (simp add: demo_signal_def)

text \<open>
  The announcement of the end can overtake the update of another job: there is a run of a
  two-job build in which it goes out with the update of the first job, before the update of the
  second; the HTTP handler of the stream may then already have returned.
\<close>

theorem finish_overtakes_update:
  "\<exists>t. run sig_step demo_signal (demo_jobs_run @ demo_updates_run) = Some t \<and>
    sw_out (sg_writer t) = sw_out (sg_writer demo_signal) @
      [MsgUpdate (demo_update idB True), MsgUpdate (demo_update idA False)]"
proof -
  obtain t where t: "run sig_step demo_signal demo_jobs_run = Some t"
    and props: "sg_gos t = {#(0, AwaitJob), (1, AwaitJob)#}"
    "Finished (store (sc_sched (sg_sys t)) 0)" "Finished (store (sc_sched (sg_sys t)) 1)"
    "Result (store (sc_sched (sg_sys t)) 0) = Some (demo_result idB)"
    "Result (store (sc_sched (sg_sys t)) 1) = Some (demo_result idA)"
    "sg_writer t = sg_writer demo_signal" "sg_count t = 0" "sg_total t = 2" "sg_main t = AwaitAll"
    "sg_crash t = None" "sg_errs t = []"
    using demo_jobs_end by blast
  with demo_updates_end [OF props] show ?thesis
    by (simp add: run_append del: run.simps) blast
qed

text \<open>
  C39. A build of a valid graph can panic: between the two parts of \<open>OnJobComplete\<close> the loop sees
  the dependency finished and does not find its artifact.
\<close>

theorem signal_race_panics:
  "\<exists>t. run sig_step demo_signal [DoSchedule, Env ActPick,
      Env (ActComplete ''w'' idB (Some (demo_result idB))), NextDep 0] = Some t \<and>
    sg_main t = SignalPanicked ''top sort does not work'' \<and> valid_graph (map fst (sg_todo demo_signal))"
proof -
  have "topo_ordered (map fst (sg_todo demo_signal))"
    by (auto simp: demo_defs topo_ordered_def less_Suc_eq)
  then have "valid_graph (map fst (sg_todo demo_signal))"
    by (rule topo_ordered_valid [rotated]) (simp add: demo_defs)
  moreover have "\<exists>t. run sig_step demo_signal [DoSchedule, Env ActPick,
      Env (ActComplete ''w'' idB (Some (demo_result idB))), NextDep 0] = Some t \<and>
    sg_main t = SignalPanicked ''top sort does not work''"
    by (simp add: demo_defs main_schedule_def main_dep_def next_deps_def Let_def
      sched_ops Push_def Pop_def queue_capacity_def new_pending_def spec_ID_def)
  ultimately show ?thesis by blast
qed

section \<open>Without the race\<close>

text \<open>
  The machine in which \<open>OnJobComplete\<close> is atomic: both its parts in one step. The scheduler is
  not stopped, and no call is between its parts.
\<close>

fun sig_astep :: "signal_run \<Rightarrow> sig_act \<Rightarrow> signal_run option" where
  "sig_astep s (Env (ActComplete w i res)) = run sig_step s [Env (ActComplete w i res), Env (ActAdd w i)]"
| "sig_astep s (Env (ActAdd w i)) = None"
| "sig_astep s a = sig_step s a"

definition calm :: "signal_run \<Rightarrow> bool" where
  "calm s \<longleftrightarrow> sc_adding (sg_sys s) = {#} \<and> \<not> isStop (sc_sched (sg_sys s)) \<and>
     topo_ordered (sg_done s @ map fst (sg_todo s)) \<and> (\<forall>m. sg_main s \<noteq> SignalPanicked m)"

definition calm_start :: "signal_run \<Rightarrow> bool" where
  "calm_start s \<longleftrightarrow> sig_start s \<and> calm s"

lemma sched_step_stop: "sched_step s a = Some t \<Longrightarrow> isStop (sc_sched t) = isStop (sc_sched s)"
  by (cases a)
     (auto simp: sched_ops Let_def split: go.splits prod.splits option.splits if_splits)

lemma sched_step_adding:
  "sched_step s a = Some t \<Longrightarrow> sc_adding s = {#} \<Longrightarrow> \<forall>w i r. a \<noteq> ActComplete w i r \<Longrightarrow> sc_adding t = {#}"
  by (cases a) (auto split: go.splits prod.splits option.splits if_splits)

text \<open>The dependency the loop looks at is an earlier job of the order.\<close>

lemma next_dep_earlier:
  assumes "topo_ordered (js @ map fst todo)" "next_deps todo = ds @ d # ds'"
  shows "d \<in> Job_ID ` set js"
proof -
  from assms(2) obtain jf rest where todo: "todo = jf # rest" and d: "d \<in> set (Deps (fst jf))"
    by (cases todo) (auto simp: next_deps_def)
  have "set (Deps ((js @ map fst todo) ! length js)) \<subseteq> Job_ID ` set (take (length js) (js @ map fst todo))"
    using assms(1) unfolding topo_ordered_def by (drule_tac spec [of _ "length js"]) (simp add: todo)
  with todo d show ?thesis by auto
qed

lemma located_calm:
  assumes "sched_inv s" "sc_adding s = {#}" "\<not> isStop (sc_sched s)"
    and "jobs (sc_sched s) i = Some p" "Finished (store (sc_sched s) p)"
  shows "\<exists>w. LocateArtifact r i (sc_sched s) = Returns (w, True)"
proof -
  from assms obtain ws where "artifacts (sc_sched s) i = Some ws" "recent_reporters i (sc_added s) = Some ws"
    by (force simp: sched_inv_def located_ok_def)
  with recent_reporters_length assms(3) show ?thesis
    by (fastforce simp: LocateArtifact_def checkIsStop_def)
qed

lemma calm_NextDep:
  assumes inv: "sig_inv s" and calm: "calm s" and step: "main_dep r s = Some t"
  shows "\<exists>d ds p w. sg_deps s = d # ds \<and> t = s\<lparr>sg_deps := ds, sg_arts := AList.update d w (sg_arts s)\<rparr>"
proof -
  from step obtain d ds where deps: "sg_deps s = d # ds"
    by (auto simp: main_dep_def split: list.splits)
  from inv deps obtain ds0 where "next_deps (sg_todo s) = ds0 @ d # ds"
    by (auto simp: sig_inv_def deps_ok_def)
  with calm have "d \<in> Job_ID ` set (sg_done s)"
    by (auto simp: calm_def dest: next_dep_earlier)
  with inv obtain p where p: "sg_pending s d = Some p" "jobs (sc_sched (sg_sys s)) d = Some p"
    by (metis domIff entries_ok_def option.exhaust sig_inv_def)
  have sched: "sched_inv (sg_sys s)" "sc_adding (sg_sys s) = {#}" "\<not> isStop (sc_sched (sg_sys s))"
    using inv calm by (simp_all add: sig_inv_def calm_def)
  show ?thesis
  proof (cases "Finished (store (sc_sched (sg_sys s)) p)")
    case True
    from located_calm [OF sched p(2) True, of r] deps p(1) True step show ?thesis
      by (auto simp: main_dep_def)
  qed (use deps p(1) step in \<open>simp add: main_dep_def\<close>)
qed

lemma calm_Schedule:
  assumes "calm s" "sg_main s = Scheduling" "main_schedule s = Some t"
  shows "calm t"
  using assms(3)
proof (cases rule: main_schedule_cases)
  case (panic m)
  with assms show ?thesis by (simp add: calm_def)
next
  case (ok job files todo spec p c sys)
  with assms(1,2) sched_step_stop [OF ok(5)] sched_step_adding [OF ok(5)] show ?thesis
    by (simp add: calm_def)
qed

lemma calm_step:
  assumes inv: "sig_inv s" and calm: "calm s" and step: "sig_astep s a = Some t"
  shows "sig_inv t \<and> calm t"
proof (cases "\<exists>w i r. a = Env (ActComplete w i r)")
  case True
  then obtain w i r where a: "a = Env (ActComplete w i r)" by blast
  with step obtain s1 where s1: "sig_step s (Env (ActComplete w i r)) = Some s1"
    "sig_step s1 (Env (ActAdd w i)) = Some t"
    by (auto simp del: sig_step.simps split: option.splits)
  then have "sig_inv t"
    using sig_inv_step [OF sig_inv_step [OF inv]] by blast
  moreover obtain y1 y2 where "sched_step (sg_sys s) (ActComplete w i r) = Some y1" "s1 = s\<lparr>sg_sys := y1\<rparr>"
    "sched_step y1 (ActAdd w i) = Some y2" "t = s1\<lparr>sg_sys := y2\<rparr>"
    using s1 by (auto simp del: sched_step.simps split: if_splits)
  with calm have "calm t"
    using sched_step_stop [of "sg_sys s" "ActComplete w i r" y1] sched_step_stop [of y1 "ActAdd w i" y2]
    by (auto simp: calm_def split: go.splits prod.splits if_splits)
  ultimately show ?thesis by blast
next
  case False
  with step have one: "sig_step s a = Some t"
    by (cases "(s, a)" rule: sig_astep.cases) (auto simp del: sig_step.simps run.simps)
  have "calm t"
  proof (cases a)
    case (Env e)
    with False step one calm show ?thesis
      using sched_step_stop [of "sg_sys s" e] sched_step_adding [of "sg_sys s" e]
      by (auto simp: calm_def simp del: sched_step.simps split: if_splits)
  next
    case (NextDep r)
    with one calm_NextDep [OF inv calm, of r t] calm show ?thesis
      by (auto simp: calm_def split: if_splits)
  next
    case DoSchedule
    with one calm_Schedule [OF calm] show ?thesis by (auto split: if_splits)
  next
    case (GoBuild p)
    with one calm show ?thesis
      by (auto simp: go_build_def Let_def calm_def split: if_splits option.splits)
  next
    case (GoSend k p u)
    with one calm show ?thesis
      by (auto simp: go_send_def calm_def split: if_splits go.splits prod.splits option.splits)
  next
    case (GoRemove env p u)
    with one calm show ?thesis by (auto simp: go_remove_def calm_def split: if_splits)
  qed (use one calm in \<open>auto simp: calm_def split: if_splits list.splits\<close>)
  with sig_inv_step [OF inv one] show ?thesis by blast
qed

interpretation calm: invariant_machine sig_astep calm_start "\<lambda>s. sig_inv s \<and> calm s"
  by unfold_locales (use calm_step sig_start_inv in \<open>auto simp: calm_start_def\<close>)

text \<open>
  C4. Without the race there is no panic: when \<open>OnJobComplete\<close> is atomic and the scheduler is
  not stopped, a signal whose jobs are in topological order never panics in its loop, in any
  interleaving.
\<close>

theorem signal_no_panic_when_atomic:
  assumes "sig_start s" "topo_ordered (map fst (sg_todo s))" "sc_adding (sg_sys s) = {#}"
    and "\<not> isStop (sc_sched (sg_sys s))" "run sig_astep s as = Some t"
  shows "sg_main t \<noteq> SignalPanicked m"
proof -
  have "calm_start s"
    using assms(1-4) by (simp add: calm_start_def calm_def sig_start_def)
  from calm.reachable_inv [OF this assms(5)] show ?thesis
    by (simp add: calm_def)
qed

theorem signal_no_panic_when_atomic_witness:
  "\<exists>t. run sig_astep demo_signal [DoSchedule, Env ActPick,
      Env (ActComplete ''w'' idB (Some (demo_result idB))), NextDep 0] = Some t \<and>
    sg_main t \<noteq> SignalPanicked ''top sort does not work''"
proof -
  have "topo_ordered (map fst (sg_todo demo_signal))"
    by (auto simp: demo_defs topo_ordered_def less_Suc_eq)
  moreover have "\<exists>t. run sig_astep demo_signal [DoSchedule, Env ActPick,
      Env (ActComplete ''w'' idB (Some (demo_result idB))), NextDep 0] = Some t"
    by (simp add: demo_defs main_schedule_def main_dep_def next_deps_def Let_def
      sched_ops Push_def Pop_def queue_capacity_def new_pending_def spec_ID_def)
  ultimately show ?thesis
    using signal_no_panic_when_atomic [OF demo_signal_start] by (auto simp: demo_defs simp del: run.simps)
qed

end
