(* ===== verification/Signal_Start.thy ===== *)
theory Signal_Start
  imports Signal_Properties
begin

text \<open>
  \<open>StartBuild\<close> and the beginning of \<open>SignalBuild\<close> together: the machine of a signal starts with the
  sorted jobs of the build it belongs to.
\<close>

section \<open>From the start of a build to its signal\<close>

text \<open>A build whose identifier the coordinator has not seen.\<close>

definition unseen :: "coordinatorCore \<Rightarrow> ID \<Rightarrow> bool" where
  "unseen c i \<longleftrightarrow> waitMap (core_hb c) i = None \<and> wasMap (core_hb c) i = None"

lemma Happen_unseen:
  assumes "waitMap h i = None" "wasMap h i = None"
  shows "\<exists>h1. Happen h i = Returns h1 \<and> waitMap h1 i \<noteq> None \<and> wasMap h1 i = Some happened"
  using assms by (simp add: Happen_def hb_parts Let_def)

lemma Before_happened:
  assumes "waitMap h i \<noteq> None" "wasMap h i = Some happened"
  shows "\<exists>h1. Before h i = Returns h1"
  using assms by (simp add: Before_def hb_parts Let_def)

definition job_inputs :: "Graph \<Rightarrow> Job \<Rightarrow> (ID \<times> string) list" where
  "job_inputs g = job_files (fileNameToID (Graph_SourceFiles g))"

text \<open>What a started build has left in the coordinator for its signal.\<close>

definition build_stored :: "coordinatorCore \<Rightarrow> ID \<Rightarrow> Graph \<Rightarrow> Job list \<Rightarrow> streamStatusWriter \<Rightarrow> bool" where
  "build_stored c bid g js w \<longleftrightarrow> waitMap (core_hb c) bid \<noteq> None \<and> wasMap (core_hb c) bid = Some happened \<and>
     Load (buildSourceFiles c) bid = Some (map (job_inputs g) js) \<and> Load (buildGraph c) bid = Some js \<and>
     Load (buildStatusWriter c) bid = Some w"

lemma StartBuild_stores:
  assumes "NewID rand = Returns bid" "unseen c bid"
    and "\<not> startMsgSend w" "writer_open w" "sw_out w = []"
  obtains js w1 c1 where "StartBuild rand (None, None) req w c = Returns (None, w1, c1)"
    "TopSort (Graph_Jobs (req_Graph req)) = Some js"
    "startMsgSend w1" "writer_open w1"
    "sw_out w1 = [MsgStarted \<lparr>started_ID = bid, MissingFiles = map fst (Graph_SourceFiles (req_Graph req))\<rparr>]"
    "build_stored c1 bid (req_Graph req) js w1" "core_fileCache c1 = core_fileCache c" "core_sched c1 = core_sched c"
proof -
  let ?g = "req_Graph req"
  obtain js where js: "TopSort (Graph_Jobs ?g) = Some js"
    using TopSort_mset [of "Graph_Jobs ?g"] by blast
  obtain h1 where h1: "Happen (core_hb c) bid = Returns h1" "waitMap h1 bid \<noteq> None" "wasMap h1 bid = Some happened"
    using Happen_unseen assms(2) by (metis unseen_def)
  let ?b = "\<lparr>started_ID = bid, MissingFiles = map fst (Graph_SourceFiles ?g)\<rparr>"
  obtain w1 where w1: "Started (None, None) ?b w = (None, w1)" "startMsgSend w1" "sw_out w1 = [MsgStarted ?b]"
    "writer_open w1"
    using sw.started_ok [OF assms(3), of ?b] assms(4,5) Started_open [of "(None, None)" ?b w] by auto
  let ?c1 = "c\<lparr>core_hb := h1, buildSourceFiles := Store (buildSourceFiles c) bid (map (job_inputs ?g) js),
     buildGraph := Store (buildGraph c) bid js, buildStatusWriter := Store (buildStatusWriter c) bid w1\<rparr>"
  have "StartBuild rand (None, None) req w c = Returns (None, w1, ?c1)"
    using assms(1) w1(1) js h1(1) by (simp add: StartBuild_def job_inputs_def)
  moreover have "build_stored ?c1 bid ?g js w1"
    using h1(2,3) by (simp add: build_stored_def sm.load_store)
  ultimately show thesis
    using js w1(2-4) by (intro that [of w1 ?c1 js]) simp_all
qed

lemma SignalBuild_begins:
  assumes "build_stored c bid g js w" "TopSort (Graph_Jobs g) = Some js"
    and "startMsgSend w" "writer_open w" "sw_out w = [MsgStarted b]" "run sched_step sched_fresh as = Some sys"
  obtains c1 s where "SignalBuild_begin sys bid \<lparr>UploadDone = True\<rparr> c = Returns (Inr (c1, s))" "sig_start s"
    "map fst (sg_todo s) = js" "mset (map fst (sg_todo s)) = mset (Graph_Jobs g)"
    "distinct (map Job_ID (Graph_Jobs g)) \<and> valid_graph (Graph_Jobs g) \<Longrightarrow> topo_ordered (map fst (sg_todo s))"
    "\<forall>jf \<in> set (sg_todo s). snd jf = job_inputs g (fst jf)"
    "sg_files s = core_fileCache c" "core_fileCache c1 = core_fileCache c" "sg_writer s = w"
proof -
  obtain h where h: "Before (core_hb c) bid = Returns h"
    using Before_happened assms(1) by (metis build_stored_def)
  let ?s = "\<lparr>sg_sys = sys, sg_writer = w, sg_files = core_fileCache c, sg_done = [],
     sg_todo = zip js (map (job_inputs g) js), sg_deps = next_deps (zip js (map (job_inputs g) js)), sg_arts = [],
     sg_pending = Map.empty, sg_gos = {#}, sg_count = 0, sg_total = length js, sg_errs = [],
     sg_main = Scheduling, sg_crash = None\<rparr>"
  have "SignalBuild_begin sys bid \<lparr>UploadDone = True\<rparr> c = Returns (Inr (c\<lparr>core_hb := h\<rparr>, ?s))"
    using h assms(1) by (simp add: SignalBuild_begin_def Let_def build_stored_def)
  moreover have "sig_start ?s"
    using assms(3-6) by (auto simp: sig_start_def writer_open_def)
  moreover have "mset js = mset (Graph_Jobs g)"
    using TopSort_mset [of "Graph_Jobs g"] assms(2) by auto
  moreover have "\<forall>jf \<in> set (sg_todo ?s). snd jf = job_inputs g (fst jf)"
    by (auto simp: set_zip)
  ultimately show thesis
    using TopSort_valid_ordered assms(2) by (intro that [of "c\<lparr>core_hb := h\<rparr>" ?s]) auto
qed

text \<open>
  \<open>StartBuild\<close> of a new build sends the start message with the build's identifier and all
  source files of the graph, and stores what the signal needs: a later \<open>SignalBuild\<close> with
  \<open>UploadDone\<close> does not block or panic and begins its loop on exactly the jobs of the graph, in
  topological order if the graph has one, each with its own input files.
\<close>

theorem start_then_signal:
  assumes "NewID rand = Returns bid" "unseen c bid"
    and "\<not> startMsgSend w" "writer_open w" "sw_out w = []"
    and "run sched_step sched_fresh as = Some sys"
  shows "\<exists>w1 c1 c2 s. StartBuild rand (None, None) req w c = Returns (None, w1, c1) \<and>
    sw_out w1 = [MsgStarted \<lparr>started_ID = bid, MissingFiles = map fst (Graph_SourceFiles (req_Graph req))\<rparr>] \<and>
    SignalBuild_begin sys bid \<lparr>UploadDone = True\<rparr> c1 = Returns (Inr (c2, s)) \<and> sig_start s \<and>
    mset (map fst (sg_todo s)) = mset (Graph_Jobs (req_Graph req)) \<and>
    (distinct (map Job_ID (Graph_Jobs (req_Graph req))) \<and> valid_graph (Graph_Jobs (req_Graph req)) \<longrightarrow>
      topo_ordered (map fst (sg_todo s))) \<and>
    (\<forall>jf \<in> set (sg_todo s). snd jf = job_files (fileNameToID (Graph_SourceFiles (req_Graph req))) (fst jf))"
proof -
  obtain js w1 c1 where start: "StartBuild rand (None, None) req w c = Returns (None, w1, c1)"
    "TopSort (Graph_Jobs (req_Graph req)) = Some js" "startMsgSend w1" "writer_open w1"
    "sw_out w1 = [MsgStarted \<lparr>started_ID = bid, MissingFiles = map fst (Graph_SourceFiles (req_Graph req))\<rparr>]"
    "build_stored c1 bid (req_Graph req) js w1"
    using StartBuild_stores [OF assms(1-5)] by metis
  from SignalBuild_begins [OF start(6,2-5) assms(6)] obtain c2 s where
    "SignalBuild_begin sys bid \<lparr>UploadDone = True\<rparr> c1 = Returns (Inr (c2, s))" "sig_start s"
    "mset (map fst (sg_todo s)) = mset (Graph_Jobs (req_Graph req))"
    "distinct (map Job_ID (Graph_Jobs (req_Graph req))) \<and> valid_graph (Graph_Jobs (req_Graph req)) \<Longrightarrow>
      topo_ordered (map fst (sg_todo s))"
    "\<forall>jf \<in> set (sg_todo s). snd jf = job_inputs (req_Graph req) (fst jf)"
    by metis
  with start show ?thesis by (auto simp: job_inputs_def)
qed

definition demo_request :: BuildRequest where
  "demo_request = \<lparr>req_Graph = \<lparr>Graph_SourceFiles = [(idA, ''a.c'')],
     Graph_Jobs = [(job_named 97 [idB])\<lparr>Inputs := [''a.c'']\<rparr>, job_named 98 []]\<rparr>\<rparr>"

theorem start_then_signal_witness:
  "\<exists>w1 c1 c2 s. StartBuild (Inr (replicate 20 7)) (None, None) demo_request NewStatusWriter (NewCoordinator (shared empty_sys)) =
      Returns (None, w1, c1) \<and>
    SignalBuild_begin sched_fresh (ID_of_raw (replicate 20 7)) \<lparr>UploadDone = True\<rparr> c1 = Returns (Inr (c2, s)) \<and> sig_start s \<and>
    sw_out w1 = [MsgStarted \<lparr>started_ID = ID_of_raw (replicate 20 7), MissingFiles = [idA]\<rparr>]"
proof -
  have "NewID (Inr (replicate 20 7)) = Returns (ID_of_raw (replicate 20 7))"
    by (simp add: NewID_def id_size_def)
  from start_then_signal [OF this, of "NewCoordinator (shared empty_sys)" NewStatusWriter "[]" sched_fresh demo_request]
  show ?thesis
    by (auto simp: unseen_def NewCoordinator_def NewHappenceBeforeMachine_def demo_request_def)
qed

end
