(* ===== verification/Heartbeat_Service.thy ===== *)
theory Heartbeat_Service
  imports Scheduler
begin

text \<open>
  Package \<open>dist\<close>, file \<open>heartbeat_service.go\<close>: a worker reports finished jobs and gets new ones.
  A heartbeat runs here with no other user of the scheduler moving. Its panics are recovered by
  the HTTP server, so the scheduler they leave is part of the result.
\<close>

section \<open>The handler\<close>

datatype hb_result = HbPanic string | HbErr | HbResponse HeartbeatResponse

text \<open>
  The loop over \<open>FinishedJob\<close>, collecting \<open>uniq\<close>. \<open>OnJobComplete\<close> never blocks.
\<close>

fun finish_jobs :: "WorkerID \<Rightarrow> JobResult list \<Rightarrow> ID set \<Rightarrow> Scheduler \<Rightarrow> (string + ID set) \<times> Scheduler" where
  "finish_jobs w [] uniq c = (Inr uniq, c)"
| "finish_jobs w (job # rest) uniq c =
     (case OnJobComplete w (res_ID job) (Some job) c of
        Returns (exist, c1) \<Rightarrow>
          if \<not> exist then (Inl ''non schedule job finished'', c1)
          else finish_jobs w rest (insert (res_ID job) uniq) c1
      | Panics m \<Rightarrow> (Inl m, c)
      | Blocks \<Rightarrow> (Inl [], c))"

text \<open>The loop over \<open>AddedArtifacts\<close>: those not just reported as finished, with a nil result.\<close>

fun add_artifacts :: "WorkerID \<Rightarrow> ID set \<Rightarrow> ID list \<Rightarrow> Scheduler \<Rightarrow> (string + unit) \<times> Scheduler" where
  "add_artifacts w uniq [] c = (Inr (), c)"
| "add_artifacts w uniq (i # rest) c =
     (if i \<in> uniq then add_artifacts w uniq rest c
      else case OnJobComplete w i None c of
        Returns (exist, c1) \<Rightarrow> add_artifacts w uniq rest c1
      | Panics m \<Rightarrow> (Inl m, c)
      | Blocks \<Rightarrow> (Inl [], c))"

text \<open>
  Up to four attempts for one slot. \<open>sel\<close> gives for each attempt whether the context is done and
  which ready case the \<open>select\<close> takes.
\<close>

datatype attempt = NoJob | GotJob ptr | CtxDone | AttemptPanic string

fun attempts :: "nat \<Rightarrow> (nat \<Rightarrow> bool \<times> bool) \<Rightarrow> Scheduler \<Rightarrow> attempt \<times> Scheduler" where
  "attempts 0 sel c = (NoJob, c)"
| "attempts (Suc n) sel c =
     (case TryPickJob (fst (sel n)) (snd (sel n)) c of
        Returns ((pending, ok), c1) \<Rightarrow>
          if ok then (case pending of None \<Rightarrow> (CtxDone, c1) | Some p \<Rightarrow> (GotJob p, c1))
          else attempts n sel c1
      | Panics m \<Rightarrow> (AttemptPanic m, c)
      | Blocks \<Rightarrow> (NoJob, c))"

definition run_spec :: "Scheduler \<Rightarrow> ptr \<Rightarrow> (ID \<rightharpoonup> JobSpec) \<Rightarrow> ID \<rightharpoonup> JobSpec" where
  "run_spec c p m = m(spec_ID (pj_Job (store c p)) \<mapsto> pj_Job (store c p))"

fun fill_slots :: "nat \<Rightarrow> (nat \<Rightarrow> nat \<Rightarrow> bool \<times> bool) \<Rightarrow> (ID \<rightharpoonup> JobSpec) \<Rightarrow> Scheduler \<Rightarrow> hb_result \<times> Scheduler" where
  "fill_slots 0 sel m c = (HbResponse \<lparr>JobsToRun = m\<rparr>, c)"
| "fill_slots (Suc n) sel m c =
     (case attempts 4 (sel n) c of
        (NoJob, c1) \<Rightarrow> fill_slots n sel m c1
      | (GotJob p, c1) \<Rightarrow> fill_slots n sel (run_spec c1 p m) c1
      | (CtxDone, c1) \<Rightarrow> (HbErr, c1)
      | (AttemptPanic e, c1) \<Rightarrow> (HbPanic e, c1))"

text \<open>
  The first job is waited for; \<open>first\<close> is the state of the context and the choice there. The
  number of further slots is \<open>FreeSlots - 1\<close>, none when that is not positive.
\<close>

definition Heartbeat :: "bool \<times> bool \<Rightarrow> (nat \<Rightarrow> nat \<Rightarrow> bool \<times> bool) \<Rightarrow> HeartbeatRequest \<Rightarrow> Scheduler
    \<Rightarrow> (hb_result \<times> Scheduler) go" where
  "Heartbeat first sel req c =
     (let c0 = RegisterWorker (hb_WorkerID req) c in
      case finish_jobs (hb_WorkerID req) (FinishedJob req) {} c0 of
        (Inl e, c1) \<Rightarrow> Returns (HbPanic e, c1)
      | (Inr uniq, c1) \<Rightarrow>
          (case add_artifacts (hb_WorkerID req) uniq (AddedArtifacts req) c1 of
             (Inl e, c2) \<Rightarrow> Returns (HbPanic e, c2)
           | (Inr _, c2) \<Rightarrow>
               (case PickJob (fst first) (snd first) c2 of
                  Panics m \<Rightarrow> Returns (HbPanic m, c2)
                | Blocks \<Rightarrow> Blocks
                | Returns (None, c3) \<Rightarrow> Returns (HbErr, c3)
                | Returns (Some p, c3) \<Rightarrow>
                    Returns (fill_slots (nat (FreeSlots req - 1)) sel (run_spec c3 p Map.empty) c3))))"

section \<open>Lemmas\<close>

lemma complete_job_queue:
  "complete_job i res c = Returns (e, c1) \<Longrightarrow> queue c1 = queue c \<and> isStop c1 = isStop c"
  by (auto simp: complete_job_def Let_def split: if_splits)

lemma OnJobComplete_queue:
  "OnJobComplete w i res c = Returns (e, c1) \<Longrightarrow> queue c1 = queue c \<and> isStop c1 = isStop c"
  by (auto simp: OnJobComplete_def go_simps dest!: complete_job_queue split: prod.splits)

lemma finish_jobs_queue:
  "finish_jobs w js uniq c = (r, c1) \<Longrightarrow> queue c1 = queue c \<and> isStop c1 = isStop c"
proof (induction js arbitrary: uniq c)
  case (Cons j js)
  then show ?case
    by (fastforce split: go.splits prod.splits if_splits dest: OnJobComplete_queue)
qed simp

lemma add_artifacts_queue:
  "add_artifacts w uniq is c = (r, c1) \<Longrightarrow> queue c1 = queue c \<and> isStop c1 = isStop c"
proof (induction "is" arbitrary: c)
  case (Cons i "is")
  then show ?case
    by (fastforce split: go.splits prod.splits if_splits dest: OnJobComplete_queue)
qed simp

text \<open>Jobs taken from the front of the queue, as long as the context is not done.\<close>

definition take_jobs :: "nat \<Rightarrow> Scheduler \<Rightarrow> Scheduler" where
  "take_jobs n c = c\<lparr>queue := (queue c)\<lparr>channal := drop n (channal (queue c))\<rparr>\<rparr>"

definition specs_of :: "Scheduler \<Rightarrow> ptr list \<Rightarrow> (ID \<rightharpoonup> JobSpec) \<Rightarrow> ID \<rightharpoonup> JobSpec" where
  "specs_of c ps m = fold (run_spec c) ps m"

lemma attempts_calm:
  assumes "\<not> isStop c" "\<And>n. \<not> fst (sel n)"
  shows "attempts (Suc k) sel c =
    (case channal (queue c) of [] \<Rightarrow> (NoJob, c) | p # _ \<Rightarrow> (GotJob p, take_jobs 1 c))"
proof (cases "channal (queue c)")
  case Nil
  have "attempts n sel c = (NoJob, c)" for n
    by (induction n) (simp_all add: TryPickJob_def checkIsStop_def assms Pop_def Nil)
  then show ?thesis by (simp add: Nil)
next
  case (Cons p ps)
  then show ?thesis
    using assms by (simp add: TryPickJob_def checkIsStop_def Pop_def take_jobs_def)
qed

lemma take_jobs_simps [simp]:
  "channal (queue (take_jobs n c)) = drop n (channal (queue c))" "store (take_jobs n c) = store c"
  "isStop (take_jobs n c) = isStop c" "take_jobs n (take_jobs m c) = take_jobs (n + m) c"
  by (simp_all add: take_jobs_def add.commute)

lemma run_spec_take [simp]: "run_spec (take_jobs n c) = run_spec c"
  by (simp add: run_spec_def fun_eq_iff)

lemma take_jobs_none: "channal (queue c) = [] \<Longrightarrow> take_jobs n c = c"
  by (simp add: take_jobs_def)

lemma fill_slots_calm:
  assumes "\<not> isStop c" "\<And>m n. \<not> fst (sel m n)"
  shows "fill_slots n sel m c =
    (HbResponse \<lparr>JobsToRun = specs_of c (take n (channal (queue c))) m\<rparr>, take_jobs n c)"
  using assms(1)
proof (induction n arbitrary: m c)
  case 0
  then show ?case by (simp add: specs_of_def take_jobs_def)
next
  case (Suc n)
  have four: "attempts 4 (sel n) c =
    (case channal (queue c) of [] \<Rightarrow> (NoJob, c) | p # _ \<Rightarrow> (GotJob p, take_jobs 1 c))"
    using attempts_calm [OF Suc.prems, of "sel n" 3] assms(2) by (simp add: numeral_eq_Suc)
  show ?case
  proof (cases "channal (queue c)")
    case Nil
    with four Suc show ?thesis by (simp add: specs_of_def take_jobs_none)
  next
    case (Cons p ps)
    with four Suc.IH [of "take_jobs 1 c"] Suc.prems show ?thesis
      by (simp add: specs_of_def)
  qed
qed

lemma heartbeat_calm:
  assumes "\<not> isStop c" "finish_jobs (hb_WorkerID req) (FinishedJob req) {} c = (Inr uniq, c1)"
    and "add_artifacts (hb_WorkerID req) uniq (AddedArtifacts req) c1 = (Inr (), c2)"
    and "\<forall>m n. \<not> fst (sel m n)"
  shows "Heartbeat (False, choice) sel req c =
    (if channal (queue c) = [] then Blocks
     else let n = max 1 (nat (FreeSlots req)) in
       Returns (HbResponse \<lparr>JobsToRun = specs_of c2 (take n (channal (queue c))) Map.empty\<rparr>, take_jobs n c2))"
proof -
  have q: "queue c2 = queue c" "\<not> isStop c2"
    using finish_jobs_queue [OF assms(2)] add_artifacts_queue [OF assms(3)] assms(1) by simp_all
  show ?thesis
  proof (cases "channal (queue c)")
    case Nil
    with assms q show ?thesis
      by (simp add: Heartbeat_def RegisterWorker_def PickJob_def checkIsStop_def Pop_def)
  next
    case (Cons p ps)
    have picked: "PickJob False choice c2 = Returns (Some p, take_jobs 1 c2)"
      using Cons q by (simp add: PickJob_def checkIsStop_def Pop_def take_jobs_def)
    have n: "max 1 (nat (FreeSlots req)) = Suc (nat (FreeSlots req - 1))"
      by (simp add: nat_diff_distrib max_def)
    show ?thesis
      unfolding n Let_def
      using assms(1-3) picked Cons q fill_slots_calm [of "take_jobs 1 c2" sel] assms(4)
      by (simp add: Heartbeat_def RegisterWorker_def specs_of_def)
  qed
qed

section \<open>Properties\<close>


definition two_queued :: Scheduler where
  "two_queued = NewScheduler\<lparr>queue := \<lparr>channal = [0, 1]\<rparr>, fresh := 2,
     store := (\<lambda>p. new_pending (empty_spec (if p = 0 then ID_lit [97] else ID_lit [98])) None)\<rparr>"

definition idle_request :: "int \<Rightarrow> HeartbeatRequest" where
  "idle_request n = \<lparr>hb_WorkerID = ''w'', FreeSlots = n, FinishedJob = [], AddedArtifacts = []\<rparr>"


text \<open>
  Jobs are lost when the context of a heartbeat ends while it fills the slots: the jobs it
  has taken off the queue are in no response, and the heartbeat reports an error.
\<close>

theorem heartbeat_loses_jobs:
  assumes "\<not> isStop c" "channal (queue c) = p # ps" "FinishedJob req = []" "AddedArtifacts req = []"
    and "FreeSlots req = 2" "sel 0 = (\<lambda>_. (True, False))"
  shows "Heartbeat (False, choice) sel req c = Returns (HbErr, take_jobs 1 c)"
proof -
  have "attempts 4 (sel 0) (take_jobs 1 c) = (CtxDone, take_jobs 1 c)"
    using assms(1,6) by (auto simp: numeral_eq_Suc TryPickJob_def checkIsStop_def Pop_def split: list.split)
  moreover have "PickJob False choice c = Returns (Some p, take_jobs 1 c)"
    using assms(1,2) by (simp add: PickJob_def checkIsStop_def Pop_def take_jobs_def)
  ultimately show ?thesis
    using assms(3-5) by (simp add: Heartbeat_def RegisterWorker_def)
qed

theorem heartbeat_loses_jobs_witness:
  "Heartbeat (False, False) (\<lambda>_ _. (True, False)) (idle_request 2) two_queued = Returns (HbErr, take_jobs 1 two_queued)"
  by (rule heartbeat_loses_jobs) (simp_all add: two_queued_def idle_request_def NewScheduler_def)

end
