(* ===== verification/Worker.thy ===== *)
theory Worker
  imports Build_Graph File_Handler Artifact_Transfer Api_Types Sync_Map
begin

text \<open>
  Package \<open>worker\<close>: the worker's state and metrics, downloading what a job needs, running its
  commands, and the cycle of heartbeats. The jobs of one heartbeat run one after the other here;
  as goroutines they are in \<open>Worker_Pool\<close>, the life of a worker is in \<open>Worker_Run\<close>.
  Processes (\<open>os/exec\<close>) and the template engine are arguments.
\<close>

section \<open>State\<close>

record workerState =
  ws_AddedArtifacts :: "ID list"
  ws_FinishedJob :: "JobResult list"
  ws_FreeSlots :: int

definition newWorkerState :: "int \<Rightarrow> workerState" where
  "newWorkerState numCPU = \<lparr>ws_AddedArtifacts = [], ws_FinishedJob = [], ws_FreeSlots = numCPU\<rparr>"

definition pull :: "WorkerID \<Rightarrow> workerState \<Rightarrow> HeartbeatRequest \<times> workerState" where
  "pull workerID w =
     (\<lparr>hb_WorkerID = workerID, FreeSlots = ws_FreeSlots w, FinishedJob = ws_FinishedJob w,
       AddedArtifacts = ws_AddedArtifacts w\<rparr>,
      w\<lparr>ws_AddedArtifacts := [], ws_FinishedJob := []\<rparr>)"

text \<open>
  Taking the state's lock can lose against a context that is done; then nothing is recorded.
\<close>

definition addArtifacts :: "bool \<Rightarrow> ID list \<Rightarrow> workerState \<Rightarrow> workerState" where
  "addArtifacts given_up ids w =
     (if given_up then w else w\<lparr>ws_AddedArtifacts := ws_AddedArtifacts w @ ids\<rparr>)"

definition addJobResult :: "bool \<Rightarrow> JobResult \<Rightarrow> workerState \<Rightarrow> workerState" where
  "addJobResult given_up res w =
     (if given_up then w else w\<lparr>ws_FinishedJob := ws_FinishedJob w @ [res]\<rparr>)"

record workerMetrics =
  totalJob :: "64 word"
  activeJob :: "64 word"

definition scheduleTask :: "workerMetrics \<Rightarrow> workerMetrics" where
  "scheduleTask m = m\<lparr>activeJob := activeJob m + 1, totalJob := totalJob m + 1\<rparr>"

definition doneTask :: "workerMetrics \<Rightarrow> workerMetrics" where
  "doneTask m = m\<lparr>activeJob := activeJob m - 1, totalJob := totalJob m + 1\<rparr>"

text \<open>
  \<open>w_source\<close> is the directory jobs find their source files in (\<open>os.TempDir()\<close>), as the data of
  each path; \<open>w_outPath\<close> and \<open>w_depPath\<close> are the names of an artifact's directory while it is
  written and when it is cached.
\<close>

record Worker =
  workerID :: WorkerID
  w_state :: workerState
  w_metrics :: workerMetrics
  w_fileCache :: Cache
  w_artifacts :: Cache
  jobResultCache :: "(ID, JobResult) SyncMap"
  w_source :: "string \<rightharpoonup> bytes"
  w_sourceDir :: string
  w_outPath :: "ID \<Rightarrow> string"
  w_depPath :: "ID \<Rightarrow> string"

section \<open>Source files and artifacts\<close>

datatype worker_error =
    FileErr fc_error
  | ArtErr art_error
  | OsErr string
  | FetchFile client_error
  | FetchArtifact art_client_error
  | CmdErr string
  | AbortErr art_error
  | CommitErr art_error

text \<open>\<open>linkFiles\<close> (\<open>copy.go\<close>): the old link is removed whether or not that succeeds.\<close>

definition linkFiles :: "os_env \<Rightarrow> ID \<Rightarrow> string \<Rightarrow> Worker \<Rightarrow> worker_error option \<times> Worker" where
  "linkFiles env fileID filePath w =
     (case FC_Get env fileID (w_fileCache w) of
        (Some e, c1) \<Rightarrow> (Some (FileErr e), w\<lparr>w_fileCache := c1\<rparr>)
      | (None, c1) \<Rightarrow>
          (let w1 = w\<lparr>w_fileCache := readUnlock fileID c1\<rparr> in
           case fault env SysMkdirAll of
             Some e \<Rightarrow> (Some (OsErr e), w1)
           | None \<Rightarrow>
               (case (fault env SysLink, fc_content c1 fileID) of
                  (None, Some content) \<Rightarrow> (None, w1\<lparr>w_source := (w_source w1)(filePath \<mapsto> content)\<rparr>)
                | (Some e, _) \<Rightarrow> (Some (OsErr e), w1\<lparr>w_source := (w_source w1)(filePath := None)\<rparr>)
                | (None, None) \<Rightarrow> (Some (OsErr ''no such file or directory''),
                                   w1\<lparr>w_source := (w_source w1)(filePath := None)\<rparr>))))"

fun linkAll :: "os_env \<Rightarrow> (ID \<times> string) list \<Rightarrow> Worker \<Rightarrow> worker_error option \<times> Worker" where
  "linkAll env [] w = (None, w)"
| "linkAll env ((fileID, filePath) # files) w =
     (case linkFiles env fileID filePath w of
        (Some e, w1) \<Rightarrow> (Some e, w1)
      | (None, w1) \<Rightarrow> linkAll env files w1)"

text \<open>
  The downloads ask the coordinator for files (\<open>TF\<close>) and another worker for artifacts (\<open>TA\<close>, by
  the worker's identifier); both run on the state \<open>'s\<close> of the other machines.
\<close>

fun downloadFiles :: "os_env \<Rightarrow> 's transport \<Rightarrow> (ID \<times> string) list \<Rightarrow> Worker \<Rightarrow> 's
    \<Rightarrow> (worker_error option \<times> Worker \<times> 's) go" where
  "downloadFiles env TF [] w s = Returns (None, w, s)"
| "downloadFiles env TF ((fileID, filePath) # files) w s =
     (case FC_Get env fileID (w_fileCache w) of
        (None, c1) \<Rightarrow> downloadFiles env TF files (w\<lparr>w_fileCache := readUnlock fileID c1\<rparr>) s
      | (Some e, c1) \<Rightarrow>
          if e \<noteq> ErrNotFound then Returns (Some (FileErr e), w\<lparr>w_fileCache := c1\<rparr>, s)
          else go_bind (Download env None TF fileID c1 s) (\<lambda>(err, c2, s1).
                 case err of
                   Some e' \<Rightarrow> Returns (Some (FetchFile e'), w\<lparr>w_fileCache := c2\<rparr>, s1)
                 | None \<Rightarrow> downloadFiles env TF files (w\<lparr>w_fileCache := c2\<rparr>) s1))"

fun fetchArtifacts :: "os_env \<Rightarrow> (WorkerID \<Rightarrow> 's art_transport) \<Rightarrow> (ID \<times> WorkerID) list \<Rightarrow> Worker \<Rightarrow> 's
    \<Rightarrow> ID list \<Rightarrow> (worker_error option \<times> ID list) \<times> Worker \<times> 's" where
  "fetchArtifacts env TA [] w s added = ((None, added), w, s)"
| "fetchArtifacts env TA ((artifactID, from) # rest) w s added =
     (case Cache_Get env artifactID (w_artifacts w) of
        (None, c1) \<Rightarrow> fetchArtifacts env TA rest (w\<lparr>w_artifacts := readUnlock artifactID c1\<rparr>) s added
      | (Some e, c1) \<Rightarrow>
          if e \<noteq> Art_ErrNotFound then ((Some (ArtErr e), added), w\<lparr>w_artifacts := c1\<rparr>, s)
          else (case art_Download env None (TA from) c1 artifactID s of
                  (Some e', c2, s1) \<Rightarrow> ((Some (FetchArtifact e'), added), w\<lparr>w_artifacts := c2\<rparr>, s1)
                | (None, c2, s1) \<Rightarrow>
                    fetchArtifacts env TA rest (w\<lparr>w_artifacts := c2\<rparr>) s1 (added @ [artifactID])))"

text \<open>
  \<open>defer w.state.addArtifacts(ctx, addedArtifacts)\<close> evaluates its arguments at once: what is
  recorded at the end is the slice as it was before the loop, empty.
\<close>

definition downloadArtifacts :: "os_env \<Rightarrow> bool \<Rightarrow> (WorkerID \<Rightarrow> 's art_transport) \<Rightarrow> (ID \<times> WorkerID) list \<Rightarrow> Worker \<Rightarrow> 's
    \<Rightarrow> worker_error option \<times> Worker \<times> 's" where
  "downloadArtifacts env given_up TA arts w s =
     (let addedArtifacts = [];
          ((err, added), w1, s1) = fetchArtifacts env TA arts w s addedArtifacts
      in (err, w1\<lparr>w_state := addArtifacts given_up addedArtifacts (w_state w1)\<rparr>, s1))"

section \<open>Running commands\<close>

text \<open>
  A process gets the command and the output directory, and gives an error, its output and what
  it left in the directory. \<open>resolve\<close> leads from a path to the entry of the output directory.
\<close>

type_synonym process = "Cmd \<Rightarrow> dir \<Rightarrow> string option \<times> bytes \<times> bytes \<times> dir"

text \<open>\<open>os.Create\<close> of a path and the bytes that are written to the file it opens.\<close>

definition create_with :: "os_env \<Rightarrow> bytes \<Rightarrow> node option \<Rightarrow> string + node" where
  "create_with env p x =
     (case x of
        None \<Rightarrow> Inr (File (creat_mode env 438) p)
      | Some (File m old) \<Rightarrow> Inr (File m p)
      | Some (Special m k (Inr old)) \<Rightarrow> Inr (Special m k (Inr p))
      | Some (Special m k (Inl e)) \<Rightarrow> Inl e
      | Some (Dir m es) \<Rightarrow> Inl ''is a directory'')"

text \<open>
  \<open>ProcessState\<close> is nil until \<open>Run\<close> has been called, and its exit code then is -1; the code is
  read before \<open>Run\<close>.
\<close>

definition executeCommand :: "os_env \<Rightarrow> process \<Rightarrow> (string \<Rightarrow> string list) \<Rightarrow> Cmd \<Rightarrow> dir
    \<Rightarrow> (int \<times> string option) \<times> bytes \<times> bytes \<times> dir" where
  "executeCommand env proc resolve cmd d =
     (if length (Exec cmd) > 0
      then (let (err, out, errout, d1) = proc cmd d in ((- 1, err), out, errout, d1))
      else if length (CatOutput cmd) > 0
      then (case fault env SysCreate of
              Some e \<Rightarrow> ((0, Some e), [], [], d)
            | None \<Rightarrow>
                (let (p, err) =
                       (case fault env SysWrite of
                          Some e \<Rightarrow> (take (written env) (text_bytes (CatTemplate cmd)), Some e)
                        | None \<Rightarrow> (text_bytes (CatTemplate cmd), None))
                 in case update_at (resolve (CatOutput cmd)) (create_with env p) d of
                      Inl e \<Rightarrow> ((0, Some e), [], [], d)
                    | Inr d1 \<Rightarrow> ((0, err), [], [], d1)))
      else ((0, None), [], [], d))"

text \<open>
  The loop over the commands. The error of \<open>Render\<close> is dropped, and a command that failed to
  render is a nil pointer.
\<close>

fun run_cmds :: "os_env \<Rightarrow> (Cmd \<Rightarrow> string + Cmd) \<Rightarrow> process \<Rightarrow> (string \<Rightarrow> string list) \<Rightarrow> Cmd list \<Rightarrow> JobResult \<Rightarrow> dir
    \<Rightarrow> (string option \<times> JobResult \<times> dir) go" where
  "run_cmds env rnd proc resolve [] res d = Returns (None, res, d)"
| "run_cmds env rnd proc resolve (c # cmds) res d =
     (case rnd c of
        Inl _ \<Rightarrow> Panics ''nil pointer dereference''
      | Inr cmd \<Rightarrow>
          (let ((code, err), out, errout, d1) = executeCommand env proc resolve cmd d;
               res1 = res\<lparr>ExitCode := code\<rparr>
           in case err of
                Some e \<Rightarrow> Returns (Some e, res1\<lparr>Error := Some e\<rparr>, d1)
              | None \<Rightarrow> run_cmds env rnd proc resolve cmds
                          (res1\<lparr>Stderr := Stderr res1 @ errout, Stdout := Stdout res1 @ out\<rparr>) d1))"

text \<open>Reading the dependencies; their unlock closures are the list of identifiers.\<close>

fun lock_deps :: "os_env \<Rightarrow> ID list \<Rightarrow> Cache \<Rightarrow> Cache go" where
  "lock_deps env [] c = Returns c"
| "lock_deps env (d # ds) c =
     (case Cache_Get env d c of
        (Some e, c1) \<Rightarrow> Panics ''top sort does not worlk''
      | (None, c1) \<Rightarrow> lock_deps env ds c1)"

definition new_result :: "ID \<Rightarrow> JobResult" where
  "new_result i = \<lparr>res_ID = i, Stdout = [], Stderr = [], ExitCode = 0, Error = None\<rparr>"

definition job_context :: "Worker \<Rightarrow> Job \<Rightarrow> JobContext" where
  "job_context w job =
     \<lparr>ctx_SourceDir = w_sourceDir w, ctx_OutputDir = w_outPath w (Job_ID job),
      ctx_Deps = fold (\<lambda>d m. AList.update d (w_depPath w d) m) (Deps job) []\<rparr>"

text \<open>
  After the commands: a failed command aborts the artifact and leaves the dependencies locked;
  otherwise they are unlocked and the artifact is committed.
\<close>

definition end_job :: "os_env \<Rightarrow> ID \<Rightarrow> ID list \<Rightarrow> string option \<Rightarrow> Cache \<Rightarrow> worker_error option \<times> Cache" where
  "end_job env i deps err c =
     (case err of
        Some e \<Rightarrow>
          (let (abortErr, c1) = Cache_abort env i c
           in (Some (case abortErr of Some a \<Rightarrow> AbortErr a | None \<Rightarrow> CmdErr e), c1))
      | None \<Rightarrow>
          (let (commitErr, c1) = Cache_commit env i (fold readUnlock deps c)
           in (map_option CommitErr commitErr, c1)))"

definition executeJob :: "os_env \<Rightarrow> (JobContext \<Rightarrow> Cmd \<Rightarrow> string + Cmd) \<Rightarrow> process \<Rightarrow> (string \<Rightarrow> string list)
    \<Rightarrow> JobSpec \<Rightarrow> Worker \<Rightarrow> ((JobResult \<times> worker_error option) \<times> Worker) go" where
  "executeJob env render_cmd proc resolve spec w =
     (let i = spec_ID spec; job = spec_Job spec; res = new_result i in
      case linkAll env (SourceFiles spec) w of
        (Some e, w1) \<Rightarrow> Returns ((res, Some e), w1)
      | (None, w1) \<Rightarrow>
          (case Cache_Create env i (w_artifacts w1) of
             (Some e, c1) \<Rightarrow> Returns ((res, Some (ArtErr e)), w1\<lparr>w_artifacts := c1\<rparr>)
           | (None, c1) \<Rightarrow>
               go_bind (lock_deps env (Deps job) c1) (\<lambda>c2.
               go_bind (run_cmds env (render_cmd (job_context w1 job)) proc resolve (Cmds job) res
                          (case tmpDir c2 i of None \<Rightarrow> [] | Some d \<Rightarrow> d)) (\<lambda>(err, res1, d).
                 let r = end_job env i (Deps job) err (write_files i d c2)
                 in Returns ((res1, fst r), w1\<lparr>w_artifacts := snd r\<rparr>)))))"

text \<open>
  \<open>runJob\<close>. Its deferred part counts the job as done and records the result. The text of an
  error is \<open>err_text\<close>.
\<close>

definition run_result :: "os_env \<Rightarrow> bool \<Rightarrow> 's transport \<Rightarrow> (WorkerID \<Rightarrow> 's art_transport) \<Rightarrow> (worker_error \<Rightarrow> string)
    \<Rightarrow> (JobContext \<Rightarrow> Cmd \<Rightarrow> string + Cmd) \<Rightarrow> process \<Rightarrow> (string \<Rightarrow> string list) \<Rightarrow> ID \<Rightarrow> JobSpec \<Rightarrow> Worker \<Rightarrow> 's
    \<Rightarrow> (JobResult \<times> Worker \<times> 's) go" where
  "run_result env given_up TF TA err_text render_cmd proc resolve jobID spec w s =
     (case Load (jobResultCache w) jobID of
        Some cached \<Rightarrow> Returns (cached, w, s)
      | None \<Rightarrow>
          (case downloadArtifacts env given_up TA (Artifacts spec) w s of
             (Some e, w1, s1) \<Rightarrow> Returns ((new_result jobID)\<lparr>Error := Some (err_text e)\<rparr>, w1, s1)
           | (None, w1, s1) \<Rightarrow>
               go_bind (downloadFiles env TF (SourceFiles spec) w1 s1) (\<lambda>(err, w2, s2).
                 case err of
                   Some e \<Rightarrow> Returns ((new_result jobID)\<lparr>Error := Some (err_text e)\<rparr>, w2, s2)
                 | None \<Rightarrow>
                     go_bind (executeJob env render_cmd proc resolve spec w2) (\<lambda>((res, err), w3).
                       Returns (case err of
                         Some e \<Rightarrow> (res\<lparr>Error := Some (''error when executing a job on a worker: '' @ err_text e)\<rparr>, w3, s2)
                       | None \<Rightarrow> (res, w3\<lparr>jobResultCache := Store (jobResultCache w3) jobID res\<rparr>, s2))))))"

definition runJob :: "os_env \<Rightarrow> bool \<Rightarrow> 's transport \<Rightarrow> (WorkerID \<Rightarrow> 's art_transport) \<Rightarrow> (worker_error \<Rightarrow> string)
    \<Rightarrow> (JobContext \<Rightarrow> Cmd \<Rightarrow> string + Cmd) \<Rightarrow> process \<Rightarrow> (string \<Rightarrow> string list) \<Rightarrow> ID \<Rightarrow> JobSpec \<Rightarrow> Worker \<Rightarrow> 's
    \<Rightarrow> (Worker \<times> 's) go" where
  "runJob env given_up TF TA err_text render_cmd proc resolve jobID spec w s =
     go_bind (run_result env given_up TF TA err_text render_cmd proc resolve jobID spec w s)
       (\<lambda>(res, w1, s1). Returns
         (w1\<lparr>w_metrics := doneTask (w_metrics w1), w_state := addJobResult given_up res (w_state w1)\<rparr>, s1))"

text \<open>One cycle of \<open>Run\<close> after a heartbeat answered with these jobs, in range order.\<close>

fun run_jobs :: "(ID \<Rightarrow> JobSpec \<Rightarrow> Worker \<Rightarrow> 's \<Rightarrow> (Worker \<times> 's) go) \<Rightarrow> (ID \<times> JobSpec) list \<Rightarrow> Worker \<Rightarrow> 's
    \<Rightarrow> (Worker \<times> 's) go" where
  "run_jobs rj [] w s = Returns (w, s)"
| "run_jobs rj ((jobID, spec) # rest) w s =
     go_bind (rj jobID spec (w\<lparr>w_metrics := scheduleTask (w_metrics w)\<rparr>) s) (\<lambda>(w1, s1). run_jobs rj rest w1 s1)"

datatype cycle_end = CycleDone | CycleStopped | HeartbeatFailed string

text \<open>\<open>beat\<close> is the heartbeat client: an error, or the jobs to run.\<close>

definition run_cycle :: "bool \<Rightarrow> (HeartbeatRequest \<Rightarrow> 's \<Rightarrow> (string + (ID \<times> JobSpec) list) \<times> 's)
    \<Rightarrow> (ID \<Rightarrow> JobSpec \<Rightarrow> Worker \<Rightarrow> 's \<Rightarrow> (Worker \<times> 's) go) \<Rightarrow> Worker \<Rightarrow> 's \<Rightarrow> (cycle_end \<times> Worker \<times> 's) go" where
  "run_cycle ctx_done beat rj w s =
     (if ctx_done then Returns (CycleStopped, w, s)
      else
        (let (request, st) = pull (workerID w) (w_state w); w1 = w\<lparr>w_state := st\<rparr> in
         case beat request s of
           (Inl e, s1) \<Rightarrow> Returns (HeartbeatFailed e, w1, s1)
         | (Inr js, s1) \<Rightarrow> go_bind (run_jobs rj js w1 s1) (\<lambda>(w2, s2). Returns (CycleDone, w2, s2))))"

section \<open>Lemmas\<close>

lemma linkFiles_frame:
  "linkFiles env i p w = (r, w1) \<Longrightarrow> w_state w1 = w_state w \<and> w_metrics w1 = w_metrics w \<and>
     w_artifacts w1 = w_artifacts w \<and> jobResultCache w1 = jobResultCache w \<and> workerID w1 = workerID w"
  by (auto simp: linkFiles_def Let_def split: prod.splits option.splits)

lemma linkAll_frame:
  "linkAll env fs w = (r, w1) \<Longrightarrow> w_state w1 = w_state w \<and> w_metrics w1 = w_metrics w \<and>
     w_artifacts w1 = w_artifacts w \<and> jobResultCache w1 = jobResultCache w \<and> workerID w1 = workerID w"
proof (induction fs arbitrary: w)
  case (Cons f fs)
  from Cons.prems show ?case
    by (cases f) (auto split: prod.splits option.splits dest!: Cons.IH linkFiles_frame)
qed simp

lemma downloadFiles_frame:
  "downloadFiles env TF fs w s = Returns (r, w1, s1) \<Longrightarrow> w_state w1 = w_state w \<and> w_metrics w1 = w_metrics w \<and>
     w_artifacts w1 = w_artifacts w \<and> jobResultCache w1 = jobResultCache w"
proof (induction fs arbitrary: w s)
  case (Cons f fs)
  from Cons.prems show ?case
    by (cases f) (auto simp: go_simps split: prod.splits option.splits if_splits dest!: Cons.IH)
qed simp

lemma fetchArtifacts_frame:
  "fetchArtifacts env TA arts w s added = (r, w1, s1) \<Longrightarrow> w_state w1 = w_state w \<and> w_metrics w1 = w_metrics w \<and>
     w_fileCache w1 = w_fileCache w \<and> jobResultCache w1 = jobResultCache w"
proof (induction arts arbitrary: w s added)
  case (Cons a arts)
  from Cons.prems show ?case
    by (cases a) (auto split: prod.splits option.splits if_splits dest!: Cons.IH)
qed simp

lemma executeJob_frame:
  "executeJob env rc proc resolve spec w = Returns (r, w1) \<Longrightarrow> w_state w1 = w_state w \<and>
     w_metrics w1 = w_metrics w \<and> jobResultCache w1 = jobResultCache w"
  by (auto simp: executeJob_def Let_def go_simps split: prod.splits option.splits dest!: linkAll_frame)

lemma run_result_frame:
  "run_result env gu TF TA et rc proc resolve i spec w s = Returns (res, w1, s1) \<Longrightarrow>
     ws_FinishedJob (w_state w1) = ws_FinishedJob (w_state w) \<and>
     ws_AddedArtifacts (w_state w1) = ws_AddedArtifacts (w_state w) \<and> w_metrics w1 = w_metrics w"
  by (auto simp: run_result_def downloadArtifacts_def addArtifacts_def Let_def go_simps
      split: prod.splits option.splits if_splits
      dest!: fetchArtifacts_frame downloadFiles_frame executeJob_frame)

text \<open>Taking and giving back the read locks of the dependencies.\<close>

definition deps_locked :: "ID list \<Rightarrow> Cache \<Rightarrow> Cache" where
  "deps_locked ds c = c\<lparr>readLocked := (\<lambda>i. if i \<in> set ds then Some 1 else readLocked c i)\<rparr>"

lemma lock_deps_ok:
  assumes "distinct ds" "\<forall>d \<in> set ds. entry_free c d \<and> cacheDir c d \<noteq> None"
  shows "lock_deps no_faults ds c = Returns (deps_locked ds c)"
  using assms
proof (induction ds arbitrary: c)
  case (Cons d ds)
  let ?c1 = "c\<lparr>readLocked := (readLocked c)(d \<mapsto> 1)\<rparr>"
  have "Cache_Get no_faults d c = (None, ?c1)"
    using Cons.prems(2) by (auto simp: cache_ops cache_parts entry_free_def)
  moreover have "\<forall>e \<in> set ds. entry_free ?c1 e \<and> cacheDir ?c1 e \<noteq> None"
    using Cons.prems by (auto simp: entry_free_def)
  then have "lock_deps no_faults ds ?c1 = Returns (deps_locked ds ?c1)"
    using Cons.IH Cons.prems(1) by simp
  ultimately show ?case
    by (auto simp: deps_locked_def fun_eq_iff)
qed (simp add: deps_locked_def)

lemma unlock_deps:
  assumes "distinct ds" "\<forall>d \<in> set ds. readLocked c d = None"
  shows "fold readUnlock ds (deps_locked ds c) = c"
  using assms
proof (induction ds)
  case (Cons d ds)
  have "readUnlock d (deps_locked (d # ds) c) = deps_locked ds c"
    using Cons.prems by (auto simp: readUnlock_def deps_locked_def fun_eq_iff)
  with Cons show ?case by simp
qed (simp add: deps_locked_def)

definition files_present :: "Worker \<Rightarrow> (ID \<times> string) list \<Rightarrow> bool" where
  "files_present w fs \<longleftrightarrow> (\<forall>(i, p) \<in> set fs. entry_free (w_fileCache w) i \<and> fc_content (w_fileCache w) i \<noteq> None)"

lemma linkAll_ok:
  assumes "files_present w fs"
  shows "linkAll no_faults fs w = (None, w\<lparr>w_source := fold (\<lambda>(i, p) m. m(p := fc_content (w_fileCache w) i)) fs (w_source w)\<rparr>)"
  using assms
proof (induction fs arbitrary: w)
  case (Cons f fs)
  obtain i p where f: "f = (i, p)" by fastforce
  from Cons.prems f obtain content where c: "entry_free (w_fileCache w) i" "fc_content (w_fileCache w) i = Some content"
    by (auto simp: files_present_def)
  obtain c1 where "FC_Get no_faults i (w_fileCache w) = (None, c1)" "fc_content c1 = fc_content (w_fileCache w)"
    "readUnlock i c1 = w_fileCache w"
    using FC_Get_ok [OF c] .
  then have "linkFiles no_faults i p w = (None, w\<lparr>w_source := (w_source w)(p \<mapsto> content)\<rparr>)"
    using c(2) by (simp add: linkFiles_def Let_def)
  moreover have "files_present (w\<lparr>w_source := (w_source w)(p \<mapsto> content)\<rparr>) fs"
    using Cons.prems by (simp add: files_present_def)
  ultimately show ?case
    using Cons.IH [of "w\<lparr>w_source := (w_source w)(p \<mapsto> content)\<rparr>"] c(2)
    by (simp add: f cong: if_cong)
qed simp

text \<open>A worker that is ready to run a job.\<close>

definition job_ready :: "Worker \<Rightarrow> JobSpec \<Rightarrow> bool" where
  "job_ready w spec \<longleftrightarrow> files_present w (SourceFiles spec) \<and>
     entry_free (w_artifacts w) (spec_ID spec) \<and> cacheDir (w_artifacts w) (spec_ID spec) = None \<and>
     tmpDir (w_artifacts w) (spec_ID spec) = None \<and> distinct (Deps (spec_Job spec)) \<and>
     (\<forall>d \<in> set (Deps (spec_Job spec)). entry_free (w_artifacts w) d \<and> cacheDir (w_artifacts w) d \<noteq> None)"

text \<open>The commands of a job run in its context, starting in an empty directory.\<close>

definition job_run :: "(JobContext \<Rightarrow> Cmd \<Rightarrow> string + Cmd) \<Rightarrow> process \<Rightarrow> (string \<Rightarrow> string list) \<Rightarrow> Worker \<Rightarrow> JobSpec
    \<Rightarrow> (string option \<times> JobResult \<times> dir) go" where
  "job_run rc proc resolve w spec =
     run_cmds no_faults (rc (job_context w (spec_Job spec))) proc resolve (Cmds (spec_Job spec)) (new_result (spec_ID spec)) []"

lemma executeJob_eq:
  assumes "job_ready w spec" "job_run rc proc resolve w spec = Returns (err, res, d)"
  shows "\<exists>c1 w1. Cache_Create no_faults (spec_ID spec) (w_artifacts w) = (None, c1) \<and> entry_writing c1 (spec_ID spec) \<and>
    cacheDir c1 = cacheDir (w_artifacts w) \<and> readLocked c1 = readLocked (w_artifacts w) \<and>
    w_artifacts w1 = snd (end_job no_faults (spec_ID spec) (Deps (spec_Job spec)) err
        (write_files (spec_ID spec) d (deps_locked (Deps (spec_Job spec)) c1))) \<and>
    executeJob no_faults rc proc resolve spec w =
      Returns ((res, fst (end_job no_faults (spec_ID spec) (Deps (spec_Job spec)) err
        (write_files (spec_ID spec) d (deps_locked (Deps (spec_Job spec)) c1)))), w1)"
proof -
  let ?i = "spec_ID spec" and ?ds = "Deps (spec_Job spec)"
  let ?w1 = "w\<lparr>w_source := fold (\<lambda>(i, p) m. m(p := fc_content (w_fileCache w) i)) (SourceFiles spec) (w_source w)\<rparr>"
  from assms(1) have link: "linkAll no_faults (SourceFiles spec) w = (None, ?w1)"
    by (intro linkAll_ok) (simp add: job_ready_def)
  from assms(1) have free: "entry_free (w_artifacts w) ?i" "cacheDir (w_artifacts w) ?i = None"
    "tmpDir (w_artifacts w) ?i = None" "distinct ?ds"
    and deps: "\<forall>d \<in> set ?ds. entry_free (w_artifacts w) d \<and> cacheDir (w_artifacts w) d \<noteq> None"
    by (simp_all add: job_ready_def)
  from ac.create_ok [OF free(1,2)] obtain c1 where c1: "Cache_Create no_faults ?i (w_artifacts w) = (None, c1)"
    "cacheDir c1 = cacheDir (w_artifacts w)" "entry_writing c1 ?i" by blast
  from c1(1) free have more: "tmpDir c1 ?i = Some []" "readLocked c1 = readLocked (w_artifacts w)"
    "writeLocked c1 = insert ?i (writeLocked (w_artifacts w))"
    by (auto simp: cache_ops cache_parts Let_def split: if_splits)
  have "\<forall>d \<in> set ?ds. entry_free c1 d \<and> cacheDir c1 d \<noteq> None"
    using deps free(2) more c1(2) by (fastforce simp: entry_free_def)
  from lock_deps_ok [OF free(4) this] have lock: "lock_deps no_faults ?ds c1 = Returns (deps_locked ?ds c1)" .
  have ctx: "job_context ?w1 (spec_Job spec) = job_context w (spec_Job spec)"
    by (simp add: job_context_def)
  let ?r = "end_job no_faults ?i ?ds err (write_files ?i d (deps_locked ?ds c1))"
  have "executeJob no_faults rc proc resolve spec w = Returns ((res, fst ?r), ?w1\<lparr>w_artifacts := snd ?r\<rparr>)"
    using assms(2) link c1(1) lock more(1)
    by (simp add: executeJob_def job_run_def ctx Let_def deps_locked_def)
  with c1 more(2) show ?thesis
    by (intro exI [of _ c1] exI [of _ "?w1\<lparr>w_artifacts := snd ?r\<rparr>"]) simp
qed

section \<open>Properties\<close>

text \<open>
  C22. A job whose files and dependencies are on the worker and whose commands succeed: its result
  carries the commands' output, the output directory is in the artifact cache under the job's
  identifier, every other artifact is as before, and all locks are free again.
\<close>

theorem executeJob_publishes:
  assumes "job_ready w spec" "job_run rc proc resolve w spec = Returns (None, res, d)"
  shows "\<exists>w1. executeJob no_faults rc proc resolve spec w = Returns ((res, None), w1) \<and>
    cacheDir (w_artifacts w1) = (cacheDir (w_artifacts w))(spec_ID spec \<mapsto> d) \<and>
    readLocked (w_artifacts w1) = readLocked (w_artifacts w) \<and> entry_free (w_artifacts w1) (spec_ID spec)"
proof -
  let ?i = "spec_ID spec" and ?ds = "Deps (spec_Job spec)"
  obtain c1 w1 where c1: "Cache_Create no_faults ?i (w_artifacts w) = (None, c1)" "entry_writing c1 ?i"
    "cacheDir c1 = cacheDir (w_artifacts w)" "readLocked c1 = readLocked (w_artifacts w)"
    and w1: "w_artifacts w1 = snd (end_job no_faults ?i ?ds None (write_files ?i d (deps_locked ?ds c1)))"
    "executeJob no_faults rc proc resolve spec w =
      Returns ((res, fst (end_job no_faults ?i ?ds None (write_files ?i d (deps_locked ?ds c1)))), w1)"
    using executeJob_eq [OF assms] by blast
  have "write_files ?i d (deps_locked ?ds c1) = deps_locked ?ds (write_files ?i d c1)"
    by (rule Cache.equality) (simp_all add: write_files_def deps_locked_def cong: if_cong)
  moreover have "fold readUnlock ?ds (deps_locked ?ds (write_files ?i d c1)) = write_files ?i d c1"
    using assms(1) c1(4) by (intro unlock_deps) (auto simp: job_ready_def entry_free_def write_files_def)
  moreover obtain c2 where "Cache_commit no_faults ?i (write_files ?i d c1) = (None, c2)"
    "cacheDir c2 = (cacheDir c1)(?i \<mapsto> d)" "entry_free c2 ?i"
    using ac.put_ok [OF c1(2), of d] ac.commit_ok [of "write_files ?i d c1" ?i d] c1(3) assms(1)
    by (auto simp: job_ready_def)
  moreover have "readLocked c2 = readLocked c1"
    using \<open>Cache_commit no_faults ?i (write_files ?i d c1) = (None, c2)\<close>
    by (auto simp: cache_ops cache_parts write_files_def Let_def split: option.splits if_splits prod.splits)
  ultimately show ?thesis
    using w1 c1(3,4) by (simp add: end_job_def)
qed

text \<open>A worker with one dependency in its cache, and a job whose only command is a process.\<close>

definition demo_worker :: Worker where
  "demo_worker = \<lparr>workerID = ''w'', w_state = newWorkerState 4, w_metrics = \<lparr>totalJob = 0, activeJob = 0\<rparr>,
     w_fileCache = h_cache stored_handler, w_artifacts = (shared empty_sys)\<lparr>cacheDir := [ID_lit [98] \<mapsto> []]\<rparr>,
     jobResultCache = NewSyncMap 0, w_source = Map.empty, w_sourceDir = ''/tmp'',
     w_outPath = (\<lambda>_. ''/out''), w_depPath = (\<lambda>_. ''/dep'')\<rparr>"

definition demo_job :: JobSpec where
  "demo_job = \<lparr>SourceFiles = [(idA, ''a.c'')], Artifacts = [(ID_lit [98], ''v'')],
     spec_Job = \<lparr>Job_ID = ID_lit [99], Job_Name = [], Inputs = [''a.c''], Deps = [ID_lit [98]],
       Cmds = [\<lparr>Exec = [''cc''], Environ = [], WorkingDirectory = [], CatTemplate = [], CatOutput = []\<rparr>]\<rparr>\<rparr>"

lemma demo_job_ready: "job_ready demo_worker demo_job"
  using stored_handler_file
  by (simp add: job_ready_def files_present_def demo_worker_def demo_job_def spec_ID_def entry_free_def
      empty_sys_def del: stored_handler_file)

text \<open>A compiler that writes one file, and one that fails.\<close>

definition demo_cc :: "string option \<Rightarrow> process" where
  "demo_cc err cmd d = (err, [1], [], d @ [(''o'', File 420 [7])])"

lemma demo_job_run:
  "job_run (\<lambda>_. Inr) (demo_cc err) (\<lambda>p. [p]) demo_worker demo_job =
     Returns (err, (new_result (ID_lit [99]))\<lparr>Stdout := (if err = None then [1] else []), ExitCode := - 1, Error := err\<rparr>,
       [(''o'', File 420 [7])])"
  by (cases err) (simp_all add: job_run_def demo_job_def executeCommand_def demo_cc_def new_result_def spec_ID_def)

theorem executeJob_publishes_witness:
  "\<exists>w1 res. executeJob no_faults (\<lambda>_. Inr) (demo_cc None) (\<lambda>p. [p]) demo_job demo_worker = Returns ((res, None), w1) \<and>
    Stdout res = [1] \<and> cacheDir (w_artifacts w1) (ID_lit [99]) = Some [(''o'', File 420 [7])]"
  using executeJob_publishes [OF demo_job_ready demo_job_run [of None]]
  by (fastforce simp: demo_job_def spec_ID_def)

lemma Remove_read_locked:
  "readLocked c dep = Some 1 \<Longrightarrow> dep \<notin> writeLocked c \<Longrightarrow>
     fst (Cache_Remove no_faults dep c) = Some Art_ErrReadLocked"
  by (simp add: cache_ops writeLock_def Stat_def Let_def split: option.split)

text \<open>
  A job whose command fails publishes nothing and frees its own identifier, but its
  dependencies stay locked for reading on the worker for good: they cannot be removed any more.
\<close>

theorem failed_job_keeps_deps_locked:
  assumes "job_ready w spec" "job_run rc proc resolve w spec = Returns (Some e, res, d)"
  shows "\<exists>w1. executeJob no_faults rc proc resolve spec w = Returns ((res, Some (CmdErr e)), w1) \<and>
    cacheDir (w_artifacts w1) = cacheDir (w_artifacts w) \<and> entry_free (w_artifacts w1) (spec_ID spec) \<and>
    (\<forall>dep \<in> set (Deps (spec_Job spec)). readLocked (w_artifacts w1) dep = Some 1 \<and>
       fst (Cache_Remove no_faults dep (w_artifacts w1)) = Some Art_ErrReadLocked)"
proof -
  let ?i = "spec_ID spec" and ?ds = "Deps (spec_Job spec)"
  obtain c1 w1 where c1: "Cache_Create no_faults ?i (w_artifacts w) = (None, c1)" "entry_writing c1 ?i"
    "cacheDir c1 = cacheDir (w_artifacts w)" "readLocked c1 = readLocked (w_artifacts w)"
    and w1: "w_artifacts w1 = snd (end_job no_faults ?i ?ds (Some e) (write_files ?i d (deps_locked ?ds c1)))"
    "executeJob no_faults rc proc resolve spec w =
      Returns ((res, fst (end_job no_faults ?i ?ds (Some e) (write_files ?i d (deps_locked ?ds c1)))), w1)"
    using executeJob_eq [OF assms] by blast
  have deps: "dep \<noteq> ?i" "dep \<notin> writeLocked (w_artifacts w)" if "dep \<in> set ?ds" for dep
    using assms(1) that by (auto simp: job_ready_def entry_free_def)
  have wl: "writeLocked c1 = insert ?i (writeLocked (w_artifacts w))"
    using c1(1) by (auto simp: cache_ops cache_parts Let_def split: if_splits option.splits)
  have "?i \<notin> set ?ds" using deps by blast
  let ?c3 = "write_files ?i d (deps_locked ?ds c1)"
  let ?c4 = "?c3\<lparr>tmpDir := (tmpDir ?c3)(?i := None), writeLocked := writeLocked ?c3 - {?i}\<rparr>"
  have abort: "Cache_abort no_faults ?i ?c3 = (None, ?c4)"
    by (simp add: cache_ops cache_parts)
  have w1c: "w_artifacts w1 = ?c4"
    using w1(1) abort by (simp add: end_job_def)
  have "readLocked ?c4 dep = Some 1" "dep \<notin> writeLocked ?c4" if "dep \<in> set ?ds" for dep
    using that deps [OF that] wl by (simp_all add: write_files_def deps_locked_def)
  then have "\<forall>dep \<in> set ?ds. readLocked ?c4 dep = Some 1 \<and>
      fst (Cache_Remove no_faults dep ?c4) = Some Art_ErrReadLocked"
    using Remove_read_locked by blast
  moreover have "cacheDir ?c4 = cacheDir (w_artifacts w)" "entry_free ?c4 ?i"
    using c1(2-4) \<open>?i \<notin> set ?ds\<close> assms(1)
    by (simp_all add: write_files_def deps_locked_def entry_free_def job_ready_def)
  ultimately show ?thesis
    using w1(2) abort w1c by (simp add: end_job_def)
qed

theorem failed_job_keeps_deps_locked_witness:
  "\<exists>w1 res. executeJob no_faults (\<lambda>_. Inr) (demo_cc (Some ''exit status 1'')) (\<lambda>p. [p]) demo_job demo_worker =
      Returns ((res, Some (CmdErr ''exit status 1'')), w1) \<and>
    fst (Cache_Remove no_faults (ID_lit [98]) (w_artifacts w1)) = Some Art_ErrReadLocked"
  using failed_job_keeps_deps_locked [OF demo_job_ready demo_job_run [of "Some ''exit status 1''"]]
  by (fastforce simp: demo_job_def)

text \<open>
  However a job ends on a worker whose context is not done, exactly one result is added to
  what the next heartbeat reports; the artifacts the job has downloaded are never added to it;
  and a job that was scheduled is counted twice in \<open>totalJob\<close> and no longer in \<open>activeJob\<close>.
\<close>

theorem runJob_reports_once:
  assumes "runJob env False TF TA err_text rc proc resolve i spec (w\<lparr>w_metrics := scheduleTask (w_metrics w)\<rparr>) s =
    Returns (w1, s1)"
  shows "(\<exists>res. ws_FinishedJob (w_state w1) = ws_FinishedJob (w_state w) @ [res]) \<and>
    ws_AddedArtifacts (w_state w1) = ws_AddedArtifacts (w_state w) \<and>
    totalJob (w_metrics w1) = totalJob (w_metrics w) + 2 \<and> activeJob (w_metrics w1) = activeJob (w_metrics w)"
  using assms
  by (auto simp: runJob_def go_simps addJobResult_def scheduleTask_def doneTask_def dest!: run_result_frame)

theorem runJob_reports_once_witness:
  "\<exists>w1. runJob no_faults False (perfect (file_route no_faults None)) (\<lambda>_ _ s. (Inl ''down'', s)) (\<lambda>_. ''no'') (\<lambda>_. Inr) (demo_cc None)
      (\<lambda>p. [p]) (ID_lit [99]) demo_job (demo_worker\<lparr>w_metrics := scheduleTask (w_metrics demo_worker)\<rparr>) fresh_handler =
      Returns (w1, fresh_handler) \<and>
    totalJob (w_metrics w1) = 2 \<and> (\<exists>res. ws_FinishedJob (w_state w1) = [res])"
proof -
  let ?w = "demo_worker\<lparr>w_metrics := scheduleTask (w_metrics demo_worker)\<rparr>"
  have "\<exists>w1. runJob no_faults False (perfect (file_route no_faults None)) (\<lambda>_ _ s. (Inl ''down'', s)) (\<lambda>_. ''no'') (\<lambda>_. Inr) (demo_cc None)
      (\<lambda>p. [p]) (ID_lit [99]) demo_job ?w fresh_handler = Returns (w1, fresh_handler)"
    using stored_handler_file
    by (simp add: runJob_def run_result_def downloadArtifacts_def demo_worker_def demo_job_def NewSyncMap_def Load_def
        cache_ops cache_parts empty_sys_def stored_handler_def FC_Get_def fresh_handler_def spec_ID_def
        linkFiles_def executeJob_def end_job_def executeCommand_def demo_cc_def write_files_def fc_content_def file_content_def
        Let_def split: prod.split)
  then show ?thesis
    using runJob_reports_once [of no_faults "perfect (file_route no_faults None)" "\<lambda>_ _ s. (Inl ''down'', s)" "\<lambda>_. ''no''" "\<lambda>_. Inr"
      "demo_cc None" "\<lambda>p. [p]" "ID_lit [99]" demo_job demo_worker fresh_handler]
    by (fastforce simp: demo_worker_def newWorkerState_def)
qed

text \<open>
  A process reports the exit code -1 whatever it does, a command without a process 0.
\<close>

lemma executeCommand_exit_code:
  "fst (fst (executeCommand env proc resolve cmd d)) = (if length (Exec cmd) > 0 then - 1 else 0)"
  by (simp add: executeCommand_def Let_def split: prod.split sum.split option.split)

text \<open>A job with a command that cannot be rendered brings the worker down.\<close>

lemma unrendered_command_panics:
  "rnd c = Inl e \<Longrightarrow> run_cmds env rnd proc resolve (c # cmds) res d = Panics ''nil pointer dereference''"
  by simp

end
