(* ===== verification/Client.thy ===== *)
theory Client
  imports Status_Stream File_Handler
begin

text \<open>
  Package \<open>client\<close>: \<open>Build\<close> uploads the files the coordinator misses, signals, and passes the
  updates of the build to a listener. The uploads run in goroutines that report on a channel; the
  order in which their messages arrive is an argument.
\<close>

section \<open>Listening\<close>

datatype lsn_call =
    OnJobFailed ID int string
  | OnJobFinished ID
  | OnJobStderr ID bytes
  | OnJobStdout ID bytes

type_synonym 'l listener = "lsn_call \<Rightarrow> 'l \<Rightarrow> string option \<times> 'l"

datatype build_error =
    StartFailed api_error
  | FileUnknown ID
  | StatFailed string
  | NotRegularFile string
  | UploadFailed client_error
  | SignalFailed api_error
  | CtxDone
  | StatusFailed string
  | ListenerFailed string
  | BuildFailedErr string

text \<open>The calls for a finished job, up to the first the listener fails.\<close>

definition job_calls :: "JobResult \<Rightarrow> lsn_call list" where
  "job_calls res =
     [case Error res of Some e \<Rightarrow> OnJobFailed (res_ID res) (ExitCode res) e | None \<Rightarrow> OnJobFinished (res_ID res),
      OnJobStderr (res_ID res) (Stderr res), OnJobStdout (res_ID res) (Stdout res)]"

fun call_listener :: "'l listener \<Rightarrow> lsn_call list \<Rightarrow> 'l \<Rightarrow> string option \<times> 'l" where
  "call_listener lsn [] l = (None, l)"
| "call_listener lsn (c # cs) l =
     (case lsn c l of (Some e, l1) \<Rightarrow> (Some e, l1) | (None, l1) \<Rightarrow> call_listener lsn cs l1)"

datatype listen_result = ListenEOF | ListenNext | ListenErr build_error

text \<open>\<open>ctx_done\<close>: the context is done before the next message arrives.\<close>

definition listenBuild :: "bool \<Rightarrow> 'l listener \<Rightarrow> streamStatusReader \<Rightarrow> 'l \<Rightarrow> listen_result \<times> streamStatusReader \<times> 'l" where
  "listenBuild ctx_done lsn r l =
     (if ctx_done then (ListenErr CtxDone, r, l)
      else case Next r of
        (Next_EOF, r1) \<Rightarrow> (ListenEOF, r1, l)
      | (Next_Err e, r1) \<Rightarrow> (ListenErr (StatusFailed e), r1, l)
      | (Next_Update update, r1) \<Rightarrow>
          (case JobFinished update of
             Some res \<Rightarrow>
               (case call_listener lsn (job_calls res) l of
                  (Some e, l1) \<Rightarrow> (ListenErr (ListenerFailed e), r1, l1)
                | (None, l1) \<Rightarrow> (ListenNext, r1, l1))
           | None \<Rightarrow>
               (case BuildFailed update of
                  Some e \<Rightarrow> (ListenErr (BuildFailedErr e), r1, l)
                | None \<Rightarrow> (ListenNext, r1, l))))"

text \<open>
  The loop of \<open>Build\<close> until the stream ends. Each round takes one message off the stream, so as
  many rounds as there are messages, and one for the end, are enough.
\<close>

fun listen_loop :: "nat \<Rightarrow> bool list \<Rightarrow> 'l listener \<Rightarrow> streamStatusReader \<Rightarrow> 'l \<Rightarrow> (build_error option \<times> 'l) option" where
  "listen_loop 0 ctx lsn r l = None"
| "listen_loop (Suc n) ctx lsn r l =
     (case listenBuild (ctx \<noteq> [] \<and> hd ctx) lsn r l of
        (ListenEOF, r1, l1) \<Rightarrow> Some (None, l1)
      | (ListenErr e, r1, l1) \<Rightarrow> Some (Some e, l1)
      | (ListenNext, r1, l1) \<Rightarrow> listen_loop n (tl ctx) lsn r1 l1)"

definition listen_all :: "bool list \<Rightarrow> 'l listener \<Rightarrow> streamStatusReader \<Rightarrow> 'l \<Rightarrow> (build_error option \<times> 'l) option" where
  "listen_all ctx lsn r l = listen_loop (Suc (length (sr_rest r))) ctx lsn r l"

section \<open>Building\<close>

datatype file_stat = StatErr string | Regular | NotRegular

text \<open>
  The loop that starts the uploads: a missing file must be one of the graph and a regular file.
  The result is the error that ends the loop and the uploads started before, as file and full
  path; \<open>full\<close> joins a path to the source directory.
\<close>

fun start_uploads :: "(ID \<times> string) list \<Rightarrow> (string \<Rightarrow> string) \<Rightarrow> (string \<Rightarrow> file_stat) \<Rightarrow> ID list
    \<Rightarrow> build_error option \<times> (ID \<times> string) list" where
  "start_uploads files full stat [] = (None, [])"
| "start_uploads files full stat (i # is) =
     (case map_of files i of
        None \<Rightarrow> (Some (FileUnknown i), [])
      | Some path \<Rightarrow>
          (case stat (full path) of
             StatErr e \<Rightarrow> (Some (StatFailed e), [])
           | NotRegular \<Rightarrow> (Some (NotRegularFile (full path)), [])
           | Regular \<Rightarrow>
               (let (err, ups) = start_uploads files full stat is in (err, (i, full path) # ups))))"

text \<open>
  The upload goroutines, each run as one step, in the order \<open>order\<close> of their numbers; the result
  is the error of each.
\<close>

fun run_uploads :: "(string \<Rightarrow> string + body) \<Rightarrow> 's transport \<Rightarrow> (ID \<times> string) list \<Rightarrow> nat list
    \<Rightarrow> (nat \<Rightarrow> client_error option) \<Rightarrow> 's \<Rightarrow> ((nat \<Rightarrow> client_error option) \<times> 's) go" where
  "run_uploads local T ups [] errs s = Returns (errs, s)"
| "run_uploads local T ups (k # order) errs s =
     go_bind (Upload local None T (fst (ups ! k)) (snd (ups ! k)) s)
       (\<lambda>(err, s1). run_uploads local T ups order (errs(k := err)) s1)"

text \<open>What an upload goroutine sends on \<open>errs\<close>: after an error it goes on to send nil too.\<close>

definition upload_sends :: "'e option \<Rightarrow> 'e option list" where
  "upload_sends err = (case err of Some e \<Rightarrow> [Some e, None] | None \<Rightarrow> [None])"

text \<open>
  The messages on \<open>errs\<close> in the order of their arrival: \<open>senders\<close> says who sends next; a goroutine
  that has sent everything is passed over.
\<close>

fun arrivals :: "nat list \<Rightarrow> (nat \<Rightarrow> 'm list) \<Rightarrow> (nat \<times> 'm) list" where
  "arrivals [] sends = []"
| "arrivals (k # senders) sends =
     (case sends k of
        [] \<Rightarrow> arrivals senders sends
      | m # ms \<Rightarrow> (k, m) # arrivals senders (sends(k := ms)))"

text \<open>
  Receive as many messages as there are files, until an error; a receive blocks when no message
  comes any more.
\<close>

fun collect :: "nat \<Rightarrow> 'e option list \<Rightarrow> 'e option go" where
  "collect 0 ms = Returns None"
| "collect (Suc n) [] = Blocks"
| "collect (Suc n) (m # ms) = (case m of Some e \<Rightarrow> Returns (Some e) | None \<Rightarrow> collect n ms)"

text \<open>
  \<open>Build\<close>: \<open>TS\<close>, \<open>TU\<close> and \<open>TG\<close> are the network for starting, uploading and signalling. The result
  is the error, the listener's state and the state of the other machines.
\<close>

definition Build :: "(Graph \<Rightarrow> 's \<Rightarrow> (string + stream_response) \<times> 's) \<Rightarrow> 's transport
    \<Rightarrow> (ID \<times> SignalRequest \<Rightarrow> 's \<Rightarrow> (string + nat \<times> body) \<times> 's)
    \<Rightarrow> (string \<Rightarrow> string) \<Rightarrow> (string \<Rightarrow> file_stat) \<Rightarrow> (string \<Rightarrow> string + body)
    \<Rightarrow> nat list \<Rightarrow> nat list \<Rightarrow> bool list \<Rightarrow> Graph \<Rightarrow> 'l listener \<Rightarrow> 'l \<Rightarrow> 's
    \<Rightarrow> (build_error option \<times> 'l \<times> 's) go" where
  "Build TS TU TG full stat local order senders ctx graph lsn l s =
     (case client_StartBuild None TS \<lparr>req_Graph = graph\<rparr> s of
        (Inl e, s1) \<Rightarrow> Returns (Some (StartFailed e), l, s1)
      | (Inr (started, reader), s1) \<Rightarrow>
          (case start_uploads (Graph_SourceFiles graph) full stat (MissingFiles started) of
             (err, ups) \<Rightarrow>
               go_bind (run_uploads local TU ups order (\<lambda>_. None) s1) (\<lambda>(errs, s2).
                 case err of
                   Some e \<Rightarrow> Returns (Some e, l, s2)
                 | None \<Rightarrow>
                     go_bind (collect (length (MissingFiles started))
                         (map snd (arrivals senders (\<lambda>k. if k < length ups then upload_sends (errs k) else []))))
                       (\<lambda>failed.
                         case failed of
                           Some e \<Rightarrow> Returns (Some (UploadFailed e), l, s2)
                         | None \<Rightarrow>
                             (case client_SignalBuild None TG (started_ID started) \<lparr>UploadDone = True\<rparr> s2 of
                                (Some e, s3) \<Rightarrow> Returns (Some (SignalFailed e), l, s3)
                              | (None, s3) \<Rightarrow>
                                  (case listen_all ctx lsn reader l of
                                     None \<Rightarrow> Blocks
                                   | Some (res, l1) \<Rightarrow> Returns (res, l1, s3)))))))"

section \<open>Uploads\<close>

text \<open>
  A list of messages with the numbers of their senders that interleaves what the goroutines send.
\<close>

definition interleaving :: "(nat \<Rightarrow> 'e option) \<Rightarrow> nat \<Rightarrow> (nat \<times> 'e option) list \<Rightarrow> bool" where
  "interleaving errs n tagged \<longleftrightarrow> (\<forall>m \<in> set tagged. fst m < n) \<and>
     (\<forall>i < n. map snd (filter (\<lambda>m. fst m = i) tagged) = upload_sends (errs i))"

lemma length_by_sender:
  "\<forall>m \<in> set ms. fst m < (n :: nat) \<Longrightarrow> length ms = (\<Sum>i<n. length (filter (\<lambda>m. fst m = i) ms))"
proof (induction ms)
  case (Cons m ms)
  have "(\<Sum>i<n. length (filter (\<lambda>x. fst x = i) (m # ms))) =
      (\<Sum>i<n. (if i = fst m then 1 else 0) + length (filter (\<lambda>x. fst x = i) ms))"
    by (rule sum.cong) auto
  also have "\<dots> = (\<Sum>i<n. if i = fst m then 1 else 0) + (\<Sum>i<n. length (filter (\<lambda>x. fst x = i) ms))"
    by (rule sum.distrib)
  also have "(\<Sum>i<n. if i = fst m then 1 else 0 :: nat) = 1"
    using Cons.prems by (subst sum.delta) simp_all
  finally show ?case using Cons by simp
qed simp

lemma collect_None_iff:
  "collect n ms = Returns None \<longleftrightarrow> n \<le> length ms \<and> (\<forall>m \<in> set (take n ms). m = None)"
  by (induction n ms rule: collect.induct) (auto split: option.splits)

lemma collect_returns: "n \<le> length ms \<Longrightarrow> \<exists>r. collect n ms = Returns r"
  by (induction n ms rule: collect.induct) (auto split: option.splits)

text \<open>Of the messages before the first error at most one comes from each goroutine.\<close>

lemma sends_before_error:
  assumes "map snd ms @ rest = upload_sends err" "\<forall>m \<in> set ms. snd m = None"
  shows "length ms \<le> (if err = None then 1 else 0)"
proof (cases err)
  case (Some e)
  with assms show ?thesis by (cases ms) (auto simp: upload_sends_def)
next
  case None
  with arg_cong [OF assms(1), of length] show ?thesis
    by (simp add: upload_sends_def)
qed

lemma interleaving_length:
  assumes "interleaving errs n tagged"
  shows "n \<le> length tagged"
proof -
  have "1 \<le> length (filter (\<lambda>m. fst m = i) tagged)" if "i < n" for i
  proof -
    have "length (map snd (filter (\<lambda>m. fst m = i) tagged)) = length (upload_sends (errs i))"
      using assms that by (simp add: interleaving_def)
    then show ?thesis by (simp add: upload_sends_def split: option.splits)
  qed
  then have "(\<Sum>i<n. 1) \<le> (\<Sum>i<n. length (filter (\<lambda>m. fst m = i) tagged))"
    by (intro sum_mono) simp
  then show ?thesis
    using length_by_sender [of tagged n] assms by (simp add: interleaving_def)
qed

lemma collect_interleaving:
  fixes errs :: "nat \<Rightarrow> 'a option"
  assumes "interleaving errs n tagged"
  shows "collect n (map snd tagged) = Returns None \<longleftrightarrow> (\<forall>i < n. errs i = None)"
proof
  assume none: "collect n (map snd tagged) = Returns None"
  let ?got = "take n tagged" and ?of = "\<lambda>i ms. filter (\<lambda>m. fst m = i) (ms :: (nat \<times> 'a option) list)"
  have sends: "map snd (?of i ?got) @ map snd (?of i (drop n tagged)) = upload_sends (errs i)" if "i < n" for i
    using assms that by (metis append_take_drop_id filter_append interleaving_def map_append)
  have quiet: "\<forall>m \<in> set ?got. snd m = None"
    using none by (auto simp: collect_None_iff take_map)
  have le: "length (?of i ?got) \<le> (if errs i = None then 1 else 0)" if "i < n" for i
    using sends_before_error [OF sends [OF that]] quiet by auto
  have "n = length ?got"
    using interleaving_length [OF assms] by simp
  also have "\<dots> = (\<Sum>i<n. length (?of i ?got))"
    using length_by_sender [of ?got n] assms by (auto simp: interleaving_def dest: in_set_takeD)
  finally have total_eq: "(\<Sum>i<n. length (?of i ?got)) = n" ..
  show "\<forall>i < n. errs i = None"
  proof (rule ccontr)
    assume "\<not> (\<forall>i < n. errs i = None)"
    then obtain k where k: "k < n" "errs k \<noteq> None" by blast
    have "(\<Sum>i<n. length (?of i ?got)) < (\<Sum>i<n. 1)"
      using le k by (intro sum_strict_mono_ex1) (force split: if_splits)+
    with total_eq show False by simp
  qed
next
  assume ok: "\<forall>i < n. errs i = None"
  have "m = None" if "m \<in> set (map snd tagged)" for m
  proof -
    from that obtain i where "(i, m) \<in> set tagged" by auto
    then have "i < n" "m \<in> set (map snd (filter (\<lambda>x. fst x = i) tagged))"
      using assms by (force simp: interleaving_def)+
    with assms ok show ?thesis by (auto simp: interleaving_def upload_sends_def)
  qed
  then show "collect n (map snd tagged) = Returns None"
    using interleaving_length [OF assms] by (auto simp: collect_None_iff dest: in_set_takeD)
qed

text \<open>
  Senders that each get their turn twice deliver all their messages.
\<close>

lemma arrivals_senders: "\<forall>m \<in> set (arrivals senders sends). sends (fst m) \<noteq> []"
proof (induction senders arbitrary: sends)
  case (Cons k senders)
  have "\<forall>m \<in> set (arrivals senders (sends(k := ms))). sends (fst m) \<noteq> []" if "sends k \<noteq> []" for ms
    using Cons.IH [of "sends(k := ms)"] that by (metis fun_upd_other)
  with Cons.IH [of sends] show ?case
    by (cases "sends k") simp_all
qed simp

lemma arrivals_of:
  "map snd (filter (\<lambda>m. fst m = k) (arrivals senders sends)) = take (count_list senders k) (sends k)"
proof (induction senders arbitrary: sends)
  case (Cons j senders)
  show ?case
    using Cons.IH [of sends] Cons.IH [of "sends(j := tl (sends j))"]
    by (cases "sends j") (auto simp: fun_upd_def)
qed simp

lemma arrivals_interleaving:
  assumes "\<forall>k < n. 2 \<le> count_list senders k"
  shows "interleaving errs n (arrivals senders (\<lambda>k. if k < n then upload_sends (errs k) else []))"
proof -
  have "length (upload_sends (errs k)) \<le> 2" for k
    by (simp add: upload_sends_def split: option.split)
  then have "take (count_list senders k) (upload_sends (errs k)) = upload_sends (errs k)" if "k < n" for k
    using assms that by (meson le_trans take_all)
  then show ?thesis
    using arrivals_senders [of senders "\<lambda>k. if k < n then upload_sends (errs k) else []"]
    by (auto simp: interleaving_def arrivals_of split: if_splits)
qed

text \<open>Uploads of readable files to a coordinator on which no system call fails.\<close>

lemma start_uploads_ok:
  assumes "\<forall>i \<in> set is. \<exists>path. map_of files i = Some path \<and> stat (full path) = Regular"
  shows "start_uploads files full stat is = (None, map (\<lambda>i. (i, full (the (map_of files i)))) is)"
  using assms by (induction "is") auto

lemma run_uploads_ok:
  fixes content :: "ID \<Rightarrow> bytes"
  assumes "\<forall>k \<in> set order. put_ready h (fst (ups ! k)) \<and>
    (\<exists>ps. local (snd (ups ! k)) = Inr (ps, None) \<and> concat ps = content (fst (ups ! k)))"
  shows "\<exists>h1. run_uploads local (perfect (file_route no_faults None)) ups order (\<lambda>_. None) h =
      Returns (\<lambda>_. None, h1) \<and>
    (\<forall>i. fc_content (h_cache h1) i =
      (if i \<in> (\<lambda>k. fst (ups ! k)) ` set order then Some (content i) else fc_content (h_cache h) i))"
  using assms
proof (induction order arbitrary: h)
  case (Cons k order)
  let ?i = "fst (ups ! k)"
  from Cons.prems obtain ps where ps: "local (snd (ups ! k)) = Inr (ps, None)" "concat ps = content ?i"
    and ready: "put_ready h ?i" by auto
  obtain h1 where up: "Upload local None (perfect (file_route no_faults None)) ?i (snd (ups ! k)) h = Returns (None, h1)"
    and h1: "fc_content (h_cache h1) ?i = Some (content ?i)"
    "\<And>j. j \<noteq> ?i \<Longrightarrow> fc_content (h_cache h1) j = fc_content (h_cache h) j"
    "\<And>j. put_ready h j \<Longrightarrow> put_ready h1 j"
    using Upload_ok [of h ?i local "snd (ups ! k)" ps, OF ready ps(1)] ps(2) by metis
  obtain h2 where "run_uploads local (perfect (file_route no_faults None)) ups order (\<lambda>_. None) h1 = Returns (\<lambda>_. None, h2)"
    "\<forall>i. fc_content (h_cache h2) i =
      (if i \<in> (\<lambda>k. fst (ups ! k)) ` set order then Some (content i) else fc_content (h_cache h1) i)"
    using Cons.IH [of h1] Cons.prems h1(3) by auto
  with up h1(1,2) show ?case
    by (intro exI [of _ h2]) (auto simp: fun_upd_idem)
qed simp

section \<open>The stream as the listener sees it\<close>

text \<open>A listener that never fails and writes down its calls.\<close>

definition recorder :: "lsn_call list listener" where
  "recorder c l = (None, l @ [c])"

lemma call_recorder: "call_listener recorder cs l = (None, l @ cs)"
  by (induction cs arbitrary: l) (simp_all add: recorder_def)

definition update_calls :: "StatusUpdate \<Rightarrow> lsn_call list" where
  "update_calls u = (case JobFinished u of None \<Rightarrow> [] | Some res \<Rightarrow> job_calls res)"

lemma listen_loop_records:
  assumes "\<forall>u \<in> set us. JobFinished u \<noteq> None"
  shows "listen_loop (Suc (length us)) [] recorder \<lparr>sr_rest = map MsgUpdate us, sr_end = None\<rparr> l =
    Some (None, l @ concat (map update_calls us))"
  using assms
proof (induction us arbitrary: l)
  case Nil
  then show ?case by (simp add: listenBuild_def Next_def)
next
  case (Cons u us)
  then obtain res where res: "JobFinished u = Some res" by auto
  have "listenBuild False recorder \<lparr>sr_rest = map MsgUpdate (u # us), sr_end = None\<rparr> l =
      (ListenNext, \<lparr>sr_rest = map MsgUpdate us, sr_end = None\<rparr>, l @ update_calls u)"
    by (simp add: listenBuild_def Next_def res call_recorder update_calls_def)
  with Cons show ?case by simp
qed

text \<open>The fuel of the loop is always enough.\<close>

lemma listen_all_returns: "listen_all ctx lsn r l \<noteq> None"
proof -
  have "listen_loop n ctx lsn r l \<noteq> None" if "length (sr_rest r) < n" for n
    using that
  proof (induction n arbitrary: ctx r l)
    case (Suc n)
    obtain res r1 l1 where b: "listenBuild (ctx \<noteq> [] \<and> hd ctx) lsn r l = (res, r1, l1)"
      by (metis prod_cases3)
    have "length (sr_rest r1) < n" if "res = ListenNext"
      using b that Suc.prems
      by (auto simp: listenBuild_def Next_def split: if_splits list.splits option.splits prod.splits
          message.splits)
    with Suc.IH b show ?case by (cases res) simp_all
  qed simp
  then show ?thesis unfolding listen_all_def by blast
qed

section \<open>Properties\<close>

text \<open>
  The client has every missing file on the coordinator before it signals: when the files are
  regular and can be read, then in every order of the uploads and of their messages \<open>Build\<close>
  reaches the signal with exactly the bytes of each missing file stored under its identifier and
  the other files as they were; it then returns what the signal and the stream give.
\<close>

theorem Build_uploads_then_signals:
  assumes start: "client_StartBuild None TS \<lparr>req_Graph = graph\<rparr> s = (Inr (started, reader), h)"
    and files: "\<forall>i \<in> set (MissingFiles started). put_ready h i \<and>
      (\<exists>path ps. map_of (Graph_SourceFiles graph) i = Some path \<and> stat (full path) = Regular \<and>
        local (full path) = Inr (ps, None) \<and> concat ps = content i)"
    and order: "set order = {..<length (MissingFiles started)}"
    and senders: "\<forall>k < length (MissingFiles started). 2 \<le> count_list senders k"
  shows "\<exists>h1 res l1. (\<forall>i. fc_content (h_cache h1) i =
      (if i \<in> set (MissingFiles started) then Some (content i) else fc_content (h_cache h) i)) \<and>
    listen_all ctx lsn reader l = Some (res, l1) \<and>
    Build TS (perfect (file_route no_faults None)) TG full stat local order senders ctx graph lsn l s =
      (case client_SignalBuild None TG (started_ID started) \<lparr>UploadDone = True\<rparr> h1 of
         (Some e, h2) \<Rightarrow> Returns (Some (SignalFailed e), l, h2)
       | (None, h2) \<Rightarrow> Returns (res, l1, h2))"
proof -
  let ?missing = "MissingFiles started"
  let ?ups = "map (\<lambda>i. (i, full (the (map_of (Graph_SourceFiles graph) i)))) ?missing"
  have ups: "start_uploads (Graph_SourceFiles graph) full stat ?missing = (None, ?ups)"
    using files by (intro start_uploads_ok) blast
  have "\<forall>k \<in> set order. put_ready h (fst (?ups ! k)) \<and>
      (\<exists>ps. local (snd (?ups ! k)) = Inr (ps, None) \<and> concat ps = content (fst (?ups ! k)))"
    using files order by (force dest: nth_mem)
  from run_uploads_ok [OF this] obtain h1 where
    run: "run_uploads local (perfect (file_route no_faults None)) ?ups order (\<lambda>_. None) h = Returns (\<lambda>_. None, h1)"
    and h1: "\<forall>i. fc_content (h_cache h1) i =
      (if i \<in> (\<lambda>k. fst (?ups ! k)) ` set order then Some (content i) else fc_content (h_cache h) i)"
    by blast
  have "(\<lambda>k. fst (?ups ! k)) ` set order = set ?missing"
    using order by (force simp: in_set_conv_nth image_iff)
  moreover have "collect (length ?missing)
      (map snd (arrivals senders (\<lambda>k. if k < length ?ups then upload_sends (None :: client_error option) else []))) = Returns None"
    using collect_interleaving [OF arrivals_interleaving [OF senders, of "\<lambda>_. None :: client_error option"]]
    by simp
  moreover obtain res l1 where "listen_all ctx lsn reader l = Some (res, l1)"
    using listen_all_returns [of ctx lsn reader l] by auto
  ultimately have "Build TS (perfect (file_route no_faults None)) TG full stat local order senders ctx graph lsn l s =
      (case client_SignalBuild None TG (started_ID started) \<lparr>UploadDone = True\<rparr> h1 of
         (Some e, h2) \<Rightarrow> Returns (Some (SignalFailed e), l, h2)
       | (None, h2) \<Rightarrow> Returns (res, l1, h2))"
    "\<forall>i. fc_content (h_cache h1) i =
      (if i \<in> set ?missing then Some (content i) else fc_content (h_cache h) i)"
    using start ups run h1 by (simp_all add: Build_def split: prod.split option.split)
  with \<open>listen_all ctx lsn reader l = _\<close> show ?thesis
    by blast
qed

text \<open>A coordinator that misses one file and whose stream says that the build has ended.\<close>

definition demo_stream :: "(string + stream_response)" where
  "demo_stream = Inr \<lparr>st_status = 200, st_error = ([], None),
     st_stream = \<lparr>sr_rest = [MsgStarted \<lparr>started_ID = ID_lit [9], MissingFiles = [idA]\<rparr>,
       MsgUpdate (no_update\<lparr>BuildFinished := True\<rparr>)], sr_end = None\<rparr>\<rparr>"

theorem Build_uploads_then_signals_witness:
  "\<exists>h1. fc_content (h_cache h1) idA = Some [7, 8] \<and>
    Build (\<lambda>g s. (demo_stream, s)) (perfect (file_route no_faults None)) (\<lambda>r s. (Inr (200, ([], None)), s))
      (\<lambda>p. ''src/'' @ p) (\<lambda>p. Regular) (\<lambda>p. Inr ([[7], [8]], None)) [0] [0, 0] []
      \<lparr>Graph_SourceFiles = [(idA, ''a.c'')], Graph_Jobs = []\<rparr> recorder [] fresh_handler =
    Returns (None, [], h1)"
proof -
  let ?started = "\<lparr>started_ID = ID_lit [9], MissingFiles = [idA]\<rparr>"
  let ?reader = "\<lparr>sr_rest = [MsgUpdate (no_update\<lparr>BuildFinished := True\<rparr>)], sr_end = None\<rparr>"
  let ?graph = "\<lparr>Graph_SourceFiles = [(idA, ''a.c'')], Graph_Jobs = []\<rparr>"
  have start: "client_StartBuild None (\<lambda>g s. (demo_stream, s)) \<lparr>req_Graph = ?graph\<rparr> fresh_handler =
      (Inr (?started, ?reader), fresh_handler)"
    by (simp add: client_StartBuild_def doRequest_def demo_stream_def)
  have heard: "listen_all [] recorder ?reader [] = Some (None, [])"
    by (simp add: listen_all_def listenBuild_def Next_def no_update_def)
  show ?thesis
    using Build_uploads_then_signals [OF start, of "\<lambda>p. Regular" "\<lambda>p. ''src/'' @ p"
        "\<lambda>p. Inr ([[7], [8]], None)" "\<lambda>_. [7, 8]" "[0]" "[0, 0]" "[]" recorder "[]"
        "\<lambda>r s. (Inr (200, ([], None)), s)"] heard
    by (simp add: client_SignalBuild_def doRequest_def lessThan_Suc) metis
qed

text \<open>
  The client signals that its uploads are done exactly when all of them succeeded, in
  whichever order the messages of the upload goroutines arrive - although a failed upload sends a
  nil after its error.
\<close>

theorem collect_all_uploads:
  assumes "interleaving errs n tagged"
  shows "collect n (map snd tagged) = Returns None \<longleftrightarrow> (\<forall>i < n. errs i = None)"
  using assms by (rule collect_interleaving)

theorem collect_all_uploads_witness:
  "collect 2 [None, Some ''e''] \<noteq> Returns None"
proof -
  let ?errs = "\<lambda>i::nat. if i = 0 then Some ''e'' else None"
  have "interleaving ?errs 2 [(1, None), (0, Some ''e''), (0, None)]"
    by (auto simp: interleaving_def upload_sends_def less_Suc_eq numeral_2_eq_2)
  from collect_all_uploads [OF this] show ?thesis by (simp add: numeral_2_eq_2)
qed

text \<open>
  When every update of the stream carries a job, the client calls the listener for each of
  them in the order of the stream, and \<open>Build\<close> reports success at the end of the stream - also
  when updates said that the build failed.
\<close>

theorem client_ignores_build_failure:
  assumes "\<forall>u \<in> set us. JobFinished u \<noteq> None"
  shows "listen_all [] recorder \<lparr>sr_rest = map MsgUpdate us, sr_end = None\<rparr> [] =
    Some (None, concat (map update_calls us))"
  using listen_loop_records [OF assms, of "[]"] by (simp add: listen_all_def)

theorem client_ignores_build_failure_witness:
  "listen_all [] recorder \<lparr>sr_rest = [MsgUpdate \<lparr>JobFinished = Some \<lparr>res_ID = ID_zero, Stdout = [], Stderr = [],
      ExitCode = - 1, Error = Some ''exit status 1''\<rparr>, BuildFailed = Some ''exit status 1'', BuildFinished = True\<rparr>], sr_end = None\<rparr> [] =
    Some (None, [OnJobFailed ID_zero (- 1) ''exit status 1'', OnJobStderr ID_zero [], OnJobStdout ID_zero []])"
  using client_ignores_build_failure [of "[\<lparr>JobFinished = Some \<lparr>res_ID = ID_zero, Stdout = [], Stderr = [],
      ExitCode = - 1, Error = Some ''exit status 1''\<rparr>, BuildFailed = Some ''exit status 1'', BuildFinished = True\<rparr>]"]
  by (simp add: update_calls_def job_calls_def)

end
