(* ===== verification/Refinement.thy ===== *)
theory Refinement
  imports Machines
begin

text \<open>
  Refinement of an abstract specification by a machine. A specification is a relation between
  states, labelled with the events a user of the component can observe; a step of the machine
  does one event of the specification or none. The locale states this once; what it gives is
  that the events of every run of the machine are a trace of the specification.
\<close>

inductive trace :: "('t \<Rightarrow> 'e \<Rightarrow> 't \<Rightarrow> bool) \<Rightarrow> 't \<Rightarrow> 'e list \<Rightarrow> 't \<Rightarrow> bool" for spec where
  trace_Nil: "trace spec x [] x"
| trace_Cons: "spec x e y \<Longrightarrow> trace spec y es z \<Longrightarrow> trace spec x (e # es) z"

inductive_cases trace_NilE [elim!]: "trace spec x [] z"
inductive_cases trace_ConsE [elim!]: "trace spec x (e # es) z"

declare trace_Nil [simp, intro] trace_Cons [intro]

lemma trace_append: "trace spec x es y \<Longrightarrow> trace spec y fs z \<Longrightarrow> trace spec x (es @ fs) z"
  by (induction rule: trace.induct) auto

lemma trace_single: "spec x e y \<Longrightarrow> trace spec x [e] y"
  by auto

lemma trace_invariant:
  assumes "trace spec x es z" "J x" "\<And>x e y. spec x e y \<Longrightarrow> J x \<Longrightarrow> J y"
  shows "J z"
  using assms by (induction rule: trace.induct) auto

text \<open>A fact about the events so far and the state they lead to.\<close>

lemma trace_history:
  assumes "trace spec x es z" "H fs x" "\<And>fs x e y. spec x e y \<Longrightarrow> H fs x \<Longrightarrow> H (fs @ [e]) y"
  shows "H (fs @ es) z"
  using assms(1,2)
proof (induction arbitrary: fs rule: trace.induct)
  case (trace_Cons x e y es z)
  from trace_Cons.IH [of "fs @ [e]"] assms(3) [OF trace_Cons.hyps(1) trace_Cons.prems] show ?case
    by simp
qed simp

text \<open>The observable events of a run.\<close>

fun events :: "('s \<Rightarrow> 'a \<Rightarrow> 's option) \<Rightarrow> ('s \<Rightarrow> 'a \<Rightarrow> 'e option) \<Rightarrow> 's \<Rightarrow> 'a list \<Rightarrow> 'e list" where
  "events step ev s [] = []"
| "events step ev s (a # as) =
     (case step s a of
        None \<Rightarrow> []
      | Some t \<Rightarrow> (case ev s a of None \<Rightarrow> [] | Some e \<Rightarrow> [e]) @ events step ev t as)"

text \<open>What only an event of a kind brings about has been brought about by one of them.\<close>

lemma events_cause:
  assumes "\<And>s a t. a \<in> A \<Longrightarrow> step s a = Some t \<Longrightarrow> \<not> P s \<Longrightarrow> P t \<Longrightarrow> \<exists>e. ev s a = Some e \<and> E e"
  shows "run step s as = Some t \<Longrightarrow> set as \<subseteq> A \<Longrightarrow> \<not> P s \<Longrightarrow> P t \<Longrightarrow> \<exists>e \<in> set (events step ev s as). E e"
proof (induction as arbitrary: s)
  case (Cons a as)
  then obtain u where u: "step s a = Some u" "run step u as = Some t"
    by (auto split: option.splits)
  show ?case
  proof (cases "P u")
    case True
    with assms [OF _ u(1) Cons.prems(3)] Cons.prems(2) u(1) show ?thesis by auto
  next
    case False
    with Cons.IH [OF u(2)] Cons.prems(2,4) u(1) show ?thesis by auto
  qed
qed simp

locale refinement = invariant_machine step start inv
  for step :: "'s \<Rightarrow> 'a \<Rightarrow> 's option" and start :: "'s \<Rightarrow> bool" and inv :: "'s \<Rightarrow> bool" +
  fixes spec :: "'t \<Rightarrow> 'e \<Rightarrow> 't \<Rightarrow> bool"
    and ev :: "'s \<Rightarrow> 'a \<Rightarrow> 'e option"
    and abstract :: "'s \<Rightarrow> 't"
  assumes simulated: "inv s \<Longrightarrow> step s a = Some t \<Longrightarrow>
      (case ev s a of None \<Rightarrow> abstract t = abstract s | Some e \<Rightarrow> spec (abstract s) e (abstract t))"
begin

lemma inv_trace: "inv s \<Longrightarrow> run step s as = Some t \<Longrightarrow> trace spec (abstract s) (events step ev s as) (abstract t)"
proof (induction as arbitrary: s)
  case (Cons a as)
  then obtain u where u: "step s a = Some u" "run step u as = Some t"
    by (auto split: option.splits)
  with Cons have "trace spec (abstract u) (events step ev u as) (abstract t)"
    by (blast intro: step_inv)
  with simulated [OF Cons.prems(1) u(1)] u(1) show ?case
    by (cases "ev s a") auto
qed simp

lemma start_trace: "start s \<Longrightarrow> run step s as = Some t \<Longrightarrow> trace spec (abstract s) (events step ev s as) (abstract t)"
  using inv_trace start_inv by blast

end

end
