(* ===== verification/Key_Lock_Spec.thy ===== *)
theory Key_Lock_Spec
  imports Key_Lock Refinement
begin

text \<open>
  What a \<open>KeyLocker\<close> promises its users: locks that are taken and given back in one step each.
  The state of the specification is who owns which key; the mutex, the map of channels and the
  moments inside \<open>Lock\<close> and \<open>Unlock\<close> are not visible.
\<close>

datatype 'k lock_event = Acquired nat 'k | Released nat 'k

inductive lock_spec :: "(nat \<times> 'k) set \<Rightarrow> 'k lock_event \<Rightarrow> (nat \<times> 'k) set \<Rightarrow> bool" where
  acquire: "\<forall>j. (j, k) \<notin> own \<Longrightarrow> lock_spec own (Acquired i k) (insert (i, k) own)"
| release: "(i, k) \<in> own \<Longrightarrow> lock_spec own (Released i k) (own - {(i, k)})"

inductive_cases acquiredE [elim]: "lock_spec own (Acquired i k) own'"
inductive_cases releasedE [elim]: "lock_spec own (Released i k) own'"

definition kl_abs :: "'k kl_sys \<Rightarrow> (nat \<times> 'k) set" where
  "kl_abs s = {(i, k). kl_owns (kl_pcs s i) k}"

text \<open>A goroutine acquires its key when its token is in the channel, and gives it back with it.\<close>

fun kl_event :: "'k kl_sys \<Rightarrow> 'k kl_act \<Rightarrow> 'k lock_event option" where
  "kl_event s (Advance i) =
     (case kl_pcs s i of
        Sending k \<Rightarrow> Some (Acquired i k)
      | Receiving k \<Rightarrow> Some (Released i k)
      | _ \<Rightarrow> None)"
| "kl_event s _ = None"

lemma kl_abs_goto:
  "kl_abs (kl_goto s i p l) = {(j, k). if j = i then kl_owns p k else kl_owns (kl_pcs s j) k}"
  by (auto simp: kl_abs_def kl_goto_def)

lemma kl_abs_idle: "(\<And>k. kl_owns p k = kl_owns (kl_pcs s i) k) \<Longrightarrow> kl_abs (kl_goto s i p l) = kl_abs s"
  unfolding kl_abs_goto by (simp add: kl_abs_def) metis

lemma kl_owners_abs: "(j, k) \<in> kl_abs s \<longleftrightarrow> j \<in> kl_owners (kl_pcs s) k"
  by (simp add: kl_abs_def kl_owners_mem)

lemma kl_simulated:
  assumes inv: "kl_inv s" and step: "kl_step s a = Some t"
  shows "case kl_event s a of None \<Rightarrow> kl_abs t = kl_abs s | Some e \<Rightarrow> lock_spec (kl_abs s) e (kl_abs t)"
proof (cases "kl_event s a")
  case None
  have found: "kl_lock (kl_shared s) k \<noteq> None" if "kl_pcs s i = InUnlock k" for i k
    using kl_inv_owner(2) [OF inv, of i k] that by simp
  from None step have "kl_abs t = kl_abs s"
    by (cases a) (auto simp: Unlock_section_def found kl_abs_idle split: kl_pc.splits if_splits)
  with None show ?thesis by simp
next
  case (Some e)
  then obtain i k where a: "a = Advance i" and
    cases: "kl_pcs s i = Sending k \<and> e = Acquired i k \<or> kl_pcs s i = Receiving k \<and> e = Released i k"
    by (cases a) (auto split: kl_pc.splits)
  from cases have "lock_spec (kl_abs s) e (kl_abs t)"
  proof (elim disjE conjE)
    assume pc: "kl_pcs s i = Sending k" and e: "e = Acquired i k"
    from step pc have t: "kl_abs t = insert (i, k) (kl_abs s)" and free: "kl_lock (kl_shared s) k = Some 0"
      by (auto simp: a kl_goto_def kl_abs_def Lock_send_def split: option.splits if_splits)
    from kl_inv_free [OF inv free] have "\<forall>j. (j, k) \<notin> kl_abs s"
      by (simp add: kl_owners_abs)
    then show ?thesis
      unfolding t e by (rule acquire)
  next
    assume pc: "kl_pcs s i = Receiving k" and e: "e = Released i k"
    from step pc have t: "kl_abs t = kl_abs s - {(i, k)}"
      by (auto simp: a kl_goto_def kl_abs_def Unlock_receive_def split: option.splits if_splits)
    from pc have "(i, k) \<in> kl_abs s"
      by (simp add: kl_abs_def)
    then show ?thesis
      unfolding t e by (rule release)
  qed
  with Some show ?thesis by simp
qed

interpretation kls: refinement kl_step kl_start kl_inv lock_spec kl_event kl_abs
  by unfold_locales (rule kl_simulated)

text \<open>
  A trace of the specification: a key has at most one owner, and between two acquisitions of a
  key its owner has released it.
\<close>

lemma lock_spec_exclusive:
  assumes "trace lock_spec own es own'" "\<forall>k i j. (i, k) \<in> own \<longrightarrow> (j, k) \<in> own \<longrightarrow> i = j"
  shows "\<forall>k i j. (i, k) \<in> own' \<longrightarrow> (j, k) \<in> own' \<longrightarrow> i = j"
  using assms by (rule trace_invariant) (auto elim!: lock_spec.cases)

lemma kl_abs_start: "kl_start s \<Longrightarrow> kl_abs s = {}"
  by (simp add: kl_abs_def kl_start_def)

text \<open>
  C25. \<open>KeyLocker\<close> refines a table of atomic locks, one per key: in every run on a fresh locker, the
  moments at which a token is put into a channel and taken out again form a trace of the
  specification from the state in which nobody owns a key, and this trace leads to the owners the
  goroutines' program counters show. In particular every release is by the owner, and two
  acquisitions of one key have a release between them.
\<close>

theorem KeyLocker_refines_locks:
  assumes "kl_start s" "run kl_step s as = Some t"
  shows "trace lock_spec {} (events kl_step kl_event s as) (kl_abs t)"
  using kls.start_trace [OF assms] kl_abs_start [OF assms(1)] by simp

theorem KeyLocker_refines_locks_witness:
  "trace lock_spec {} [Acquired 0 7, Released 0 7, Acquired (1::nat) (7::nat)] {(1, 7)}"
proof -
  let ?as = "[CallLock 0 7, Advance 0, CallLock 1 7, Advance 0, Advance 1, CallUnlock 0, Advance 0,
    Advance 0, Advance 1]"
  have start: "kl_start kl_fresh"
    by (simp add: kl_start_def kl_fresh_def)
  have "\<exists>t. run kl_step kl_fresh ?as = Some t \<and>
      events kl_step kl_event kl_fresh ?as = [Acquired 0 7, Released 0 7, Acquired 1 7] \<and>
      kl_abs t = {(1, 7)}"
    by (simp add: kl_fresh_def NewKeyLocker_def key_lock_parts kl_goto_def Let_def kl_abs_def)
      (auto split: if_splits)
  then show ?thesis
    using KeyLocker_refines_locks [OF start] by metis
qed

end
