(* ===== verification/Artifact_Store_Spec.thy ===== *)
theory Artifact_Store_Spec
  imports Artifact_Cache Refinement
begin

text \<open>
  What the artifact cache promises its users, as a store with atomic events: who has which
  artifact open, which directories are being written, and what is published. The locks, the
  moments inside the methods and the two directory trees are not visible.
\<close>

section \<open>The specification\<close>

record store_state =
  published :: "ID \<rightharpoonup> dir"
  opened :: "ID multiset"
  drafts :: "ID \<rightharpoonup> dir"

text \<open>
  \<open>Damaged i d\<close> is a removal that failed half way and left \<open>d\<close>; \<open>Discarded i\<close> ends a creation
  that publishes nothing, because it was aborted or because its rename failed.
\<close>

datatype store_event =
    Opened ID dir
  | Closed ID
  | Created ID dir
  | Wrote ID dir
  | Published ID dir
  | Discarded ID
  | Deleted ID
  | Damaged ID "dir option"

inductive store_spec :: "store_state \<Rightarrow> store_event \<Rightarrow> store_state \<Rightarrow> bool" where
  opened: "published x i = Some d \<Longrightarrow> store_spec x (Opened i d) (x\<lparr>opened := add_mset i (opened x)\<rparr>)"
| closed: "i \<in># opened x \<Longrightarrow> store_spec x (Closed i) (x\<lparr>opened := opened x - {#i#}\<rparr>)"
| created: "published x i = None \<Longrightarrow> drafts x i = None \<Longrightarrow>
    store_spec x (Created i d) (x\<lparr>drafts := (drafts x)(i \<mapsto> d)\<rparr>)"
| wrote: "drafts x i = Some d0 \<Longrightarrow> store_spec x (Wrote i d) (x\<lparr>drafts := (drafts x)(i \<mapsto> d)\<rparr>)"
| published: "drafts x i = Some d \<Longrightarrow> published x i = None \<Longrightarrow> store_spec x (Published i d)
    (x\<lparr>published := (published x)(i \<mapsto> d), drafts := (drafts x)(i := None)\<rparr>)"
| discarded: "drafts x i = Some d \<Longrightarrow>
    store_spec x (Discarded i) (x\<lparr>drafts := (drafts x)(i := None)\<rparr>)"
| deleted: "i \<notin># opened x \<Longrightarrow> drafts x i = None \<Longrightarrow>
    store_spec x (Deleted i) (x\<lparr>published := (published x)(i := None)\<rparr>)"
| damaged: "i \<notin># opened x \<Longrightarrow> drafts x i = None \<Longrightarrow> (published x i = None \<Longrightarrow> d = None) \<Longrightarrow>
    store_spec x (Damaged i d) (x\<lparr>published := (published x)(i := d)\<rparr>)"

section \<open>The cache seen as a store\<close>

fun is_reading :: "act \<Rightarrow> bool" where
  "is_reading (Reading i) = True"
| "is_reading _ = False"

fun act_id :: "act \<Rightarrow> ID" where
  "act_id (GetLocked i) = i"
| "act_id (Reading i) = i"
| "act_id (CreateLocked i) = i"
| "act_id (Writing i) = i"
| "act_id (RemoveLocked i) = i"
| "act_id (Releasing i) = i"

definition open_artifacts :: "act multiset \<Rightarrow> ID multiset" where
  "open_artifacts A = image_mset act_id (filter_mset is_reading A)"

definition store_abs :: "cache_sys \<Rightarrow> store_state" where
  "store_abs s = \<lparr>published = cacheDir (shared s), opened = open_artifacts (acts s),
     drafts = (\<lambda>i. if Writing i \<in># acts s then tmpDir (shared s) i else None)\<rparr>"

text \<open>The event of a step is read off the state before it and the results of the system calls.\<close>

fun store_ev :: "cache_sys \<Rightarrow> os_env \<times> cache_act \<Rightarrow> store_event option" where
  "store_ev s (env, StatGet i) =
     (if stat_entry env i (shared s) = None then Some (Opened i (the (cacheDir (shared s) i))) else None)"
| "store_ev s (env, EndRead i) = Some (Closed i)"
| "store_ev s (env, MkdirCreate i) =
     (case make_dir env i (shared s) of
        (None, c) \<Rightarrow> Some (Created i (the (tmpDir c i)))
      | (Some e, c) \<Rightarrow> None)"
| "store_ev s (env, WriteFiles i d) = Some (Wrote i d)"
| "store_ev s (env, CommitRename i) =
     (if fst (commit_dir env i (shared s)) = None then Some (Published i (the (tmpDir (shared s) i)))
      else Some (Discarded i))"
| "store_ev s (env, AbortRemove i) = Some (Discarded i)"
| "store_ev s (env, DeleteRemove i) =
     (case remove_dir env i (shared s) of
        (None, c) \<Rightarrow> Some (Deleted i)
      | (Some e, c) \<Rightarrow> Some (Damaged i (cacheDir c i)))"
| "store_ev s _ = None"

text \<open>
  What the invariant of the locks does not say: while an artifact is being created it is not in
  the cache, and while it is being written its temporary directory exists.
\<close>

definition draft_ok :: "cache_sys \<Rightarrow> ID \<Rightarrow> bool" where
  "draft_ok s i \<longleftrightarrow>
     (CreateLocked i \<in># acts s \<or> Writing i \<in># acts s \<longrightarrow> cacheDir (shared s) i = None) \<and>
     (Writing i \<in># acts s \<longrightarrow> tmpDir (shared s) i \<noteq> None)"

definition store_inv :: "cache_sys \<Rightarrow> bool" where
  [inv_defs]: "store_inv s \<longleftrightarrow> cache_inv s \<and> (\<forall>i. draft_ok s i)"

lemma open_artifacts_simps [simp]:
  "open_artifacts {#} = {#}"
  "open_artifacts (add_mset a A) = (if is_reading a then add_mset (act_id a) (open_artifacts A) else open_artifacts A)"
  by (simp_all add: open_artifacts_def)

lemma open_artifacts_mem: "i \<in># open_artifacts A \<longleftrightarrow> Reading i \<in># A"
  by (force simp: open_artifacts_def elim: is_reading.elims)

lemma no_writers: "writers A i = 0 \<longleftrightarrow> CreateLocked i \<notin># A \<and> Writing i \<notin># A \<and> RemoveLocked i \<notin># A \<and> Releasing i \<notin># A"
  by (simp add: writers_def not_in_iff)

text \<open>A writer is alone: nobody else writes its artifact, and nobody reads it.\<close>

lemma writer_alone:
  assumes "cache_inv s" "acts s = add_mset a A" "a \<in> {CreateLocked i, Writing i, RemoveLocked i, Releasing i}"
  shows "CreateLocked i \<notin># A" "Writing i \<notin># A" "RemoveLocked i \<notin># A" "Releasing i \<notin># A" "Reading i \<notin># A"
proof -
  have mem: "a \<in># acts s" using assms(2) by simp
  from writer_locked(3) [OF assms(1) mem assms(3)] assms(2,3) have "writers A i = 0"
    by auto
  then show "CreateLocked i \<notin># A" "Writing i \<notin># A" "RemoveLocked i \<notin># A" "Releasing i \<notin># A"
    by (simp_all add: no_writers)
  from writer_locked(2) [OF assms(1) mem assms(3)] assms(2,3) show "Reading i \<notin># A"
    by (auto simp: not_in_iff)
qed

lemma writeLock_eff:
  "writeLock env i rm c = (e, c') \<Longrightarrow>
     tmpDir c' = tmpDir c \<and> cacheDir c' = cacheDir c \<and>
     (e = None \<longrightarrow> i \<notin> writeLocked c \<and> (\<not> rm \<longrightarrow> cacheDir c i = None))"
  by (auto simp: writeLock_def Stat_def Let_def split: option.splits os_error.splits if_splits)

lemma readLock_dirs: "readLock i c = (e, c') \<Longrightarrow> tmpDir c' = tmpDir c \<and> cacheDir c' = cacheDir c"
  by (auto simp: readLock_def split: if_splits)

lemma lock_dirs [simp]:
  "tmpDir (readUnlock i c) = tmpDir c" "cacheDir (readUnlock i c) = cacheDir c"
  "tmpDir (writeUnlock i c) = tmpDir c" "cacheDir (writeUnlock i c) = cacheDir c"
  by (simp_all add: readUnlock_def writeUnlock_def Let_def)

lemma writer_dirs:
  "make_dir env i c = (e, c1) \<Longrightarrow>
     cacheDir c1 = cacheDir c \<and> (j \<noteq> i \<longrightarrow> tmpDir c1 j = tmpDir c j) \<and>
     (if e = None then tmpDir c1 i \<noteq> None else tmpDir c1 = tmpDir c)"
  "abort_dir env i c = (e, c2) \<Longrightarrow> cacheDir c2 = cacheDir c \<and> (j \<noteq> i \<longrightarrow> tmpDir c2 j = tmpDir c j)"
  "commit_dir env i c = (e, c3) \<Longrightarrow> (j \<noteq> i \<longrightarrow> tmpDir c3 j = tmpDir c j \<and> cacheDir c3 j = cacheDir c j) \<and>
     (if e = None then cacheDir c3 i = tmpDir c i else tmpDir c3 = tmpDir c \<and> cacheDir c3 = cacheDir c)"
  "remove_dir env i c = (e, c4) \<Longrightarrow> tmpDir c4 = tmpDir c \<and> (j \<noteq> i \<longrightarrow> cacheDir c4 j = cacheDir c j) \<and>
     (e = None \<longrightarrow> cacheDir c4 i = None) \<and> (cacheDir c i = None \<longrightarrow> cacheDir c4 i = None)"
  by (auto simp: make_dir_def MkdirAll_def abort_dir_def commit_dir_def Rename_def remove_dir_def
      RemoveAll_def Let_def split: option.splits if_splits)

text \<open>Every action works on one identifier; the other entries of both trees stay.\<close>

fun label_id :: "cache_act \<Rightarrow> ID" where
  "label_id (StartGet i) = i"
| "label_id (StatGet i) = i"
| "label_id (EndRead i) = i"
| "label_id (StartCreate i) = i"
| "label_id (MkdirCreate i) = i"
| "label_id (WriteFiles i d) = i"
| "label_id (CommitRename i) = i"
| "label_id (AbortRemove i) = i"
| "label_id (StartRemove i) = i"
| "label_id (DeleteRemove i) = i"
| "label_id (Release i) = i"

lemma act_id_neq [simp]: "act_id a = j \<Longrightarrow> j \<noteq> act_id b \<Longrightarrow> a \<noteq> b"
  by auto

lemma step_other:
  assumes "cache_step s (env, l) = Some t" "j \<noteq> label_id l"
  shows "tmpDir (shared t) j = tmpDir (shared s) j \<and> cacheDir (shared t) j = cacheDir (shared s) j \<and>
    (\<forall>a. act_id a = j \<longrightarrow> count (acts t) a = count (acts s) a)"
proof -
  have dirs:
    "tmpDir (snd (make_dir env i c)) j = tmpDir c j" "cacheDir (snd (make_dir env i c)) j = cacheDir c j"
    "tmpDir (snd (abort_dir env i c)) j = tmpDir c j" "cacheDir (snd (abort_dir env i c)) j = cacheDir c j"
    "tmpDir (snd (commit_dir env i c)) j = tmpDir c j" "cacheDir (snd (commit_dir env i c)) j = cacheDir c j"
    "tmpDir (snd (remove_dir env i c)) j = tmpDir c j" "cacheDir (snd (remove_dir env i c)) j = cacheDir c j"
    if "j \<noteq> i" for i c
    using that by (auto simp: make_dir_def MkdirAll_def abort_dir_def commit_dir_def Rename_def
      remove_dir_def RemoveAll_def Let_def split: option.split)
  show ?thesis
    using assms
    by (cases l)
       (auto simp: becomes_Some dirs split: prod.splits option.splits if_splits
         dest!: readLock_dirs writeLock_eff writer_dirs(1) [where j = j])
qed

lemma step_other_mem:
  assumes "cache_step s (env, l) = Some t" "act_id a \<noteq> label_id l"
  shows "a \<in># acts t \<longleftrightarrow> a \<in># acts s"
  using step_other [OF assms] by (metis not_in_iff)

lemma draft_ok_other:
  assumes "cache_step s (env, l) = Some t" "j \<noteq> label_id l" "draft_ok s j"
  shows "draft_ok t j"
  using step_other [OF assms(1,2)] step_other_mem [OF assms(1)] assms(2,3)
  by (simp add: draft_ok_def)

lemma draft_ok_own:
  assumes inv: "cache_inv s" and ok: "draft_ok s i" and step: "cache_step s (env, l) = Some t"
    and i: "i = label_id l"
  shows "draft_ok t i"
proof (cases l)
  case (StartCreate j)
  with assms writer_locked(1) [OF inv, of "Writing i" i] show ?thesis
    by (auto simp: draft_ok_def split: prod.splits if_splits dest!: writeLock_eff)
next
  case (MkdirCreate j)
  with step obtain A where A: "acts s = add_mset (CreateLocked j) A"
    by (auto simp: becomes_Some split: prod.splits option.splits)
  from writer_alone [OF inv A, of j] MkdirCreate i step ok A show ?thesis
    by (auto simp: draft_ok_def becomes_Some split: prod.splits option.splits if_splits
        dest!: writer_dirs(1) [where j = i])
next
  case (WriteFiles j d)
  with assms show ?thesis
    by (auto simp: draft_ok_def becomes_Some)
next
  case (CommitRename j)
  with step obtain A where A: "acts s = add_mset (Writing j) A" and t: "acts t = add_mset (Releasing j) A"
    by (auto simp: becomes_Some)
  with writer_alone [OF inv A, of j] CommitRename i show ?thesis
    by (simp add: draft_ok_def)
next
  case (AbortRemove j)
  with step obtain A where A: "acts s = add_mset (Writing j) A" and t: "acts t = add_mset (Releasing j) A"
    by (auto simp: becomes_Some)
  with writer_alone [OF inv A, of j] AbortRemove i show ?thesis
    by (simp add: draft_ok_def)
next
  case (DeleteRemove j)
  with step obtain A where A: "acts s = add_mset (RemoveLocked j) A" and t: "acts t = add_mset (Releasing j) A"
    by (auto simp: becomes_Some)
  with writer_alone [OF inv A, of j] DeleteRemove i show ?thesis
    by (simp add: draft_ok_def)
qed (use assms in \<open>auto simp: draft_ok_def becomes_Some split: prod.splits option.splits if_splits
       dest!: readLock_dirs writeLock_eff\<close>)

lemma store_inv_step:
  assumes "store_inv s" "cache_step s a = Some t"
  shows "store_inv t"
proof -
  obtain env l where a: "a = (env, l)" by fastforce
  have "draft_ok t j" for j
    using assms draft_ok_other [of s env l t j] draft_ok_own [of s j env l t]
    by (cases "j = label_id l") (auto simp: store_inv_def a)
  moreover have "cache_inv t"
    using assms(1) cm.step_inv [OF _ assms(2)] by (simp add: store_inv_def)
  ultimately show ?thesis by (simp add: store_inv_def)
qed

lemma store_inv_start: "cache_start s \<Longrightarrow> store_inv s"
  using cache_start_inv by (auto simp: store_inv_def draft_ok_def cache_start_def)

interpretation st: invariant_machine cache_step cache_start store_inv
  by unfold_locales (fact store_inv_start store_inv_step)+

section \<open>Simulation\<close>

definition draft_of :: "cache_sys \<Rightarrow> ID \<Rightarrow> dir option" where
  "draft_of s i = (if Writing i \<in># acts s then tmpDir (shared s) i else None)"

lemma store_abs_simps [simp]:
  "published (store_abs s) = cacheDir (shared s)" "opened (store_abs s) = open_artifacts (acts s)"
  "drafts (store_abs s) = draft_of s"
  by (simp_all add: store_abs_def draft_of_def fun_eq_iff)

text \<open>The entries of the other artifacts do not move, so one entry of each map says it all.\<close>

lemma store_abs_step:
  assumes step: "cache_step s (env, l) = Some t" and i: "i = label_id l"
  shows "store_abs t = \<lparr>published = (cacheDir (shared s))(i := cacheDir (shared t) i),
    opened = open_artifacts (acts t), drafts = (draft_of s)(i := draft_of t i)\<rparr>"
proof -
  have other: "cacheDir (shared t) j = cacheDir (shared s) j" "draft_of t j = draft_of s j" if "j \<noteq> i" for j
    using step_other [OF step that [unfolded i]] step_other_mem [OF step] that [unfolded i]
    by (simp_all add: draft_of_def)
  have "cacheDir (shared t) = (cacheDir (shared s))(i := cacheDir (shared t) i)"
    "draft_of t = (draft_of s)(i := draft_of t i)"
    using other by (auto simp: fun_eq_iff)
  then show ?thesis
    by (intro store_state.equality) simp_all
qed

text \<open>A step that leaves the entry of its artifact alone is not visible.\<close>

lemma store_abs_quiet:
  assumes "cache_step s (env, l) = Some t"
    and "cacheDir (shared t) (label_id l) = cacheDir (shared s) (label_id l)"
    and "open_artifacts (acts t) = open_artifacts (acts s)"
    and "draft_of t (label_id l) = draft_of s (label_id l)"
  shows "store_abs t = store_abs s"
  using store_abs_step [OF assms(1) refl] assms(2-) by simp

lemma sim_StatGet:
  assumes step: "cache_step s (env, StatGet i) = Some t" and stat: "stat_entry env i (shared s) = None"
  shows "store_spec (store_abs s) (Opened i (the (cacheDir (shared s) i))) (store_abs t)"
proof -
  from stat obtain d where d: "cacheDir (shared s) i = Some d"
    by (auto simp: stat_entry_def Stat_def split: option.splits if_splits)
  from stat step have "store_abs t = (store_abs s)\<lparr>opened := add_mset i (opened (store_abs s))\<rparr>"
    by (auto simp: becomes_Some store_abs_def)
  with d store_spec.opened [of "store_abs s" i d] show ?thesis
    by simp
qed

lemma sim_EndRead:
  assumes step: "cache_step s (env, EndRead i) = Some t"
  shows "store_spec (store_abs s) (Closed i) (store_abs t)"
proof -
  from step have "store_abs t = (store_abs s)\<lparr>opened := opened (store_abs s) - {#i#}\<rparr>"
    "i \<in># opened (store_abs s)"
    by (auto simp: becomes_Some store_abs_def)
  with store_spec.closed [of i "store_abs s"] show ?thesis
    by simp
qed

lemma sim_MkdirCreate:
  assumes inv: "store_inv s" and step: "cache_step s (env, MkdirCreate i) = Some t"
    and c: "make_dir env i (shared s) = (None, c)"
  shows "store_spec (store_abs s) (Created i (the (tmpDir c i))) (store_abs t)"
proof -
  from inv have cinv: "cache_inv s" and ok: "draft_ok s i"
    by (simp_all add: store_inv_def)
  from step c obtain A where A: "acts s = add_mset (CreateLocked i) A"
    and t: "t = \<lparr>shared = c, acts = add_mset (Writing i) A\<rparr>"
    by (auto simp: becomes_Some)
  from writer_alone [OF cinv A, of i] ok A
  have free: "draft_of s i = None" "cacheDir (shared s) i = None"
    by (auto simp: draft_of_def draft_ok_def)
  from writer_dirs(1) [OF c] obtain d where d: "tmpDir c i = Some d" and cd: "cacheDir c = cacheDir (shared s)"
    by auto
  have "store_abs t = (store_abs s)\<lparr>drafts := (drafts (store_abs s))(i \<mapsto> d)\<rparr>"
    using store_abs_step [OF step refl] by (simp add: t A draft_of_def d cd)
  with free d store_spec.created [of "store_abs s" i d] show ?thesis
    by simp
qed

lemma writing_draft:
  assumes "store_inv s" "acts s = add_mset (Writing i) A"
  obtains d where "tmpDir (shared s) i = Some d" "drafts (store_abs s) i = Some d"
    "published (store_abs s) i = None" "Writing i \<notin># A"
proof -
  from assms have "cache_inv s" "draft_ok s i" by (simp_all add: store_inv_def)
  with assms(2) that writer_alone(2) [of s "Writing i" A i] show thesis
    by (auto simp: draft_ok_def draft_of_def)
qed

lemma sim_WriteFiles:
  assumes inv: "store_inv s" and step: "cache_step s (env, WriteFiles i d) = Some t"
  shows "store_spec (store_abs s) (Wrote i d) (store_abs t)"
proof -
  from step obtain A where A: "acts s = add_mset (Writing i) A"
    and t: "t = \<lparr>shared = shared s\<lparr>tmpDir := (tmpDir (shared s))(i \<mapsto> d)\<rparr>, acts = add_mset (Writing i) A\<rparr>"
    by (auto simp: becomes_Some)
  from inv A obtain d0 where d0: "drafts (store_abs s) i = Some d0"
    by (rule writing_draft)
  have "store_abs t = (store_abs s)\<lparr>drafts := (drafts (store_abs s))(i \<mapsto> d)\<rparr>"
    using store_abs_step [OF step refl] by (simp add: t A draft_of_def)
  with store_spec.wrote [OF d0, of d] show ?thesis by simp
qed

text \<open>A rename fails only when the call fails: the target cannot be there.\<close>

lemma sim_CommitRename:
  assumes inv: "store_inv s" and step: "cache_step s (env, CommitRename i) = Some t"
  shows "store_spec (store_abs s)
    (if fst (commit_dir env i (shared s)) = None then Published i (the (tmpDir (shared s) i)) else Discarded i)
    (store_abs t)"
proof -
  obtain e c where c: "commit_dir env i (shared s) = (e, c)" by fastforce
  from step c obtain A where A: "acts s = add_mset (Writing i) A"
    and t: "t = \<lparr>shared = c, acts = add_mset (Releasing i) A\<rparr>"
    by (auto simp: becomes_Some)
  from inv A obtain d where d: "tmpDir (shared s) i = Some d" "drafts (store_abs s) i = Some d"
    "published (store_abs s) i = None" "Writing i \<notin># A" by (rule writing_draft)
  note abs = store_abs_step [OF step refl] and dirs = writer_dirs(3) [OF c]
  show ?thesis
  proof (cases e)
    case None
    with abs dirs d have "store_abs t = (store_abs s)
        \<lparr>published := (published (store_abs s))(i \<mapsto> d), drafts := (drafts (store_abs s))(i := None)\<rparr>"
      by (simp add: t A draft_of_def)
    with store_spec.published [OF d(2,3)] d(1) None c show ?thesis by simp
  next
    case (Some e')
    with abs dirs d have "store_abs t = (store_abs s)\<lparr>drafts := (drafts (store_abs s))(i := None)\<rparr>"
      by (simp add: t A draft_of_def)
    with store_spec.discarded [OF d(2)] Some c show ?thesis by simp
  qed
qed

lemma sim_AbortRemove:
  assumes inv: "store_inv s" and step: "cache_step s (env, AbortRemove i) = Some t"
  shows "store_spec (store_abs s) (Discarded i) (store_abs t)"
proof -
  obtain e c where c: "abort_dir env i (shared s) = (e, c)" by fastforce
  from step c obtain A where A: "acts s = add_mset (Writing i) A"
    and t: "t = \<lparr>shared = c, acts = add_mset (Releasing i) A\<rparr>"
    by (auto simp: becomes_Some)
  from inv A obtain d where d: "drafts (store_abs s) i = Some d" "Writing i \<notin># A"
    by (rule writing_draft)
  have "store_abs t = (store_abs s)\<lparr>drafts := (drafts (store_abs s))(i := None)\<rparr>"
    using store_abs_step [OF step refl] writer_dirs(2) [OF c] d by (simp add: t A draft_of_def)
  with store_spec.discarded [OF d(1)] show ?thesis by simp
qed

lemma sim_DeleteRemove:
  assumes inv: "store_inv s" and step: "cache_step s (env, DeleteRemove i) = Some t"
    and c: "remove_dir env i (shared s) = (e, c)"
  shows "store_spec (store_abs s) (if e = None then Deleted i else Damaged i (cacheDir c i)) (store_abs t)"
proof -
  from step c obtain A where A: "acts s = add_mset (RemoveLocked i) A"
    and t: "t = \<lparr>shared = c, acts = add_mset (Releasing i) A\<rparr>"
    by (auto simp: becomes_Some)
  from inv have cinv: "cache_inv s" by (simp add: store_inv_def)
  from writer_alone [OF cinv A, of i] have free: "i \<notin># opened (store_abs s)" "drafts (store_abs s) i = None"
    and notA: "Writing i \<notin># A"
    by (simp_all add: open_artifacts_mem A draft_of_def)
  note dirs = writer_dirs(4) [OF c]
  have eq: "store_abs t = (store_abs s)\<lparr>published := (published (store_abs s))(i := cacheDir c i)\<rparr>"
    using store_abs_step [OF step refl] dirs notA by (simp add: t A draft_of_def fun_upd_idem)
  show ?thesis
  proof (cases e)
    case None
    with eq dirs store_spec.deleted [OF free] show ?thesis by simp
  next
    case (Some e')
    with eq dirs store_spec.damaged [OF free, of "cacheDir c i"] show ?thesis by simp
  qed
qed

lemma store_quiet_step:
  assumes inv: "store_inv s" and step: "cache_step s a = Some t" and none: "store_ev s a = None"
  shows "store_abs t = store_abs s"
proof -
  obtain env l where a: "a = (env, l)" by fastforce
  note step = step [unfolded a]
  from inv have cinv: "cache_inv s" by (simp add: store_inv_def)
  show ?thesis
  proof (cases l)
    case (MkdirCreate i)
    with none step obtain A c e where A: "acts s = add_mset (CreateLocked i) A"
      and t: "t = \<lparr>shared = c, acts = add_mset (Releasing i) A\<rparr>" and c: "make_dir env i (shared s) = (Some e, c)"
      by (auto simp: a becomes_Some split: prod.splits option.splits)
    from writer_dirs(1) [OF c, of i] show ?thesis
      by (simp add: store_abs_def A t cong: if_cong)
  qed (use step none in \<open>auto simp: a store_abs_def becomes_Some cong: if_cong
         dest!: readLock_dirs writeLock_eff split: prod.splits option.splits if_splits\<close>)
qed

lemma store_simulated:
  assumes inv: "store_inv s" and step: "cache_step s a = Some t"
  shows "case store_ev s a of None \<Rightarrow> store_abs t = store_abs s
    | Some e \<Rightarrow> store_spec (store_abs s) e (store_abs t)"
proof (cases "store_ev s a")
  case None
  with store_quiet_step [OF assms] show ?thesis by simp
next
  case (Some ev)
  obtain env l where a: "a = (env, l)" by fastforce
  note step = step [unfolded a] and ev = Some [unfolded a]
  have "store_spec (store_abs s) ev (store_abs t)"
  proof (cases l)
    case (StatGet i)
    with ev sim_StatGet [of s env i t] step show ?thesis
      by (auto simp del: cache_step.simps split: if_splits)
  next
    case (EndRead i)
    with ev sim_EndRead [of s env i t] step show ?thesis
      by (auto simp del: cache_step.simps)
  next
    case (MkdirCreate i)
    with ev sim_MkdirCreate [OF inv] step show ?thesis
      by (auto simp del: cache_step.simps split: prod.splits option.splits)
  next
    case (WriteFiles i d)
    with ev sim_WriteFiles [OF inv] step show ?thesis
      by (fastforce simp del: cache_step.simps)
  next
    case (CommitRename i)
    with ev sim_CommitRename [OF inv] step show ?thesis
      by (fastforce simp del: cache_step.simps split: if_splits)
  next
    case (AbortRemove i)
    with ev sim_AbortRemove [OF inv] step show ?thesis
      by (fastforce simp del: cache_step.simps)
  next
    case (DeleteRemove i)
    with ev sim_DeleteRemove [OF inv] step show ?thesis
      by (fastforce simp del: cache_step.simps split: prod.splits option.splits)
  qed (use ev in simp_all)
  with Some show ?thesis by simp
qed

interpretation str: refinement cache_step cache_start store_inv store_spec store_ev store_abs
  by unfold_locales (rule store_simulated)

section \<open>Properties\<close>

text \<open>In a trace of the specification an open artifact is published, whoever else does what.\<close>

lemma store_trace_opened:
  assumes "trace store_spec x es y" "\<forall>i \<in># opened x. published x i \<noteq> None"
  shows "\<forall>i \<in># opened y. published y i \<noteq> None"
  using assms
  by (rule trace_invariant) (auto elim!: store_spec.cases dest!: in_diffD)

text \<open>
  C18. The artifact cache refines a store with atomic events: for every interleaving of calls on a
  new cache, with any failing system calls, the successful \<open>Stat\<close> of \<open>Get\<close>, its \<open>unlock\<close>, the
  \<open>MkdirAll\<close> of \<open>Create\<close>, the writes, and the system calls of \<open>commit\<close>, \<open>abort\<close> and
  \<open>Remove\<close> form a trace of the specification that starts with the artifacts found on disk and
  ends with those the cache holds. So only unpublished identifiers are created and committed, a
  commit publishes what was written last and fails only when the rename call does, nothing that
  is open is deleted or damaged, and every open artifact is published.
\<close>

theorem cache_refines_store:
  assumes "cache_start s" "run cache_step s as = Some t"
  shows "trace store_spec \<lparr>published = cacheDir (shared s), opened = {#}, drafts = Map.empty\<rparr>
      (events cache_step store_ev s as) (store_abs t) \<and>
    (\<forall>i \<in># opened (store_abs t). published (store_abs t) i \<noteq> None)"
proof -
  from assms(1) have "store_abs s = \<lparr>published = cacheDir (shared s), opened = {#}, drafts = Map.empty\<rparr>"
    by (simp add: store_abs_def cache_start_def)
  with str.start_trace [OF assms] have tr: "trace store_spec
      \<lparr>published = cacheDir (shared s), opened = {#}, drafts = Map.empty\<rparr>
      (events cache_step store_ev s as) (store_abs t)"
    by simp
  from store_trace_opened [OF this] tr show ?thesis by simp
qed

lemma cache_demo_events:
  "\<exists>t. run cache_step empty_sys cache_demo = Some t \<and>
     events cache_step store_ev empty_sys cache_demo =
       [Created idA [], Wrote idA [(''a.txt'', File 420 [1])], Published idA [(''a.txt'', File 420 [1])],
        Opened idA [(''a.txt'', File 420 [1])]] \<and>
     open_artifacts (acts t) = {#idA#}"
  by (simp add: cache_demo_def empty_sys_def becomes_def cache_parts Let_def)

theorem cache_refines_store_witness:
  "\<exists>y. trace store_spec \<lparr>published = Map.empty, opened = {#}, drafts = Map.empty\<rparr>
     [Created idA [], Wrote idA [(''a.txt'', File 420 [1])], Published idA [(''a.txt'', File 420 [1])],
      Opened idA [(''a.txt'', File 420 [1])]] y \<and> opened y = {#idA#} \<and> published y idA \<noteq> None"
proof -
  obtain t where t: "run cache_step empty_sys cache_demo = Some t"
    and ev: "events cache_step store_ev empty_sys cache_demo =
       [Created idA [], Wrote idA [(''a.txt'', File 420 [1])], Published idA [(''a.txt'', File 420 [1])],
        Opened idA [(''a.txt'', File 420 [1])]]"
    and op: "open_artifacts (acts t) = {#idA#}"
    using cache_demo_events by blast
  from cache_refines_store [OF empty_sys_start t] op show ?thesis
    unfolding ev by (intro exI [of _ "store_abs t"]) (simp add: empty_sys_def)
qed

end
