(* ===== verification/Scheduler_Spec.thy ===== *)
theory Scheduler_Spec
  imports Scheduler Refinement
begin

text \<open>
  What the scheduler promises, without pointers and channels: a table of jobs by identifier with
  their results, a queue of identifiers and the recent reporters of each artifact. The machine of
  \<open>Scheduler\<close>, in which the table, the queue and the builds share \<open>*PendingJob\<close> addresses and
  \<open>OnJobComplete\<close> is two sections, refines it.
\<close>

section \<open>The specification\<close>

text \<open>\<open>outcome i = Some r\<close>: the job is finished with result \<open>r\<close>, which may be nil.\<close>

record job_board =
  board :: "ID \<rightharpoonup> JobSpec"
  outcome :: "ID \<rightharpoonup> JobResult option"
  waiting :: "ID list"
  holders :: "ID \<rightharpoonup> WorkerID list"

datatype board_event =
    Enqueued JobSpec
  | HandedOut JobSpec
  | Finished_first ID "JobResult option"
  | Adopted ID "JobResult option"       \<comment> \<open>a result for a job nobody scheduled\<close>
  | Reported WorkerID ID

inductive board_spec :: "job_board \<Rightarrow> board_event \<Rightarrow> job_board \<Rightarrow> bool" where
  enqueued: "board b (spec_ID js) = None \<Longrightarrow> length (waiting b) < queue_capacity \<Longrightarrow>
    board_spec b (Enqueued js)
      (b\<lparr>board := (board b)(spec_ID js \<mapsto> js), waiting := waiting b @ [spec_ID js]\<rparr>)"
| handed_out: "waiting b = i # is \<Longrightarrow> board b i = Some js \<Longrightarrow>
    board_spec b (HandedOut js) (b\<lparr>waiting := is\<rparr>)"
| finished: "board b i = Some js \<Longrightarrow> outcome b i = None \<Longrightarrow>
    board_spec b (Finished_first i r) (b\<lparr>outcome := (outcome b)(i \<mapsto> r)\<rparr>)"
| adopted: "board b i = None \<Longrightarrow> outcome b i = None \<Longrightarrow>
    board_spec b (Adopted i r)
      (b\<lparr>board := (board b)(i \<mapsto> empty_spec i), outcome := (outcome b)(i \<mapsto> r)\<rparr>)"
| reported: "outcome b i \<noteq> None \<Longrightarrow>
    board_spec b (Reported w i) (b\<lparr>holders := (holders b)(i \<mapsto>
      lastn 4 ((case holders b i of None \<Rightarrow> [] | Some ws \<Rightarrow> ws) @ [w]))\<rparr>)"

definition empty_board :: job_board where
  "empty_board = \<lparr>board = Map.empty, outcome = Map.empty, waiting = [], holders = Map.empty\<rparr>"

section \<open>The scheduler seen as a job board\<close>

definition entry_spec :: "Scheduler \<Rightarrow> ID \<Rightarrow> JobSpec option" where
  "entry_spec c i = map_option (\<lambda>p. pj_Job (store c p)) (jobs c i)"

definition entry_outcome :: "Scheduler \<Rightarrow> ID \<Rightarrow> JobResult option option" where
  "entry_outcome c i =
     (case jobs c i of
        None \<Rightarrow> None
      | Some p \<Rightarrow> if Finished (store c p) then Some (Result (store c p)) else None)"

definition queued_ids :: "Scheduler \<Rightarrow> ID list" where
  "queued_ids c = map (\<lambda>p. spec_ID (pj_Job (store c p))) (channal (queue c))"

definition board_abs :: "sched_sys \<Rightarrow> job_board" where
  "board_abs s = \<lparr>board = entry_spec (sc_sched s), outcome = entry_outcome (sc_sched s),
     waiting = queued_ids (sc_sched s), holders = artifacts (sc_sched s)\<rparr>"

fun board_ev :: "sched_sys \<Rightarrow> sched_act \<Rightarrow> board_event option" where
  "board_ev s (ActSchedule js) =
     (if jobs (sc_sched s) (spec_ID js) = None then Some (Enqueued js) else None)"
| "board_ev s ActPick =
     (case channal (queue (sc_sched s)) of
        [] \<Rightarrow> None
      | p # ps \<Rightarrow> Some (HandedOut (pj_Job (store (sc_sched s) p))))"
| "board_ev s (ActComplete w i r) =
     (case entry_outcome (sc_sched s) i of
        Some r' \<Rightarrow> None
      | None \<Rightarrow> if jobs (sc_sched s) i = None then Some (Adopted i r) else Some (Finished_first i r))"
| "board_ev s (ActAdd w i) = Some (Reported w i)"

text \<open>
  The machine's invariant, and what the event of the second section needs: a worker that is
  between the two sections of \<open>OnJobComplete\<close> has left the job finished.
\<close>

definition adding_ok :: "sched_sys \<Rightarrow> bool" where
  "adding_ok s \<longleftrightarrow> (\<forall>(w, i) \<in># sc_adding s. entry_outcome (sc_sched s) i \<noteq> None)"

definition board_inv :: "sched_sys \<Rightarrow> bool" where
  [inv_defs]: "board_inv s \<longleftrightarrow> sched_inv s \<and> adding_ok s"

lemma board_abs_simps [simp]:
  "board (board_abs s) = entry_spec (sc_sched s)" "outcome (board_abs s) = entry_outcome (sc_sched s)"
  "waiting (board_abs s) = queued_ids (sc_sched s)" "holders (board_abs s) = artifacts (sc_sched s)"
  by (simp_all add: board_abs_def)

lemma entry_spec_None [simp]: "entry_spec c i = None \<longleftrightarrow> jobs c i = None"
  by (simp add: entry_spec_def)

lemma entry_outcome_None: "jobs c i = None \<Longrightarrow> entry_outcome c i = None"
  by (simp add: entry_outcome_def)

lemma views_frame:
  assumes "store c' = store c" "jobs c' = jobs c"
  shows "entry_spec c' = entry_spec c" "entry_outcome c' = entry_outcome c"
  using assms by (auto simp: fun_eq_iff entry_spec_def entry_outcome_def split: option.split)

text \<open>A new address is in no entry of the table and not in the queue.\<close>

lemma new_entry_views:
  assumes ok: "jobs_ok c" "queue_ok sch pk c" and new: "jobs c i = None"
    and c': "c' = c\<lparr>store := (store c)(fresh c := pj), queue := q, jobs := (jobs c)(i \<mapsto> fresh c),
      fresh := Suc (fresh c)\<rparr>"
  shows "entry_spec c' = (entry_spec c)(i \<mapsto> pj_Job pj)"
    and "entry_outcome c' = (entry_outcome c)(i := if Finished pj then Some (Result pj) else None)"
    and "channal q = channal (queue c) \<Longrightarrow> queued_ids c' = queued_ids c"
    and "channal q = channal (queue c) @ [fresh c] \<Longrightarrow>
      queued_ids c' = queued_ids c @ [spec_ID (pj_Job pj)]"
proof -
  have old: "p \<noteq> fresh c" if "jobs c j = Some p" for j p
    using that ok(1) by (auto simp: jobs_ok_def)
  show "entry_spec c' = (entry_spec c)(i \<mapsto> pj_Job pj)"
    and "entry_outcome c' = (entry_outcome c)(i := if Finished pj then Some (Result pj) else None)"
    using old
    by (auto simp: fun_eq_iff entry_spec_def entry_outcome_def c' map_option_case split: option.splits)
  have "\<forall>p \<in> set (channal (queue c)). p \<noteq> fresh c"
    using ok(2) old unfolding queue_ok_def by auto
  then show "channal q = channal (queue c) \<Longrightarrow> queued_ids c' = queued_ids c"
    and "channal q = channal (queue c) @ [fresh c] \<Longrightarrow>
      queued_ids c' = queued_ids c @ [spec_ID (pj_Job pj)]"
    by (simp_all add: queued_ids_def c')
qed

lemma finish_entry_views:
  assumes ok: "jobs_ok c" and p: "jobs c i = Some p"
    and c': "c' = c\<lparr>store := (store c)(p :=
      (store c p)\<lparr>isCloseFinished := True, Result := res, Finished := True\<rparr>)\<rparr>"
  shows "entry_spec c' = entry_spec c" "entry_outcome c' = (entry_outcome c)(i \<mapsto> res)"
    "queued_ids c' = queued_ids c"
proof -
  have same: "j = i" if "jobs c j = Some p" for j
    using that p ok by (auto simp: jobs_ok_def)
  show "entry_spec c' = entry_spec c"
    by (simp add: fun_eq_iff entry_spec_def c' map_option_case split: option.split)
  show "entry_outcome c' = (entry_outcome c)(i \<mapsto> res)"
  proof
    fix j show "entry_outcome c' j = ((entry_outcome c)(i \<mapsto> res)) j"
      using p same [of j] by (cases "jobs c j") (auto simp: entry_outcome_def c')
  qed
  show "queued_ids c' = queued_ids c"
    by (simp add: queued_ids_def c')
qed

section \<open>Simulation\<close>

lemma sched_parts:
  assumes "sched_inv s"
  shows "jobs_ok (sc_sched s)" "queue_ok (sc_scheduled s) (sc_picked s) (sc_sched s)"
    "artifacts (sc_sched s) = (\<lambda>i. recent_reporters i (sc_added s))"
  using assms by (simp_all add: sched_inv_def)

lemma sim_Schedule:
  assumes inv: "sched_inv s" and step: "sched_step s (ActSchedule js) = Some t"
  shows "if jobs (sc_sched s) (spec_ID js) = None then board_spec (board_abs s) (Enqueued js) (board_abs t)
    else board_abs t = board_abs s"
proof -
  from step obtain p c where call: "ScheduleJob js (sc_sched s) = Returns (p, c)"
    and t: "sc_sched t = c"
    by (auto split: go.splits prod.splits)
  note room = ScheduleJob_room [OF call]
  from call show ?thesis
  proof (cases rule: ScheduleJob_cases)
    case known
    then show ?thesis by (simp add: board_abs_def t)
  next
    case (queued q)
    note views = new_entry_views [OF sched_parts(1,2) [OF inv] queued(1,5)]
    from views(1,2) views(4) [OF queued(4)] queued(1,5)
    have "board_abs t = (board_abs s)\<lparr>board := (board (board_abs s))(spec_ID js \<mapsto> js),
        waiting := waiting (board_abs s) @ [spec_ID js]\<rparr>"
      by (simp add: board_abs_def t new_pending_def entry_outcome_None fun_upd_idem)
    with room queued(1) board_spec.enqueued [of "board_abs s" js] show ?thesis
      by (simp add: queued_ids_def)
  qed
qed

lemma sim_Pick:
  assumes inv: "sched_inv s" and step: "sched_step s ActPick = Some t"
  obtains p ps where "channal (queue (sc_sched s)) = p # ps"
    "board_spec (board_abs s) (HandedOut (pj_Job (store (sc_sched s) p))) (board_abs t)"
proof -
  from step obtain p q where pop: "Pop (queue (sc_sched s)) = Some (p, q)"
    and t: "sc_sched t = (sc_sched s)\<lparr>queue := q\<rparr>"
    by (auto simp: PickJob_def checkIsStop_def split: go.splits option.splits if_splits prod.splits)
  from cq.pop_Some [OF pop] have q: "channal (queue (sc_sched s)) = p # channal q" .
  let ?js = "pj_Job (store (sc_sched s) p)"
  from q sched_parts(2) [OF inv] have "jobs (sc_sched s) (spec_ID ?js) = Some p"
    by (simp add: queue_ok_def)
  then have "board (board_abs s) (spec_ID ?js) = Some ?js"
    by (simp add: entry_spec_def)
  moreover from q have "waiting (board_abs s) = spec_ID ?js # queued_ids (sc_sched t)"
    by (simp add: queued_ids_def t)
  moreover have "board_abs t = (board_abs s)\<lparr>waiting := queued_ids (sc_sched t)\<rparr>"
    by (simp add: board_abs_def t views_frame [of "sc_sched s\<lparr>queue := q\<rparr>" "sc_sched s"])
  ultimately show thesis
    using that [OF q] board_spec.handed_out by metis
qed

lemma sim_Complete:
  assumes inv: "sched_inv s" and step: "sched_step s (ActComplete w i r) = Some t"
  shows "case board_ev s (ActComplete w i r) of None \<Rightarrow> board_abs t = board_abs s
      | Some e \<Rightarrow> board_spec (board_abs s) e (board_abs t)"
    and "entry_outcome (sc_sched t) i \<noteq> None"
proof -
  from step obtain e c where call: "complete_job i r (sc_sched s) = Returns (e, c)" and t: "sc_sched t = c"
    by (auto split: go.splits prod.splits if_splits)
  have "(case board_ev s (ActComplete w i r) of None \<Rightarrow> board_abs t = board_abs s
      | Some e \<Rightarrow> board_spec (board_abs s) e (board_abs t)) \<and> entry_outcome (sc_sched t) i \<noteq> None"
    using sched_parts(1) [OF inv]
  proof (cases rule: complete_job_cases [of _ i r])
    case (first p)
    with call have c: "c = (sc_sched s)\<lparr>store := (store (sc_sched s))(p := (store (sc_sched s) p)
         \<lparr>isCloseFinished := True, Result := r, Finished := True\<rparr>)\<rparr>" by simp
    note views = finish_entry_views [OF sched_parts(1) [OF inv] first(1) c]
    have out: "entry_outcome (sc_sched s) i = None"
      using first by (simp add: entry_outcome_def)
    have "board_abs t = (board_abs s)\<lparr>outcome := (outcome (board_abs s))(i \<mapsto> r)\<rparr>"
      by (simp add: board_abs_def t views) (simp add: c)
    with first out views(2) board_spec.finished [of "board_abs s" i _ r] show ?thesis
      by (auto simp: t entry_spec_def)
  next
    case (again p)
    with call t show ?thesis by (simp add: board_abs_def entry_outcome_def)
  next
    case unknown
    let ?pj = "\<lparr>pj_Job = empty_spec i, Finished = True, Result = r, isCloseFinished = True\<rparr>"
    from unknown call have c: "c = (sc_sched s)\<lparr>store := (store (sc_sched s))(fresh (sc_sched s) := ?pj),
        queue := queue (sc_sched s), jobs := (jobs (sc_sched s))(i \<mapsto> fresh (sc_sched s)),
        fresh := Suc (fresh (sc_sched s))\<rparr>" by simp
    note views = new_entry_views [OF sched_parts(1,2) [OF inv] unknown(1) c]
    have out: "entry_outcome (sc_sched s) i = None"
      using unknown by (simp add: entry_outcome_def)
    have "board_abs t = (board_abs s)\<lparr>board := (board (board_abs s))(i \<mapsto> empty_spec i),
        outcome := (outcome (board_abs s))(i \<mapsto> r)\<rparr>"
      by (simp add: board_abs_def t views(1-3)) (simp add: c)
    with unknown out views(2) board_spec.adopted [of "board_abs s" i r] show ?thesis
      by (auto simp: t)
  qed
  then show "case board_ev s (ActComplete w i r) of None \<Rightarrow> board_abs t = board_abs s
      | Some e \<Rightarrow> board_spec (board_abs s) e (board_abs t)"
    and "entry_outcome (sc_sched t) i \<noteq> None" by simp_all
qed

lemma sim_Add:
  assumes inv: "board_inv s" and step: "sched_step s (ActAdd w i) = Some t"
  shows "board_spec (board_abs s) (Reported w i) (board_abs t)"
proof -
  from step have mem: "(w, i) \<in># sc_adding s" and t: "sc_sched t = add_artifact w i (sc_sched s)"
    by (auto split: if_splits)
  from inv have sinv: "sched_inv s" and "adding_ok s"
    by (simp_all add: board_inv_def)
  with mem have out: "outcome (board_abs s) i \<noteq> None"
    by (auto simp: adding_ok_def)
  note hist = sched_parts(3) [OF sinv]
  have "artifacts (sc_sched t) = (artifacts (sc_sched s))(i \<mapsto>
      lastn 4 ((case artifacts (sc_sched s) i of None \<Rightarrow> [] | Some ws \<Rightarrow> ws) @ [w]))"
    by (simp add: t add_artifact_recent [OF hist] hist recent_reporters_snoc fun_eq_iff)
  moreover have "entry_spec (sc_sched t) = entry_spec (sc_sched s)"
    "entry_outcome (sc_sched t) = entry_outcome (sc_sched s)" "queued_ids (sc_sched t) = queued_ids (sc_sched s)"
    by (simp_all add: t views_frame [of "add_artifact w i (sc_sched s)" "sc_sched s"] queued_ids_def)
  ultimately show ?thesis
    using board_spec.reported [OF out, of w] by (simp add: board_abs_def)
qed

lemma adding_ok_step:
  assumes inv: "board_inv s" and step: "sched_step s a = Some t"
  shows "adding_ok t"
proof -
  from inv have sinv: "sched_inv s" by (simp add: board_inv_def)
  have False if mem: "(w, i) \<in># sc_adding t" and none: "entry_outcome (sc_sched t) i = None" for w i
  proof -
    have "(w, i) \<notin># sc_adding s"
    proof
      assume "(w, i) \<in># sc_adding s"
      with inv obtain p where p: "jobs (sc_sched s) i = Some p" "Finished (store (sc_sched s) p)"
        by (force simp: board_inv_def adding_ok_def entry_outcome_def split: option.splits if_splits)
      with sched_step_keeps(1,2) [OF sinv step p(1)] none show False
        by (simp add: entry_outcome_def)
    qed
    with step mem obtain r where "a = ActComplete w i r"
      by (cases a) (auto split: go.splits prod.splits option.splits if_splits dest: in_diffD)
    with sim_Complete(2) [OF sinv] step none show False by blast
  qed
  then show ?thesis by (auto simp: adding_ok_def)
qed

lemma board_inv_step: "board_inv s \<Longrightarrow> sched_step s a = Some t \<Longrightarrow> board_inv t"
  using adding_ok_step sched_inv_step by (auto simp: board_inv_def)

lemma board_inv_fresh: "s = sched_fresh \<Longrightarrow> board_inv s"
  using sched_inv_fresh by (simp add: board_inv_def adding_ok_def sched_fresh_def)

lemma board_simulated:
  assumes inv: "board_inv s" and step: "sched_step s a = Some t"
  shows "case board_ev s a of None \<Rightarrow> board_abs t = board_abs s
    | Some e \<Rightarrow> board_spec (board_abs s) e (board_abs t)"
proof -
  from inv have sinv: "sched_inv s" by (simp add: board_inv_def)
  show ?thesis
  proof (cases a)
    case (ActSchedule js)
    with sim_Schedule [OF sinv step [unfolded ActSchedule]] show ?thesis by (simp split: if_splits)
  next
    case ActPick
    from sim_Pick [OF sinv step [unfolded ActPick]] show ?thesis
      by cases (simp add: ActPick)
  next
    case (ActComplete w i r)
    with sim_Complete(1) [OF sinv step [unfolded ActComplete]] show ?thesis by simp
  next
    case (ActAdd w i)
    with sim_Add [OF inv step [unfolded ActAdd]] show ?thesis by simp
  qed
qed

interpretation jb: invariant_machine sched_step "\<lambda>s. s = sched_fresh" board_inv
  by unfold_locales (fact board_inv_fresh board_inv_step)+

interpretation jbr: refinement sched_step "\<lambda>s. s = sched_fresh" board_inv board_spec board_ev board_abs
  by unfold_locales (rule board_simulated)

section \<open>Histories of the specification\<close>

definition enqueued_specs :: "board_event list \<Rightarrow> JobSpec list" where
  "enqueued_specs es = List.map_filter (\<lambda>e. case e of Enqueued js \<Rightarrow> Some js | _ \<Rightarrow> None) es"

definition handed_specs :: "board_event list \<Rightarrow> JobSpec list" where
  "handed_specs es = List.map_filter (\<lambda>e. case e of HandedOut js \<Rightarrow> Some js | _ \<Rightarrow> None) es"

definition finished_ids :: "board_event list \<Rightarrow> ID list" where
  "finished_ids es = List.map_filter
     (\<lambda>e. case e of Finished_first i r \<Rightarrow> Some i | Adopted i r \<Rightarrow> Some i | _ \<Rightarrow> None) es"

lemma board_event_lists [simp]:
  "enqueued_specs [] = []" "handed_specs [] = []" "finished_ids [] = []"
  "enqueued_specs (es @ [e]) = enqueued_specs es @ (case e of Enqueued js \<Rightarrow> [js] | _ \<Rightarrow> [])"
  "handed_specs (es @ [e]) = handed_specs es @ (case e of HandedOut js \<Rightarrow> [js] | _ \<Rightarrow> [])"
  "finished_ids (es @ [e]) = finished_ids es @
     (case e of Finished_first i r \<Rightarrow> [i] | Adopted i r \<Rightarrow> [i] | _ \<Rightarrow> [])"
  by (simp_all add: enqueued_specs_def handed_specs_def finished_ids_def List.map_filter_def
      split: board_event.split)

definition queue_history :: "board_event list \<Rightarrow> job_board \<Rightarrow> bool" where
  "queue_history es b \<longleftrightarrow> distinct (map spec_ID (enqueued_specs es)) \<and>
     (\<forall>js \<in> set (enqueued_specs es). board b (spec_ID js) = Some js) \<and>
     (\<exists>ws. enqueued_specs es = handed_specs es @ ws \<and> waiting b = map spec_ID ws \<and>
        length ws \<le> queue_capacity)"

definition outcome_history :: "board_event list \<Rightarrow> job_board \<Rightarrow> bool" where
  "outcome_history es b \<longleftrightarrow> distinct (finished_ids es) \<and> set (finished_ids es) = dom (outcome b) \<and>
     dom (outcome b) \<subseteq> dom (board b) \<and>
     (\<forall>i ws. holders b i = Some ws \<longrightarrow> outcome b i \<noteq> None \<and> ws \<noteq> [] \<and> length ws \<le> 4)"

lemma queue_history_step:
  assumes "board_spec b e b'" "queue_history es b"
  shows "queue_history (es @ [e]) b'"
  using assms
proof cases
  case (enqueued js)
  with assms(2) show ?thesis
    by (auto simp: queue_history_def)
next
  case (handed_out i "is" js)
  with assms(2) obtain w ws where "enqueued_specs es = handed_specs es @ w # ws"
    "spec_ID w = i" "is = map spec_ID ws" "length (w # ws) \<le> queue_capacity"
    by (auto simp: queue_history_def)
  with assms(2) handed_out show ?thesis
    by (auto simp: queue_history_def)
qed (use assms(2) in \<open>auto simp: queue_history_def\<close>)

lemma outcome_history_step:
  assumes "board_spec b e b'" "outcome_history es b"
  shows "outcome_history (es @ [e]) b'"
  using assms
proof cases
  case (reported i w)
  with assms(2) show ?thesis
    by (auto simp: outcome_history_def split: option.splits)
qed (use assms(2) in \<open>auto simp: outcome_history_def\<close>)

lemma board_histories:
  assumes "trace board_spec empty_board es b"
  shows "queue_history es b" "outcome_history es b"
proof -
  have "queue_history [] empty_board" "outcome_history [] empty_board"
    by (simp_all add: queue_history_def outcome_history_def empty_board_def)
  with trace_history [OF assms, of queue_history "[]"] trace_history [OF assms, of outcome_history "[]"]
  show "queue_history es b" "outcome_history es b"
    by (auto intro: queue_history_step outcome_history_step)
qed

section \<open>Properties\<close>

lemma board_abs_fresh [simp]: "board_abs sched_fresh = empty_board"
  by (simp add: board_abs_def sched_fresh_def NewScheduler_def newChanQueue_def empty_board_def
      entry_spec_def entry_outcome_def queued_ids_def fun_eq_iff)

text \<open>
  C14. The scheduler refines the job board: whatever the interleaving of calls on a new scheduler, its
  sections under the locks and its channel operations form a trace of the specification, and the
  table, the results, the queue and the reporters it holds at the end are those of the board. So
  a job is enqueued only when it is unknown, handed out in queue order with the specification
  under which it is in the table, finished once, and reported only after it is finished.
\<close>

theorem scheduler_refines_board:
  assumes "run sched_step sched_fresh as = Some t"
  shows "trace board_spec empty_board (events sched_step board_ev sched_fresh as) (board_abs t)"
  using jbr.start_trace [OF refl assms] by simp

lemma sched_demo_events:
  "\<exists>t. run sched_step sched_fresh [ActSchedule demo_spec, ActSchedule demo_spec, ActPick,
      ActComplete ''w'' (spec_ID demo_spec) None, ActAdd ''w'' (spec_ID demo_spec)] = Some t \<and>
    events sched_step board_ev sched_fresh [ActSchedule demo_spec, ActSchedule demo_spec, ActPick,
      ActComplete ''w'' (spec_ID demo_spec) None, ActAdd ''w'' (spec_ID demo_spec)] =
    [Enqueued demo_spec, HandedOut demo_spec, Finished_first (spec_ID demo_spec) None,
     Reported ''w'' (spec_ID demo_spec)]"
  by (simp add: sched_fresh_def NewScheduler_def newChanQueue_def ScheduleJob_def PickJob_def
      checkIsStop_def Push_def Pop_def queue_capacity_def complete_job_def new_pending_def Let_def
      entry_outcome_def)

theorem scheduler_refines_board_witness:
  "\<exists>b. trace board_spec empty_board [Enqueued demo_spec, HandedOut demo_spec,
     Finished_first (spec_ID demo_spec) None, Reported ''w'' (spec_ID demo_spec)] b"
  using sched_demo_events scheduler_refines_board by metis

lemma entry_outcome_Some: "entry_outcome c i \<noteq> None \<longleftrightarrow> (\<exists>p. jobs c i = Some p \<and> Finished (store c p))"
  by (simp add: entry_outcome_def split: option.split)

text \<open>
  C15. The events of every run, in terms of job specifications: the jobs handed out so far followed
  by the jobs that wait are the jobs enqueued, in order, no two of them with one identifier; and
  each job is finished at most once.
\<close>

theorem scheduler_history:
  assumes "run sched_step sched_fresh as = Some t"
  shows "let es = events sched_step board_ev sched_fresh as in
    (\<exists>ws. enqueued_specs es = handed_specs es @ ws \<and> queued_ids (sc_sched t) = map spec_ID ws) \<and>
    distinct (map spec_ID (enqueued_specs es)) \<and> distinct (finished_ids es)"
  using board_histories [OF jbr.start_trace [OF refl assms, unfolded board_abs_fresh]]
  unfolding queue_history_def outcome_history_def Let_def board_abs_simps by blast

theorem scheduler_history_witness:
  "let es = [Enqueued demo_spec, HandedOut demo_spec, Finished_first (spec_ID demo_spec) None,
     Reported ''w'' (spec_ID demo_spec)] in
   (\<exists>ws. enqueued_specs es = handed_specs es @ ws) \<and>
   distinct (map spec_ID (enqueued_specs es)) \<and> distinct (finished_ids es)"
proof -
  obtain t where t: "run sched_step sched_fresh [ActSchedule demo_spec, ActSchedule demo_spec, ActPick,
      ActComplete ''w'' (spec_ID demo_spec) None, ActAdd ''w'' (spec_ID demo_spec)] = Some t"
    and ev: "events sched_step board_ev sched_fresh [ActSchedule demo_spec, ActSchedule demo_spec, ActPick,
      ActComplete ''w'' (spec_ID demo_spec) None, ActAdd ''w'' (spec_ID demo_spec)] =
    [Enqueued demo_spec, HandedOut demo_spec, Finished_first (spec_ID demo_spec) None,
     Reported ''w'' (spec_ID demo_spec)]"
    using sched_demo_events by blast
  from scheduler_history [OF t] show ?thesis
    unfolding ev by (auto simp: Let_def)
qed

text \<open>
  C17. The bounds of the reachable tables: at most 10000 jobs wait; an artifact entry is there only
  for a finished job of the table and names at least one and at most four workers.
\<close>

theorem scheduler_bounds:
  assumes "run sched_step sched_fresh as = Some t"
  shows "length (channal (queue (sc_sched t))) \<le> 10000 \<and>
    (\<forall>i ws. artifacts (sc_sched t) i = Some ws \<longrightarrow> 1 \<le> length ws \<and> length ws \<le> 4 \<and>
      (\<exists>p. jobs (sc_sched t) i = Some p \<and> Finished (store (sc_sched t) p)))"
proof -
  note h = board_histories [OF jbr.start_trace [OF refl assms, unfolded board_abs_fresh]]
  from h(1) obtain ws where "queued_ids (sc_sched t) = map spec_ID ws" "length ws \<le> queue_capacity"
    by (auto simp: queue_history_def)
  then have "length (channal (queue (sc_sched t))) \<le> 10000"
    by (auto simp: queued_ids_def queue_capacity_def dest: map_eq_imp_length_eq)
  moreover from h(2) have "\<forall>i ws. artifacts (sc_sched t) i = Some ws \<longrightarrow>
      entry_outcome (sc_sched t) i \<noteq> None \<and> ws \<noteq> [] \<and> length ws \<le> 4"
    by (simp add: outcome_history_def)
  ultimately show ?thesis
    unfolding entry_outcome_Some by (auto simp: Suc_le_eq)
qed

theorem scheduler_bounds_witness:
  "\<exists>t. run sched_step sched_fresh [ActSchedule demo_spec, ActSchedule demo_spec, ActPick,
      ActComplete ''w'' (spec_ID demo_spec) None, ActAdd ''w'' (spec_ID demo_spec)] = Some t \<and>
    length (channal (queue (sc_sched t))) \<le> 10000"
  using sched_demo_events scheduler_bounds by blast

end
