(* ===== verification/Worker_Pool.thy ===== *)
theory Worker_Pool
  imports Worker Artifact_Store_Spec
begin

text \<open>
  The jobs of one heartbeat on a worker, as the goroutines \<open>Run\<close> starts for them
  (\<open>worker.go\<close>, \<open>download.go\<close>, \<open>execute.go\<close>): they share the artifact cache, the cache of
  results, the state and the metrics, while the artifact handler serves other workers from the
  same cache. A goroutine is cut wherever \<open>Artifact_Cache\<close> cuts the methods of the cache: before
  each section under the cache's mutex and each system call.
\<close>

section \<open>Where a goroutine is\<close>

text \<open>
  \<open>me\<close> below is the identifier of the goroutine's own job; \<open>held\<close> are the dependencies it has
  read-locked, in the order of its \<open>unlocks\<close>.
\<close>

datatype job_pc =
    Scheduled                              \<comment> \<open>\<open>Run\<close> has not started it yet\<close>
  | Loading                                \<comment> \<open>before \<open>jobResultCache.Load\<close>\<close>
  | ArtGet ID "(ID \<times> WorkerID) list"      \<comment> \<open>\<open>downloadArtifacts\<close>: before \<open>Get\<close>\<close>
  | ArtStat ID "(ID \<times> WorkerID) list"     \<comment> \<open>in \<open>Get\<close>, read-locked\<close>
  | ArtHit ID "(ID \<times> WorkerID) list"      \<comment> \<open>found, before \<open>unlock\<close>\<close>
  | ArtRequest ID "(ID \<times> WorkerID) list"  \<comment> \<open>not found, in \<open>artifact.Download\<close>\<close>
  | ArtCreate ID "(ID \<times> WorkerID) list"   \<comment> \<open>reply with status 200, before \<open>Create\<close>\<close>
  | ArtMkdir ID "(ID \<times> WorkerID) list"    \<comment> \<open>in \<open>Create\<close>, write-locked\<close>
  | ArtReceive ID "(ID \<times> WorkerID) list"  \<comment> \<open>receiving the directory\<close>
  | ArtCommit ID "(ID \<times> WorkerID) list"   \<comment> \<open>received, before the rename\<close>
  | ArtAbort ID string                     \<comment> \<open>receiving failed, before \<open>abort\<close>\<close>
  | Free ID job_pc                         \<comment> \<open>before a \<open>writeUnlock\<close>, and what follows\<close>
  | Files                                  \<comment> \<open>in \<open>downloadFiles\<close>\<close>
  | Linking                                \<comment> \<open>in the loop over \<open>linkFiles\<close>\<close>
  | Creating                               \<comment> \<open>before \<open>Create\<close> of the job's own artifact\<close>
  | Mkdiring
  | DepLock ID "ID list" "ID list"         \<comment> \<open>before \<open>Get\<close> of a dependency\<close>
  | DepStat ID "ID list" "ID list"
  | Running "ID list"                      \<comment> \<open>in the loop over the commands\<close>
  | Unlocking ID "ID list" JobResult
  | Committing JobResult
  | Aborting JobResult string "ID list"
  | Storing JobResult                      \<comment> \<open>before \<open>jobResultCache.Store\<close>\<close>
  | Reporting JobResult "ID list"          \<comment> \<open>in the deferred function\<close>
  | Done "ID list"
  | Panicked "ID list"

text \<open>
  What the goroutine does to the artifact cache while it is there. A failed job keeps its
  \<open>held\<close> dependencies to the end and beyond.
\<close>

fun pc_acts :: "ID \<Rightarrow> job_pc \<Rightarrow> act multiset" where
  "pc_acts me (ArtStat i arts) = {#GetLocked i#}"
| "pc_acts me (ArtHit i arts) = {#Reading i#}"
| "pc_acts me (ArtMkdir i arts) = {#CreateLocked i#}"
| "pc_acts me (ArtReceive i arts) = {#Writing i#}"
| "pc_acts me (ArtCommit i arts) = {#Writing i#}"
| "pc_acts me (ArtAbort i e) = {#Writing i#}"
| "pc_acts me (Free i pc) = add_mset (Releasing i) (pc_acts me pc)"
| "pc_acts me Mkdiring = {#CreateLocked me#}"
| "pc_acts me (DepLock d ds held) = add_mset (Writing me) (image_mset Reading (mset held))"
| "pc_acts me (DepStat d ds held) =
     add_mset (GetLocked d) (add_mset (Writing me) (image_mset Reading (mset held)))"
| "pc_acts me (Running held) = add_mset (Writing me) (image_mset Reading (mset held))"
| "pc_acts me (Unlocking d ds res) = add_mset (Writing me) (image_mset Reading (mset (d # ds)))"
| "pc_acts me (Committing res) = {#Writing me#}"
| "pc_acts me (Aborting res e held) = add_mset (Writing me) (image_mset Reading (mset held))"
| "pc_acts me (Reporting res held) = image_mset Reading (mset held)"
| "pc_acts me (Done held) = image_mset Reading (mset held)"
| "pc_acts me (Panicked held) = add_mset (Writing me) (image_mset Reading (mset held))"
| "pc_acts me pc = {#}"

section \<open>The moves of a goroutine\<close>

text \<open>
  What the model takes from outside: the reply to a download request (\<open>None\<close> is status 200), what
  \<open>Receive\<close> ends with and has written, what the calls on the file cache and the links end with,
  the processes, and whether the context is done when the result is to be recorded.
\<close>

datatype choice =
    Calm
  | Reply "art_client_error option"
  | Received "string option" dir
  | FileCall "worker_error option"
  | Ran process
  | Report bool

record pool_cfg =
  cf_render :: "Job \<Rightarrow> Cmd \<Rightarrow> string + Cmd"
  cf_resolve :: "string \<Rightarrow> string list"
  cf_text :: "worker_error \<Rightarrow> string"

text \<open>\<open>runJob\<close> when a download fails, and when \<open>executeJob\<close> returns an error.\<close>

definition fetch_failed :: "pool_cfg \<Rightarrow> ID \<Rightarrow> worker_error \<Rightarrow> job_pc" where
  "fetch_failed cfg jobID e = Reporting ((new_result jobID)\<lparr>Error := Some (cf_text cfg e)\<rparr>) []"

definition exec_failed :: "pool_cfg \<Rightarrow> JobResult \<Rightarrow> worker_error \<Rightarrow> ID list \<Rightarrow> job_pc" where
  "exec_failed cfg res e held =
     Reporting (res\<lparr>Error := Some (''error when executing a job on a worker: '' @ cf_text cfg e)\<rparr>) held"

fun next_art :: "(ID \<times> WorkerID) list \<Rightarrow> job_pc" where
  "next_art [] = Files"
| "next_art ((i, from) # arts) = ArtGet i arts"

fun next_dep :: "ID list \<Rightarrow> ID list \<Rightarrow> job_pc" where
  "next_dep [] held = Running held"
| "next_dep (d # ds) held = DepLock d ds held"

fun next_unlock :: "ID list \<Rightarrow> JobResult \<Rightarrow> job_pc" where
  "next_unlock [] res = Committing res"
| "next_unlock (d # ds) res = Unlocking d ds res"

definition get_failed :: "pool_cfg \<Rightarrow> ID \<Rightarrow> ID \<Rightarrow> (ID \<times> WorkerID) list \<Rightarrow> art_error \<Rightarrow> job_pc" where
  "get_failed cfg jobID i arts e =
     (if e = Art_ErrNotFound then ArtRequest i arts else fetch_failed cfg jobID (ArtErr e))"

fun reply_of :: "choice \<Rightarrow> art_client_error option option" where
  "reply_of (Reply r) = Some r"
| "reply_of _ = None"

fun received_of :: "choice \<Rightarrow> (string option \<times> dir) option" where
  "received_of (Received err d) = Some (err, d)"
| "received_of _ = None"

fun file_call_of :: "choice \<Rightarrow> worker_error option option" where
  "file_call_of (FileCall r) = Some r"
| "file_call_of _ = None"

fun process_of :: "choice \<Rightarrow> process option" where
  "process_of (Ran proc) = Some proc"
| "process_of _ = None"

fun report_of :: "choice \<Rightarrow> bool option" where
  "report_of (Report given_up) = Some given_up"
| "report_of _ = None"

text \<open>
  The loop over the commands, and where it leads: with an error the artifact is aborted, and a
  panic in it is the end.
\<close>

definition after_cmds :: "pool_cfg \<Rightarrow> JobSpec \<Rightarrow> os_env \<Rightarrow> process \<Rightarrow> Cache \<Rightarrow> ID list \<Rightarrow> cache_act option \<times> job_pc" where
  "after_cmds cfg spec env proc c held =
     (case run_cmds env (cf_render cfg (spec_Job spec)) proc (cf_resolve cfg) (Cmds (spec_Job spec))
             (new_result (spec_ID spec)) (case tmpDir c (spec_ID spec) of None \<Rightarrow> [] | Some d \<Rightarrow> d) of
        Returns (err, res, d) \<Rightarrow> (Some (WriteFiles (spec_ID spec) d),
          (case err of None \<Rightarrow> next_unlock held res | Some e \<Rightarrow> Aborting res e held))
      | _ \<Rightarrow> (None, Panicked held))"

text \<open>
  The action on the artifact cache a goroutine is about to do, if any, and where it is
  afterwards, for the moves that touch nothing else the goroutines share.
\<close>

fun job_move :: "pool_cfg \<Rightarrow> ID \<Rightarrow> JobSpec \<Rightarrow> os_env \<Rightarrow> choice \<Rightarrow> Cache \<Rightarrow> job_pc \<Rightarrow> (cache_act option \<times> job_pc) option" where
  "job_move cfg jobID spec env ch c (ArtGet i arts) = Some (Some (StartGet i),
     (case fst (readLock i c) of None \<Rightarrow> ArtStat i arts | Some e \<Rightarrow> get_failed cfg jobID i arts e))"
| "job_move cfg jobID spec env ch c (ArtStat i arts) = Some (Some (StatGet i),
     (case stat_entry env i c of None \<Rightarrow> ArtHit i arts | Some e \<Rightarrow> get_failed cfg jobID i arts e))"
| "job_move cfg jobID spec env ch c (ArtHit i arts) = Some (Some (EndRead i), next_art arts)"
| "job_move cfg jobID spec env ch c (ArtRequest i arts) = map_option (\<lambda>r. (None,
     (case r of None \<Rightarrow> ArtCreate i arts | Some e \<Rightarrow> fetch_failed cfg jobID (FetchArtifact e)))) (reply_of ch)"
| "job_move cfg jobID spec env ch c (ArtCreate i arts) = Some (Some (StartCreate i),
     (case fst (writeLock env i False c) of
        None \<Rightarrow> ArtMkdir i arts
      | Some e \<Rightarrow> fetch_failed cfg jobID (FetchArtifact (ArtEntryFailed e))))"
| "job_move cfg jobID spec env ch c (ArtMkdir i arts) = Some (Some (MkdirCreate i),
     (case fst (make_dir env i c) of
        None \<Rightarrow> ArtReceive i arts
      | Some e \<Rightarrow> Free i (fetch_failed cfg jobID (FetchArtifact (ArtEntryFailed e)))))"
| "job_move cfg jobID spec env ch c (ArtReceive i arts) = map_option (\<lambda>(err, d). (Some (WriteFiles i d),
     (case err of None \<Rightarrow> ArtCommit i arts | Some e \<Rightarrow> ArtAbort i e))) (received_of ch)"
| "job_move cfg jobID spec env ch c (ArtCommit i arts) = Some (Some (CommitRename i), Free i
     (case fst (commit_dir env i c) of
        None \<Rightarrow> next_art arts
      | Some e \<Rightarrow> fetch_failed cfg jobID (FetchArtifact (ArtCommitFailed e))))"
| "job_move cfg jobID spec env ch c (ArtAbort i e) = Some (Some (AbortRemove i),
     Free i (fetch_failed cfg jobID (FetchArtifact (ArtReceiveFailed e (fst (abort_dir env i c))))))"
| "job_move cfg jobID spec env ch c (Free i pc) = Some (Some (Release i), pc)"
| "job_move cfg jobID spec env ch c Files = map_option (\<lambda>r. (None,
     (case r of None \<Rightarrow> Linking | Some e \<Rightarrow> fetch_failed cfg jobID e))) (file_call_of ch)"
| "job_move cfg jobID spec env ch c Linking = map_option (\<lambda>r. (None,
     (case r of None \<Rightarrow> Creating | Some e \<Rightarrow> exec_failed cfg (new_result (spec_ID spec)) e []))) (file_call_of ch)"
| "job_move cfg jobID spec env ch c Creating = Some (Some (StartCreate (spec_ID spec)),
     (case fst (writeLock env (spec_ID spec) False c) of
        None \<Rightarrow> Mkdiring
      | Some e \<Rightarrow> exec_failed cfg (new_result (spec_ID spec)) (ArtErr e) []))"
| "job_move cfg jobID spec env ch c Mkdiring = Some (Some (MkdirCreate (spec_ID spec)),
     (case fst (make_dir env (spec_ID spec) c) of
        None \<Rightarrow> next_dep (Deps (spec_Job spec)) []
      | Some e \<Rightarrow> Free (spec_ID spec) (exec_failed cfg (new_result (spec_ID spec)) (ArtErr e) [])))"
| "job_move cfg jobID spec env ch c (DepLock d ds held) = Some (Some (StartGet d),
     (case fst (readLock d c) of None \<Rightarrow> DepStat d ds held | Some e \<Rightarrow> Panicked held))"
| "job_move cfg jobID spec env ch c (DepStat d ds held) = Some (Some (StatGet d),
     (case stat_entry env d c of None \<Rightarrow> next_dep ds (held @ [d]) | Some e \<Rightarrow> Panicked held))"
| "job_move cfg jobID spec env ch c (Running held) =
     map_option (\<lambda>proc. after_cmds cfg spec env proc c held) (process_of ch)"
| "job_move cfg jobID spec env ch c (Unlocking d ds res) = Some (Some (EndRead d), next_unlock ds res)"
| "job_move cfg jobID spec env ch c (Committing res) = Some (Some (CommitRename (spec_ID spec)),
     Free (spec_ID spec)
       (case fst (commit_dir env (spec_ID spec) c) of
          None \<Rightarrow> Storing res
        | Some e \<Rightarrow> exec_failed cfg res (CommitErr e) []))"
| "job_move cfg jobID spec env ch c (Aborting res e held) = Some (Some (AbortRemove (spec_ID spec)),
     Free (spec_ID spec) (exec_failed cfg res
       (case fst (abort_dir env (spec_ID spec) c) of None \<Rightarrow> CmdErr e | Some a \<Rightarrow> AbortErr a) held))"
| "job_move cfg jobID spec env ch c pc = None"

section \<open>The machine\<close>

text \<open>
  \<open>pl_pcs ! k\<close> is where the goroutine of job \<open>pl_jobs ! k\<close> is; \<open>pl_served\<close> what the goroutines
  of the artifact handler are doing.
\<close>

record pool =
  pl_jobs :: "(ID \<times> JobSpec) list"
  pl_pcs :: "job_pc list"
  pl_cache :: cache_sys
  pl_served :: "act multiset"
  pl_results :: "(ID, JobResult) SyncMap"
  pl_state :: workerState
  pl_metrics :: workerMetrics

datatype pool_act =
    Step nat os_env choice         \<comment> \<open>the next move of a job's goroutine\<close>
  | Serve os_env cache_act         \<comment> \<open>a move of the artifact handler\<close>

definition pl_goto :: "nat \<Rightarrow> job_pc \<Rightarrow> pool \<Rightarrow> pool" where
  "pl_goto k pc p = p\<lparr>pl_pcs := (pl_pcs p)[k := pc]\<rparr>"

text \<open>The handler gets an artifact, sends it and unlocks it.\<close>

fun serve_move :: "os_env \<Rightarrow> cache_act \<Rightarrow> Cache \<Rightarrow> act multiset \<Rightarrow> act multiset option" where
  "serve_move env (StartGet i) c V =
     Some (if fst (readLock i c) = None then add_mset (GetLocked i) V else V)"
| "serve_move env (StatGet i) c V =
     (if GetLocked i \<notin># V then None
      else Some (V - {#GetLocked i#} + (if stat_entry env i c = None then {#Reading i#} else {#})))"
| "serve_move env (EndRead i) c V = (if Reading i \<notin># V then None else Some (V - {#Reading i#}))"
| "serve_move env l c V = None"

text \<open>A goroutine that panics ends the process: nothing moves any more.\<close>

definition crashed :: "pool \<Rightarrow> bool" where
  "crashed p \<longleftrightarrow> (\<exists>pc \<in> set (pl_pcs p). case pc of Panicked held \<Rightarrow> True | _ \<Rightarrow> False)"

definition goroutine_step :: "pool_cfg \<Rightarrow> nat \<Rightarrow> os_env \<Rightarrow> choice \<Rightarrow> pool \<Rightarrow> pool option" where
  "goroutine_step cfg k env ch p =
     (let (jobID, spec) = pl_jobs p ! k in
      case pl_pcs p ! k of
        Scheduled \<Rightarrow> Some (pl_goto k Loading (p\<lparr>pl_metrics := scheduleTask (pl_metrics p)\<rparr>))
      | Loading \<Rightarrow> Some (pl_goto k
          (case Load (pl_results p) jobID of
             Some res \<Rightarrow> Reporting res []
           | None \<Rightarrow> next_art (Artifacts spec)) p)
      | Storing res \<Rightarrow> Some (pl_goto k (Reporting res [])
          (p\<lparr>pl_results := Store (pl_results p) jobID res\<rparr>))
      | Reporting res held \<Rightarrow>
          map_option (\<lambda>given_up. pl_goto k (Done held)
            (p\<lparr>pl_metrics := doneTask (pl_metrics p), pl_state := addJobResult given_up res (pl_state p)\<rparr>))
            (report_of ch)
      | pc \<Rightarrow>
          (case job_move cfg jobID spec env ch (shared (pl_cache p)) pc of
             None \<Rightarrow> None
           | Some (None, pc') \<Rightarrow> Some (pl_goto k pc' p)
           | Some (Some l, pc') \<Rightarrow>
               map_option (\<lambda>s. pl_goto k pc' (p\<lparr>pl_cache := s\<rparr>)) (cache_step (pl_cache p) (env, l))))"

fun pool_step :: "pool_cfg \<Rightarrow> pool \<Rightarrow> pool_act \<Rightarrow> pool option" where
  "pool_step cfg p (Step k env ch) =
     (if crashed p \<or> \<not> k < length (pl_pcs p) then None else goroutine_step cfg k env ch p)"
| "pool_step cfg p (Serve env l) =
     (if crashed p then None
      else case serve_move env l (shared (pl_cache p)) (pl_served p) of
        None \<Rightarrow> None
      | Some V \<Rightarrow> map_option (\<lambda>s. p\<lparr>pl_cache := s, pl_served := V\<rparr>) (cache_step (pl_cache p) (env, l)))"

text \<open>
  A pool at the start of a cycle: none of the jobs has started; the keys of \<open>JobsToRun\<close> are the
  identifiers of the specifications, and they differ; the cache is in a state some interleaving
  of calls on a new cache leads to, in which nothing is being written and everybody who reads is
  a goroutine of the handler or of an earlier job that failed.
\<close>

definition pool_start :: "pool \<Rightarrow> bool" where
  "pool_start p \<longleftrightarrow> is_go_map (pl_jobs p) \<and> (\<forall>(i, spec) \<in> set (pl_jobs p). spec_ID spec = i) \<and>
     pl_pcs p = replicate (length (pl_jobs p)) Scheduled \<and> store_inv (pl_cache p) \<and>
     acts (pl_cache p) = pl_served p \<and> (\<forall>a \<in># pl_served p. \<exists>i. a = GetLocked i \<or> a = Reading i)"

end
