(* ===== verification/Pool_Invariant.thy ===== *)
theory Pool_Invariant
  imports Worker_Pool
begin

text \<open>
  The invariant of a pool of job goroutines: the activities in the shared artifact cache are
  those of the handler and those the goroutines' places say.
\<close>

section \<open>Adding up the goroutines\<close>

definition pool_sum :: "(ID \<times> JobSpec \<Rightarrow> job_pc \<Rightarrow> 'a::comm_monoid_add) \<Rightarrow> (ID \<times> JobSpec) list \<Rightarrow> job_pc list \<Rightarrow> 'a" where
  "pool_sum f js pcs = sum_list (map2 f js pcs)"

definition pool_acts :: "(ID \<times> JobSpec) list \<Rightarrow> job_pc list \<Rightarrow> act multiset" where
  "pool_acts = pool_sum (\<lambda>j. pc_acts (fst j))"

definition pool_inv :: "pool \<Rightarrow> bool" where
  [inv_defs]: "pool_inv p \<longleftrightarrow> store_inv (pl_cache p) \<and> length (pl_pcs p) = length (pl_jobs p) \<and>
     (\<forall>(i, spec) \<in> set (pl_jobs p). spec_ID spec = i) \<and>
     acts (pl_cache p) = pl_served p + pool_acts (pl_jobs p) (pl_pcs p)"

lemma pool_sum_update:
  assumes "k < length pcs" "length js = length pcs"
  obtains R where "\<And>pc. pool_sum f js (pcs[k := pc]) = f (js ! k) pc + R"
    "pool_sum f js pcs = f (js ! k) (pcs ! k) + R"
proof -
  have "\<exists>R. \<forall>pc. pool_sum f js (pcs[k := pc]) = f (js ! k) pc + R"
    using assms(2,1)
  proof (induction js pcs arbitrary: k rule: list_induct2)
    case (Cons j js q pcs)
    show ?case
    proof (cases k)
      case 0
      then show ?thesis by (auto simp: pool_sum_def)
    next
      case (Suc l)
      with Cons obtain R where "\<forall>pc. pool_sum f js (pcs[l := pc]) = f (js ! l) pc + R"
        by auto
      then show ?thesis
        by (intro exI [of _ "f j q + R"]) (simp add: Suc pool_sum_def ac_simps)
    qed
  qed simp
  then obtain R where R: "\<And>pc. pool_sum f js (pcs[k := pc]) = f (js ! k) pc + R"
    by blast
  from R [of "pcs ! k"] have "pool_sum f js pcs = f (js ! k) (pcs ! k) + R" by simp
  with R that show thesis by blast
qed

lemmas pool_acts_update = pool_sum_update [where f = "\<lambda>j. pc_acts (fst j)", folded pool_acts_def]

lemma pool_sum_const: "length js = length pcs \<Longrightarrow> \<forall>pc \<in> set pcs. \<forall>j. f j pc = g j \<Longrightarrow>
    pool_sum f js pcs = sum_list (map g js)"
  by (induction js pcs rule: list_induct2) (auto simp: pool_sum_def)

lemma pc_acts_next [simp]:
  "pc_acts me (next_art arts) = {#}"
  "pc_acts me (next_dep ds held) = add_mset (Writing me) (image_mset Reading (mset held))"
  "pc_acts me (next_unlock ds res) = add_mset (Writing me) (image_mset Reading (mset ds))"
  "pc_acts me (fetch_failed cfg i e) = {#}"
  "pc_acts me (exec_failed cfg res e held) = image_mset Reading (mset held)"
  "pc_acts me (get_failed cfg i j arts ge) = {#}"
proof -
  show "pc_acts me (next_art arts) = {#}"
    by (cases arts rule: next_art.cases) simp_all
  show "pc_acts me (next_dep ds held) = add_mset (Writing me) (image_mset Reading (mset held))"
    "pc_acts me (next_unlock ds res) = add_mset (Writing me) (image_mset Reading (mset ds))"
    by (cases ds; simp)+
qed (simp_all add: fetch_failed_def exec_failed_def get_failed_def)

lemma pool_sum_scheduled: "(\<And>j. f j Scheduled = 0) \<Longrightarrow> pool_sum f js (replicate (length js) Scheduled) = 0"
  by (induction js) (simp_all add: pool_sum_def)

section \<open>A move keeps the count\<close>

lemma becomes_eq:
  "becomes s a B c = Some t \<longleftrightarrow> a \<in># acts s \<and> t = \<lparr>shared = c, acts = acts s - {#a#} + B\<rparr>"
  by (auto simp: becomes_def)

lemma after_cmds_acts:
  "after_cmds cfg spec env proc c held = (l, pc') \<Longrightarrow> spec_ID spec = me \<Longrightarrow>
     pc_acts me pc' = pc_acts me (Running held) \<and> (\<forall>l'. l = Some l' \<longrightarrow> (\<exists>d. l' = WriteFiles me d))"
  by (auto simp: after_cmds_def split: go.splits option.splits)

lemma quiet_move_acts:
  assumes "job_move cfg jobID spec env ch c pc = Some (None, pc')" "spec_ID spec = me"
  shows "pc_acts me pc' = pc_acts me pc"
  using assms
  by (cases pc) (auto split: option.splits dest: after_cmds_acts)

lemma cache_move_acts:
  assumes "job_move cfg jobID spec env ch (shared s) pc = Some (Some l, pc')" "spec_ID spec = me"
    and "cache_step s (env, l) = Some t" "acts s = pc_acts me pc + R"
  shows "acts t = pc_acts me pc' + R"
  using assms
  by (cases pc)
     (auto simp: becomes_eq split: option.splits prod.splits if_splits dest!: after_cmds_acts)

section \<open>Steps\<close>

lemma goroutine_step_move:
  assumes "pl_pcs p ! k \<noteq> Scheduled" "pl_pcs p ! k \<noteq> Loading" "\<forall>res. pl_pcs p ! k \<noteq> Storing res"
    "\<forall>res held. pl_pcs p ! k \<noteq> Reporting res held" "pl_jobs p ! k = (i, spec)"
  shows "goroutine_step cfg k env ch p =
    (case job_move cfg i spec env ch (shared (pl_cache p)) (pl_pcs p ! k) of
       None \<Rightarrow> None
     | Some (None, pc') \<Rightarrow> Some (pl_goto k pc' p)
     | Some (Some l, pc') \<Rightarrow>
         map_option (\<lambda>s. pl_goto k pc' (p\<lparr>pl_cache := s\<rparr>)) (cache_step (pl_cache p) (env, l)))"
  using assms
  by (cases "pl_pcs p ! k") (simp_all add: goroutine_step_def del: job_move.simps)

text \<open>What a step of a goroutine can be: its place and what it changes beside it.\<close>

lemma goroutine_step_cases:
  assumes "goroutine_step cfg k env ch p = Some q" "pl_jobs p ! k = (i, spec)"
  obtains (start) "pl_pcs p ! k = Scheduled"
      "q = pl_goto k Loading (p\<lparr>pl_metrics := scheduleTask (pl_metrics p)\<rparr>)"
  | (hit) res where "pl_pcs p ! k = Loading" "Load (pl_results p) i = Some res"
      "q = pl_goto k (Reporting res []) p"
  | (fetch) "pl_pcs p ! k = Loading" "Load (pl_results p) i = None" "q = pl_goto k (next_art (Artifacts spec)) p"
  | (store) res where "pl_pcs p ! k = Storing res"
      "q = pl_goto k (Reporting res []) (p\<lparr>pl_results := Store (pl_results p) i res\<rparr>)"
  | (report) res held given_up where "pl_pcs p ! k = Reporting res held" "ch = Report given_up"
      "q = pl_goto k (Done held) (p\<lparr>pl_metrics := doneTask (pl_metrics p),
         pl_state := addJobResult given_up res (pl_state p)\<rparr>)"
  | (quiet) pc where "job_move cfg i spec env ch (shared (pl_cache p)) (pl_pcs p ! k) = Some (None, pc)"
      "q = pl_goto k pc p"
  | (cache) l pc s where "job_move cfg i spec env ch (shared (pl_cache p)) (pl_pcs p ! k) = Some (Some l, pc)"
      "cache_step (pl_cache p) (env, l) = Some s" "q = pl_goto k pc (p\<lparr>pl_cache := s\<rparr>)"
proof -
  have choice: "report_of ch = Some g \<Longrightarrow> ch = Report g" for g
    by (cases ch) simp_all
  show thesis
  proof (cases "pl_pcs p ! k = Scheduled \<or> pl_pcs p ! k = Loading \<or> (\<exists>res. pl_pcs p ! k = Storing res) \<or>
      (\<exists>res held. pl_pcs p ! k = Reporting res held)")
    case True
    then consider (s) "pl_pcs p ! k = Scheduled" | (l) "pl_pcs p ! k = Loading"
      | (st) res where "pl_pcs p ! k = Storing res" | (r) res held where "pl_pcs p ! k = Reporting res held"
      by blast
    then show thesis
    proof cases
      case s
      with assms start show thesis by (simp add: goroutine_step_def)
    next
      case l
      with assms hit fetch show thesis by (cases "Load (pl_results p) i") (simp_all add: goroutine_step_def)
    next
      case st
      with assms store show thesis by (simp add: goroutine_step_def)
    next
      case r
      with assms report choice show thesis by (auto simp: goroutine_step_def)
    qed
  next
    case False
    then have "goroutine_step cfg k env ch p =
      (case job_move cfg i spec env ch (shared (pl_cache p)) (pl_pcs p ! k) of
         None \<Rightarrow> None
       | Some (None, pc') \<Rightarrow> Some (pl_goto k pc' p)
       | Some (Some l, pc') \<Rightarrow>
           map_option (\<lambda>s. pl_goto k pc' (p\<lparr>pl_cache := s\<rparr>)) (cache_step (pl_cache p) (env, l)))"
      using assms(2) by (intro goroutine_step_move) auto
    with assms(1) show thesis
      by (auto split: option.splits prod.splits intro: quiet cache)
  qed
qed

text \<open>A step of a goroutine moves one place, and the cache follows.\<close>

lemma pool_inv_goto:
  assumes inv: "pool_inv p" and k: "k < length (pl_pcs p)"
    and q: "pl_jobs q = pl_jobs p" "pl_pcs q = (pl_pcs p)[k := pc]" "pl_served q = pl_served p"
    and store: "store_inv (pl_cache q)"
    and acts: "\<And>R. acts (pl_cache p) = pc_acts (fst (pl_jobs p ! k)) (pl_pcs p ! k) + R \<Longrightarrow>
      acts (pl_cache q) = pc_acts (fst (pl_jobs p ! k)) pc + R"
  shows "pool_inv q"
proof -
  from inv k obtain R where R: "pool_acts (pl_jobs p) ((pl_pcs p)[k := pc]) = pc_acts (fst (pl_jobs p ! k)) pc + R"
    "pool_acts (pl_jobs p) (pl_pcs p) = pc_acts (fst (pl_jobs p ! k)) (pl_pcs p ! k) + R"
    using pool_acts_update by (metis pool_inv_def)
  with inv acts [of "pl_served p + R"] show ?thesis
    using store by (simp add: pool_inv_def q ac_simps)
qed

text \<open>One goroutine's share of the activities.\<close>

lemma pool_share:
  assumes "pool_inv p" "k < length (pl_pcs p)" "pl_jobs p ! k = (i, spec)"
  obtains R where "acts (pl_cache p) = pc_acts i (pl_pcs p ! k) + R"
proof -
  from assms(1) have "length (pl_jobs p) = length (pl_pcs p)"
    by (simp add: pool_inv_def)
  with assms(2) obtain R where "pool_acts (pl_jobs p) (pl_pcs p) = pc_acts (fst (pl_jobs p ! k)) (pl_pcs p ! k) + R"
    by (rule pool_acts_update)
  with assms(1,3) that [of "pl_served p + R"] show thesis
    by (simp add: pool_inv_def ac_simps)
qed

lemma pool_inv_Step:
  assumes inv: "pool_inv p" and k: "k < length (pl_pcs p)" and step: "goroutine_step cfg k env ch p = Some q"
  shows "pool_inv q"
proof -
  obtain i spec where job: "pl_jobs p ! k = (i, spec)" by fastforce
  from inv have store: "store_inv (pl_cache p)" by (simp add: pool_inv_def)
  from inv k job have spec: "spec_ID spec = i"
    by (auto simp: pool_inv_def dest!: nth_mem [of k "pl_jobs p"])
  note goto = pool_inv_goto [OF inv k]
  from step job show ?thesis
  proof (cases rule: goroutine_step_cases)
    case (quiet pc)
    with goto [of q pc] store quiet_move_acts [OF quiet(1) spec] job show ?thesis
      by (simp add: pl_goto_def)
  next
    case (cache l pc s)
    with goto [of q pc] st.step_inv [OF store cache(2)] cache_move_acts [OF cache(1) spec cache(2)] job
    show ?thesis by (simp add: pl_goto_def)
  qed (use store in \<open>auto simp: pl_goto_def intro: goto\<close>)
qed

lemma pool_inv_Serve:
  assumes inv: "pool_inv p" and move: "serve_move env l (shared (pl_cache p)) (pl_served p) = Some V"
    and step: "cache_step (pl_cache p) (env, l) = Some s"
  shows "pool_inv (p\<lparr>pl_cache := s, pl_served := V\<rparr>)"
proof -
  let ?R = "pool_acts (pl_jobs p) (pl_pcs p)"
  from inv have "acts (pl_cache p) = pl_served p + ?R" "store_inv (pl_cache p)"
    by (simp_all add: pool_inv_def)
  then have "acts s = V + ?R"
    using move step
    by (cases "(env, l, shared (pl_cache p), pl_served p)" rule: serve_move.cases)
      (auto simp: becomes_eq split: if_splits prod.splits option.splits)
  with inv st.step_inv [OF \<open>store_inv (pl_cache p)\<close> step] show ?thesis
    by (simp add: pool_inv_def)
qed

lemma pool_inv_step: "pool_inv p \<Longrightarrow> pool_step cfg p a = Some q \<Longrightarrow> pool_inv q"
  using pool_inv_Step pool_inv_Serve
  by (cases a) (auto split: if_splits option.splits)

lemma pool_inv_start: "pool_start p \<Longrightarrow> pool_inv p"
  by (simp add: pool_start_def pool_inv_def pool_acts_def pool_sum_scheduled)

interpretation pl: invariant_machine "pool_step cfg" pool_start pool_inv for cfg
  by unfold_locales (fact pool_inv_start pool_inv_step)+

end
