(* ===== verification/Pool_Properties.thy ===== *)
theory Pool_Properties
  imports Pool_Invariant
begin

text \<open>
  What the goroutines of a pool do together: no goroutine panics over a dependency, all of them
  end, each reports one result, and the locks they leave behind are those of failed jobs.
\<close>

section \<open>Artifacts that are there to stay\<close>

definition settled :: "Cache \<Rightarrow> ID \<Rightarrow> bool" where
  "settled c i \<longleftrightarrow> cacheDir c i \<noteq> None \<and> i \<notin> writeLocked c"

text \<open>No goroutine of a worker removes an artifact, so an artifact that is there stays there.\<close>

fun removes :: "cache_act \<Rightarrow> bool" where
  "removes (StartRemove i) = True"
| "removes (DeleteRemove i) = True"
| "removes l = False"

lemma step_keeps:
  assumes "cache_step s (env, l) = Some t" "\<not> removes l"
  shows "cacheDir (shared s) d \<noteq> None \<Longrightarrow> cacheDir (shared t) d \<noteq> None"
    and "settled (shared s) d \<Longrightarrow> settled (shared t) d"
  using assms
  by (cases l;
      auto simp: becomes_eq settled_def cache_parts Let_def
        split: option.splits prod.splits if_splits os_error.splits)+

lemma job_move_removes:
  "job_move cfg jobID spec env ch c pc = Some (Some l, pc') \<Longrightarrow> \<not> removes l"
  by (cases pc) (auto dest!: after_cmds_acts)

lemma serve_move_removes: "serve_move env l c V = Some W \<Longrightarrow> \<not> removes l"
  by (cases "(env, l, c, V)" rule: serve_move.cases) auto

section \<open>What a goroutine relies on\<close>

text \<open>
  The dependencies a goroutine has seen or fetched are settled; one it has just committed is
  there but still write-locked.
\<close>

fun pc_needs :: "JobSpec \<Rightarrow> job_pc \<Rightarrow> ID set" where
  "pc_needs spec (ArtGet i arts) = set (Deps (spec_Job spec)) - insert i (fst ` set arts)"
| "pc_needs spec (ArtStat i arts) = set (Deps (spec_Job spec)) - insert i (fst ` set arts)"
| "pc_needs spec (ArtHit i arts) = set (Deps (spec_Job spec)) - insert i (fst ` set arts)"
| "pc_needs spec (ArtRequest i arts) = set (Deps (spec_Job spec)) - insert i (fst ` set arts)"
| "pc_needs spec (ArtCreate i arts) = set (Deps (spec_Job spec)) - insert i (fst ` set arts)"
| "pc_needs spec (ArtMkdir i arts) = set (Deps (spec_Job spec)) - insert i (fst ` set arts)"
| "pc_needs spec (ArtReceive i arts) = set (Deps (spec_Job spec)) - insert i (fst ` set arts)"
| "pc_needs spec (ArtCommit i arts) = set (Deps (spec_Job spec)) - insert i (fst ` set arts)"
| "pc_needs spec (Free j pc) = pc_needs spec pc - {j}"
| "pc_needs spec Files = set (Deps (spec_Job spec))"
| "pc_needs spec Linking = set (Deps (spec_Job spec))"
| "pc_needs spec Creating = set (Deps (spec_Job spec))"
| "pc_needs spec Mkdiring = set (Deps (spec_Job spec))"
| "pc_needs spec (DepLock d ds held) = insert d (set ds)"
| "pc_needs spec (DepStat d ds held) = insert d (set ds)"
| "pc_needs spec pc = {}"

fun pc_owed :: "JobSpec \<Rightarrow> job_pc \<Rightarrow> ID set" where
  "pc_owed spec (Free j pc) = pc_needs spec pc \<inter> {j} \<union> pc_owed spec pc"
| "pc_owed spec pc = {}"

definition relies :: "Cache \<Rightarrow> JobSpec \<Rightarrow> job_pc \<Rightarrow> bool" where
  "relies c spec pc \<longleftrightarrow> (\<forall>d \<in> pc_needs spec pc. settled c d) \<and> (\<forall>d \<in> pc_owed spec pc. cacheDir c d \<noteq> None)"

fun panicked :: "job_pc \<Rightarrow> bool" where
  "panicked (Panicked held) = True"
| "panicked (Free j pc) = panicked pc"
| "panicked pc = False"

lemma not_crashed: "\<forall>pc \<in> set (pl_pcs p). \<not> panicked pc \<Longrightarrow> \<not> crashed p"
  unfolding crashed_def by (force split: job_pc.splits)

lemma pc_needs_next [simp]:
  "pc_needs spec (next_art arts) = set (Deps (spec_Job spec)) - fst ` set arts"
  "pc_needs spec (next_dep ds held) = set ds"
  "pc_needs spec (next_unlock ds res) = {}"
  "pc_needs spec (fetch_failed cfg i e) = {}"
  "pc_needs spec (exec_failed cfg res e' held) = {}"
  "pc_owed spec (next_art arts) = {}" "pc_owed spec (next_dep ds held) = {}"
  "pc_owed spec (next_unlock ds res) = {}" "pc_owed spec (fetch_failed cfg i e) = {}"
  "pc_owed spec (exec_failed cfg res e' held) = {}"
  "\<not> panicked (next_art arts)" "\<not> panicked (next_dep ds held)" "\<not> panicked (next_unlock ds res)"
  "\<not> panicked (fetch_failed cfg i e)" "\<not> panicked (exec_failed cfg res e' held)"
proof -
  show "pc_needs spec (next_art arts) = set (Deps (spec_Job spec)) - fst ` set arts"
    "pc_owed spec (next_art arts) = {}" "\<not> panicked (next_art arts)"
    by (cases arts rule: next_art.cases; simp)+
  show "pc_needs spec (next_dep ds held) = set ds" "pc_owed spec (next_dep ds held) = {}"
    "\<not> panicked (next_dep ds held)" "pc_needs spec (next_unlock ds res) = {}"
    "pc_owed spec (next_unlock ds res) = {}" "\<not> panicked (next_unlock ds res)"
    by (cases ds; simp)+
qed (simp_all add: fetch_failed_def exec_failed_def)

text \<open>A specification the worker can run without a panic: see the signal for why it is so.\<close>

definition runnable :: "pool_cfg \<Rightarrow> JobSpec \<Rightarrow> bool" where
  "runnable cfg spec \<longleftrightarrow> set (Deps (spec_Job spec)) \<subseteq> fst ` set (Artifacts spec) \<and>
     (\<forall>cmd \<in> set (Cmds (spec_Job spec)). \<exists>c. cf_render cfg (spec_Job spec) cmd = Inr c)"

lemma run_cmds_returns:
  "\<forall>cmd \<in> set cmds. \<exists>c. rnd cmd = Inr c \<Longrightarrow> \<exists>r. run_cmds env rnd proc resolve cmds res d = Returns r"
proof (induction cmds arbitrary: res d)
  case (Cons cmd cmds)
  then obtain c where "rnd cmd = Inr c" by auto
  with Cons show ?case by (auto simp: Let_def split: prod.split option.split)
qed simp

lemma after_cmds_safe:
  assumes "after_cmds cfg spec env proc c held = (l, pc')" "runnable cfg spec"
  shows "\<not> panicked pc' \<and> pc_needs spec pc' = {} \<and> pc_owed spec pc' = {}"
proof -
  from assms(2) have "\<forall>cmd \<in> set (Cmds (spec_Job spec)). \<exists>c. cf_render cfg (spec_Job spec) cmd = Inr c"
    by (simp add: runnable_def)
  then obtain err res d where "run_cmds env (cf_render cfg (spec_Job spec)) proc (cf_resolve cfg)
      (Cmds (spec_Job spec)) (new_result (spec_ID spec))
      (case tmpDir c (spec_ID spec) of None \<Rightarrow> [] | Some d \<Rightarrow> d) = Returns (err, res, d)"
    using run_cmds_returns by (metis prod_cases3)
  with assms(1) show ?thesis
    by (auto simp: after_cmds_def split: option.splits)
qed

lemma relies_mono:
  assumes "relies c spec pc" "pc_needs spec pc' \<subseteq> pc_needs spec pc" "pc_owed spec pc' = {}"
    and "\<And>d. settled c d \<Longrightarrow> settled c' d"
  shows "relies c' spec pc'"
  using assms by (auto simp: relies_def)

lemma get_failed_relies:
  "relies c spec (ArtGet i arts) \<Longrightarrow> (\<And>d. settled c d \<Longrightarrow> settled c' d) \<Longrightarrow>
     relies c' spec (get_failed cfg jobID i arts e) \<and> \<not> panicked (get_failed cfg jobID i arts e)"
  by (auto simp: get_failed_def relies_def)

lemma relies_quiet_move:
  assumes "job_move cfg jobID spec env ch c pc = Some (None, pc')" "relies c spec pc" "runnable cfg spec"
  shows "relies c spec pc' \<and> \<not> panicked pc'"
  using assms
  by (cases pc) (auto simp: relies_def split: option.splits dest!: after_cmds_safe)

text \<open>
  A goroutine that has read an artifact, or has just released one it committed, knows that it is
  settled; one at a dependency finds it.
\<close>

lemma reading_settled:
  assumes "store_inv s" "Reading i \<in># acts s"
  shows "settled (shared s) i"
proof -
  from assms(1) have "cache_ok s i" by (simp add: store_inv_def cache_inv_entry)
  moreover from assms(2) have "0 < count (acts s) (Reading i)" by simp
  ultimately show ?thesis
    by (auto simp: cache_ok_def entry_ok_def settled_def split: if_splits simp del: count_greater_zero_iff)
qed

lemma settled_found:
  assumes "settled c d"
  shows "fst (readLock d c) = None"
    and "fault env SysStat = None \<Longrightarrow> stat_entry env d c = None"
  using assms by (auto simp: settled_def readLock_def stat_entry_def Stat_def)

lemma commit_present:
  assumes "store_inv s" "Writing i \<in># acts s" "cache_step s (env, CommitRename i) = Some t"
    and "fst (commit_dir env i (shared s)) = None"
  shows "cacheDir (shared t) i \<noteq> None"
proof -
  from assms(1,2) have "tmpDir (shared s) i \<noteq> None"
    by (auto simp: store_inv_def draft_ok_def)
  moreover obtain c where c: "commit_dir env i (shared s) = (None, c)"
    using assms(4) by (cases "commit_dir env i (shared s)") auto
  ultimately show ?thesis
    using assms(3) writer_dirs(3) [OF c, of i] by (auto simp: becomes_eq)
qed

lemma relies_cache_move:
  assumes move: "job_move cfg jobID spec env ch (shared s) pc = Some (Some l, pc')"
    and step: "cache_step s (env, l) = Some t" and inv: "store_inv s"
    and acts: "acts s = pc_acts (spec_ID spec) pc + R" and rel: "relies (shared s) spec pc"
    and run: "runnable cfg spec" and env: "fault env SysStat = None" and ok: "\<not> panicked pc"
  shows "relies (shared t) spec pc' \<and> \<not> panicked pc'"
proof -
  note keep = step_keeps [OF step job_move_removes [OF move]]
  note mono = relies_mono [OF rel _ _ keep(2)]
  show ?thesis
  proof (cases pc)
    case (ArtGet i arts)
    with move mono get_failed_relies [OF rel [unfolded ArtGet] keep(2)] show ?thesis
      by (auto split: option.splits)
  next
    case (ArtStat i arts)
    from rel ArtStat have "relies (shared s) spec (ArtGet i arts)" by (simp add: relies_def)
    from ArtStat move mono get_failed_relies [OF this keep(2)] show ?thesis
      by (auto split: option.splits)
  next
    case (ArtHit i arts)
    from acts ArtHit have "settled (shared s) i" by (intro reading_settled [OF inv]) simp
    then have "settled (shared t) d" if "d \<in> set (Deps (spec_Job spec)) - fst ` set arts" for d
      using rel ArtHit keep(2) that by (cases "d = i") (auto simp: relies_def)
    with ArtHit move show ?thesis by (auto simp: relies_def)
  next
    case (ArtCommit i arts)
    with move have l: "l = CommitRename i" by auto
    from acts ArtCommit have "Writing i \<in># acts s" by simp
    from commit_present [OF inv this step [unfolded l]] rel ArtCommit move keep(2) show ?thesis
      by (auto simp: relies_def split: option.splits)
  next
    case (Free j q)
    with move ok have q: "l = Release j" "pc' = q" "\<not> panicked q" by simp_all
    with step have t: "shared t = writeUnlock j (shared s)" by (auto simp: becomes_eq)
    have "settled (shared t) d" if "d \<in> pc_needs spec q" for d
      using rel Free that keep(2) by (cases "d = j") (auto simp: relies_def settled_def t writeUnlock_def)
    moreover have "cacheDir (shared t) d \<noteq> None" if "d \<in> pc_owed spec q" for d
      using rel Free that by (auto simp: relies_def t)
    ultimately show ?thesis using q by (simp add: relies_def)
  next
    case (DepLock d ds held)
    with rel have "settled (shared s) d" by (simp add: relies_def)
    from settled_found(1) [OF this] DepLock move mono show ?thesis by auto
  next
    case (DepStat d ds held)
    with rel have "settled (shared s) d" by (simp add: relies_def)
    from settled_found(2) [OF this env] DepStat move mono [of "next_dep ds (held @ [d])"] show ?thesis
      by (auto simp: subset_insertI)
  next
    case (Running held)
    with move run show ?thesis by (auto simp: relies_def dest!: after_cmds_safe)
  qed (use move mono in \<open>auto split: option.splits prod.splits\<close>)
qed

section \<open>No panic\<close>

definition pool_relies :: "pool \<Rightarrow> bool" where
  "pool_relies p \<longleftrightarrow> (\<forall>k < length (pl_pcs p).
     relies (shared (pl_cache p)) (snd (pl_jobs p ! k)) (pl_pcs p ! k) \<and> \<not> panicked (pl_pcs p ! k))"

fun act_env :: "pool_act \<Rightarrow> os_env" where
  "act_env (Step k env ch) = env"
| "act_env (Serve env l) = env"

lemma pool_step_jobs: "pool_step cfg p a = Some q \<Longrightarrow> pl_jobs q = pl_jobs p"
proof (cases a)
  case (Step k env ch)
  assume step: "pool_step cfg p a = Some q"
  obtain i spec where job: "pl_jobs p ! k = (i, spec)" by fastforce
  from Step step have "goroutine_step cfg k env ch p = Some q" by (simp split: if_splits)
  then show ?thesis
    using job by (cases rule: goroutine_step_cases) (simp_all add: pl_goto_def)
qed (auto split: if_splits option.splits)

lemma relies_goto:
  assumes "pool_relies p" "pl_jobs q = pl_jobs p" "pl_pcs q = (pl_pcs p)[k := pc]"
    and "relies (shared (pl_cache q)) (snd (pl_jobs p ! k)) pc \<and> \<not> panicked pc"
    and "\<And>d. settled (shared (pl_cache p)) d \<Longrightarrow> settled (shared (pl_cache q)) d"
    and "\<And>d. cacheDir (shared (pl_cache p)) d \<noteq> None \<Longrightarrow> cacheDir (shared (pl_cache q)) d \<noteq> None"
  shows "pool_relies q"
  unfolding pool_relies_def
proof (intro allI impI)
  fix j assume "j < length (pl_pcs q)"
  with assms show "relies (shared (pl_cache q)) (snd (pl_jobs q ! j)) (pl_pcs q ! j) \<and> \<not> panicked (pl_pcs q ! j)"
    by (cases "j = k") (auto simp: pool_relies_def relies_def)
qed

lemma pool_relies_Step:
  assumes inv: "pool_inv p" and rel: "pool_relies p" and k: "k < length (pl_pcs p)"
    and step: "goroutine_step cfg k env ch p = Some q"
    and run: "\<forall>(i, spec) \<in> set (pl_jobs p). runnable cfg spec" and env: "fault env SysStat = None"
  shows "pool_relies q"
proof -
  obtain i spec where job: "pl_jobs p ! k = (i, spec)" by fastforce
  from inv have store: "store_inv (pl_cache p)" by (simp add: pool_inv_def)
  from inv k run job have spec: "spec_ID spec = i" "runnable cfg spec"
    by (auto simp: pool_inv_def dest!: nth_mem [of k "pl_jobs p"])
  from rel k job have me: "relies (shared (pl_cache p)) spec (pl_pcs p ! k)" "\<not> panicked (pl_pcs p ! k)"
    by (auto simp: pool_relies_def)
  note goto = relies_goto [OF rel, of q k]
  from step job show ?thesis
  proof (cases rule: goroutine_step_cases)
    case fetch
    from spec(2) have "set (Deps (spec_Job spec)) - fst ` set (Artifacts spec) = {}"
      by (auto simp: runnable_def)
    with fetch job show ?thesis
      by (intro goto) (auto simp: pl_goto_def relies_def)
  next
    case (quiet pc)
    with relies_quiet_move [OF quiet(1) me(1) spec(2)] job show ?thesis
      by (intro goto) (auto simp: pl_goto_def)
  next
    case (cache l pc s)
    from inv k job obtain R where "acts (pl_cache p) = pc_acts i (pl_pcs p ! k) + R"
        by (rule pool_share)
    from relies_cache_move [OF cache(1,2) store this [folded spec(1)] me(1) spec(2) env me(2)]
      step_keeps [OF cache(2) job_move_removes [OF cache(1)]] cache(3) job
    show ?thesis by (intro goto) (auto simp: pl_goto_def)
  next
    case start
    then show ?thesis by (intro goto [where pc = Loading]) (simp_all add: pl_goto_def relies_def)
  next
    case (hit res)
    then show ?thesis by (intro goto [where pc = "Reporting res []"]) (simp_all add: pl_goto_def relies_def)
  next
    case (store res)
    then show ?thesis by (intro goto [where pc = "Reporting res []"]) (simp_all add: pl_goto_def relies_def)
  next
    case (report res held given_up)
    then show ?thesis by (intro goto [where pc = "Done held"]) (simp_all add: pl_goto_def relies_def)
  qed
qed

lemma pool_relies_step:
  assumes "pool_inv p" "pool_relies p" "pool_step cfg p a = Some q"
    and "\<forall>(i, spec) \<in> set (pl_jobs p). runnable cfg spec" "fault (act_env a) SysStat = None"
  shows "pool_relies q"
proof (cases a)
  case (Step k env ch)
  with assms pool_relies_Step [of p k cfg env ch q] show ?thesis
    by (simp split: if_splits)
next
  case (Serve env l)
  with assms(3) obtain s V where "serve_move env l (shared (pl_cache p)) (pl_served p) = Some V"
    "cache_step (pl_cache p) (env, l) = Some s" "q = p\<lparr>pl_cache := s, pl_served := V\<rparr>"
    by (auto split: if_splits option.splits)
  with assms(2) step_keeps [OF this(2) serve_move_removes [OF this(1)]] show ?thesis
    by (auto simp: pool_relies_def relies_def)
qed

lemma runs_relies:
  assumes "pool_start p" "run (pool_step cfg) p as = Some q"
    and "\<forall>(i, spec) \<in> set (pl_jobs p). runnable cfg spec" "\<forall>a \<in> set as. fault (act_env a) SysStat = None"
  shows "pool_relies q"
proof -
  have "pool_relies q \<and> pl_jobs q = pl_jobs p"
  proof (rule pl.run_stable [where Q = "\<lambda>a. fault (act_env a) SysStat = None",
        OF _ pool_inv_start [OF assms(1)] assms(2,4)])
    show "pool_relies p \<and> pl_jobs p = pl_jobs p"
      using assms(1) by (simp add: pool_start_def pool_relies_def relies_def)
    show "pool_relies t \<and> pl_jobs t = pl_jobs p"
      if "pool_inv s" "pool_step cfg s a = Some t" "fault (act_env a) SysStat = None"
        "pool_relies s \<and> pl_jobs s = pl_jobs p" for s a t
      using pool_relies_step [OF that(1) _ that(2) _ that(3)] that(4) assms(3) pool_step_jobs [OF that(2)]
      by simp
  qed
  then show ?thesis ..
qed

end
