(* ===== verification/Pool_Progress.thy ===== *)
theory Pool_Progress
  imports Pool_Properties
begin

text \<open>
  The goroutines of a pool never wait for each other - every lock of the cache is tried, not
  waited for - and each has a bounded number of moves: \<open>wg.Wait\<close> returns.
\<close>

section \<open>Moves left\<close>

text \<open>The moves from the end of the downloads on, for a job with \<open>n\<close> dependencies.\<close>

definition moves_art :: "JobSpec \<Rightarrow> nat \<Rightarrow> nat" where
  "moves_art spec n = 9 + 3 * length (Deps (spec_Job spec)) + 9 * n"

fun moves_left :: "JobSpec \<Rightarrow> job_pc \<Rightarrow> nat" where
  "moves_left spec Scheduled = moves_art spec (length (Artifacts spec)) + 2"
| "moves_left spec Loading = moves_art spec (length (Artifacts spec)) + 1"
| "moves_left spec (ArtGet i arts) = moves_art spec (length arts) + 9"
| "moves_left spec (ArtStat i arts) = moves_art spec (length arts) + 8"
| "moves_left spec (ArtHit i arts) = moves_art spec (length arts) + 1"
| "moves_left spec (ArtRequest i arts) = moves_art spec (length arts) + 7"
| "moves_left spec (ArtCreate i arts) = moves_art spec (length arts) + 6"
| "moves_left spec (ArtMkdir i arts) = moves_art spec (length arts) + 5"
| "moves_left spec (ArtReceive i arts) = moves_art spec (length arts) + 4"
| "moves_left spec (ArtCommit i arts) = moves_art spec (length arts) + 3"
| "moves_left spec (ArtAbort i e) = 3"
| "moves_left spec (Free i pc) = moves_left spec pc + 1"
| "moves_left spec Files = moves_art spec 0"
| "moves_left spec Linking = moves_art spec 0 - 1"
| "moves_left spec Creating = moves_art spec 0 - 2"
| "moves_left spec Mkdiring = moves_art spec 0 - 3"
| "moves_left spec (DepLock d ds held) = 5 + length held + 3 * (length ds + 1)"
| "moves_left spec (DepStat d ds held) = 5 + length held + 3 * length ds + 2"
| "moves_left spec (Running held) = 5 + length held"
| "moves_left spec (Unlocking d ds res) = 5 + length ds"
| "moves_left spec (Committing res) = 4"
| "moves_left spec (Aborting res e held) = 3"
| "moves_left spec (Storing res) = 2"
| "moves_left spec (Reporting res held) = 1"
| "moves_left spec (Done held) = 0"
| "moves_left spec (Panicked held) = 0"

lemma moves_left_next [simp]:
  "moves_left spec (next_art arts) = moves_art spec (length arts)"
  "moves_left spec (next_dep ds held) = 5 + length held + 3 * length ds"
  "moves_left spec (next_unlock ds res) = 4 + length ds"
  "moves_left spec (fetch_failed cfg i e) = 1"
  "moves_left spec (exec_failed cfg res e' held) = 1"
proof -
  show "moves_left spec (next_art arts) = moves_art spec (length arts)"
    by (cases arts rule: next_art.cases) (simp_all add: moves_art_def)
  show "moves_left spec (next_dep ds held) = 5 + length held + 3 * length ds"
    "moves_left spec (next_unlock ds res) = 4 + length ds"
    by (cases ds; simp)+
qed (simp_all add: fetch_failed_def exec_failed_def)

lemma after_cmds_moves:
  "after_cmds cfg spec env proc c held = (l, pc') \<Longrightarrow> moves_left spec pc' < 5 + length held"
  by (auto simp: after_cmds_def split: go.splits option.splits)

lemma move_decreases:
  assumes "job_move cfg i spec env ch c pc = Some (l, pc')"
  shows "moves_left spec pc' < moves_left spec pc"
  using assms
  by (cases pc)
     (auto simp: get_failed_def moves_art_def split: option.splits dest: after_cmds_moves)

definition pool_moves :: "pool \<Rightarrow> nat" where
  "pool_moves p = pool_sum (\<lambda>j. moves_left (snd j)) (pl_jobs p) (pl_pcs p)"

lemma goto_decreases:
  assumes "k < length (pl_pcs p)" "length (pl_jobs p) = length (pl_pcs p)"
    and "pl_jobs q = pl_jobs p" "pl_pcs q = (pl_pcs p)[k := pc]"
    and "moves_left (snd (pl_jobs p ! k)) pc < moves_left (snd (pl_jobs p ! k)) (pl_pcs p ! k)"
  shows "pool_moves q < pool_moves p"
proof -
  from assms(1,2) obtain R where
    "\<And>pc. pool_sum (\<lambda>j. moves_left (snd j)) (pl_jobs p) ((pl_pcs p)[k := pc]) = moves_left (snd (pl_jobs p ! k)) pc + R"
    "pool_sum (\<lambda>j. moves_left (snd j)) (pl_jobs p) (pl_pcs p) = moves_left (snd (pl_jobs p ! k)) (pl_pcs p ! k) + R"
    by (rule pool_sum_update [where f = "\<lambda>j. moves_left (snd j)"]) blast
  with assms(3-) show ?thesis by (simp add: pool_moves_def)
qed

fun is_step :: "pool_act \<Rightarrow> bool" where
  "is_step (Step k env ch) = True"
| "is_step (Serve env l) = False"

lemma step_decreases:
  assumes inv: "pool_inv p" and step: "pool_step cfg p a = Some q"
  shows "if is_step a then pool_moves q < pool_moves p else pool_moves q = pool_moves p"
proof (cases a)
  case (Step k env ch)
  with step have k: "k < length (pl_pcs p)" and go: "goroutine_step cfg k env ch p = Some q"
    by (simp_all split: if_splits)
  obtain i spec where job: "pl_jobs p ! k = (i, spec)" by fastforce
  from inv have len: "length (pl_jobs p) = length (pl_pcs p)" by (simp add: pool_inv_def)
  note dec = goto_decreases [OF k len, of q]
  from go job have "pool_moves q < pool_moves p"
  proof (cases rule: goroutine_step_cases)
    case (quiet pc)
    with move_decreases [OF quiet(1)] job show ?thesis
      by (intro dec [of pc]) (simp_all add: pl_goto_def)
  next
    case (cache l pc s)
    with move_decreases [OF cache(1)] job show ?thesis
      by (intro dec [of pc]) (simp_all add: pl_goto_def)
  next
    case start
    with job show ?thesis by (intro dec [of Loading]) (simp_all add: pl_goto_def)
  next
    case fetch
    with job show ?thesis by (intro dec [of "next_art (Artifacts spec)"]) (simp_all add: pl_goto_def)
  next
    case (hit res)
    with job show ?thesis by (intro dec [of "Reporting res []"]) (simp_all add: pl_goto_def moves_art_def)
  next
    case (store res)
    with job show ?thesis by (intro dec [of "Reporting res []"]) (simp_all add: pl_goto_def)
  next
    case (report res held given_up)
    with job show ?thesis by (intro dec [of "Done held"]) (simp_all add: pl_goto_def)
  qed
  with Step show ?thesis by simp
next
  case (Serve env l)
  with step show ?thesis by (auto simp: pool_moves_def split: if_splits option.splits)
qed

lemma run_moves:
  "pool_inv p \<Longrightarrow> run (pool_step cfg) p as = Some q \<Longrightarrow> length (filter is_step as) + pool_moves q \<le> pool_moves p"
proof (induction as arbitrary: p)
  case (Cons a as)
  then obtain u where u: "pool_step cfg p a = Some u" "run (pool_step cfg) u as = Some q"
    by (auto split: option.splits)
  with Cons pool_inv_step have "length (filter is_step as) + pool_moves q \<le> pool_moves u" by blast
  with step_decreases [OF Cons.prems(1) u(1)] show ?case
    by (cases "is_step a") simp_all
qed simp

section \<open>No goroutine is stuck\<close>

lemma cache_move_enabled:
  assumes "job_move cfg i spec env ch (shared s) pc = Some (Some l, pc')"
    and "acts s = pc_acts (spec_ID spec) pc + R"
  shows "\<exists>t. cache_step s (env, l) = Some t"
  using assms
  by (cases pc) (auto simp: becomes_eq split: option.splits prod.splits dest!: after_cmds_acts)

lemma job_move_enabled:
  assumes "moves_left spec pc \<noteq> 0" "pc \<noteq> Scheduled" "pc \<noteq> Loading" "\<forall>res. pc \<noteq> Storing res"
    "\<forall>res held. pc \<noteq> Reporting res held"
  shows "\<exists>ch r. job_move cfg i spec env ch c pc = Some r"
proof (cases pc)
  case (ArtRequest j arts)
  then show ?thesis by (intro exI [of _ "Reply None"]) simp
next
  case (ArtReceive j arts)
  then show ?thesis by (intro exI [of _ "Received None []"]) simp
next
  case Files
  then show ?thesis by (intro exI [of _ "FileCall None"]) simp
next
  case Linking
  then show ?thesis by (intro exI [of _ "FileCall None"]) simp
next
  case (Running held)
  then show ?thesis by (intro exI [of _ "Ran (\<lambda>_ d. (None, [], [], d))"]) simp
qed (use assms in simp_all)

lemma goroutine_enabled:
  assumes inv: "pool_inv p" and k: "k < length (pl_pcs p)"
    and left: "moves_left (snd (pl_jobs p ! k)) (pl_pcs p ! k) \<noteq> 0"
  shows "\<exists>ch q. goroutine_step cfg k env ch p = Some q"
proof -
  obtain i spec where job: "pl_jobs p ! k = (i, spec)" by fastforce
  let ?pc = "pl_pcs p ! k"
  show ?thesis
  proof (cases "?pc = Scheduled \<or> ?pc = Loading \<or> (\<exists>res. ?pc = Storing res) \<or> (\<exists>res held. ?pc = Reporting res held)")
    case True
    then show ?thesis
      by (auto simp: goroutine_step_def intro: exI [of _ "Report False"] split: prod.split)
  next
    case False
    with left job obtain ch l pc' where
      move: "job_move cfg i spec env ch (shared (pl_cache p)) ?pc = Some (l, pc')"
      using job_move_enabled [of spec ?pc cfg i env "shared (pl_cache p)"] by fastforce
    from inv k job have spec: "spec_ID spec = i"
      by (auto simp: pool_inv_def dest!: nth_mem [of k "pl_jobs p"])
    show ?thesis
    proof (cases l)
      case None
      with False move job show ?thesis
        by (intro exI [of _ ch]) (simp add: goroutine_step_move)
    next
      case (Some l')
      from inv k job obtain R where "acts (pl_cache p) = pc_acts i ?pc + R"
        by (rule pool_share)
      with cache_move_enabled move Some spec obtain t where "cache_step (pl_cache p) (env, l') = Some t"
        by metis
      with False move Some job show ?thesis
        by (intro exI [of _ ch]) (simp add: goroutine_step_move)
    qed
  qed
qed

end
