(* ===== verification/Pool_Reports.thy ===== *)
theory Pool_Reports
  imports Pool_Progress
begin

text \<open>
  What a pool has recorded when all its goroutines have ended: one result per job in the state
  the next heartbeat reports, the metrics, and the locks that are left in the artifact cache.
\<close>

section \<open>Results\<close>

fun is_done :: "job_pc \<Rightarrow> bool" where
  "is_done (Done held) = True"
| "is_done pc = False"

fun under_way :: "job_pc \<Rightarrow> bool" where
  "under_way Scheduled = False"
| "under_way (Done held) = False"
| "under_way pc = True"

lemma under_way_iff: "under_way pc \<longleftrightarrow> \<not> is_done pc \<and> pc \<noteq> Scheduled"
  by (cases pc) simp_all

text \<open>A result carries the identifier of the job it is for.\<close>

fun pc_result_ok :: "ID \<Rightarrow> job_pc \<Rightarrow> bool" where
  "pc_result_ok i (Unlocking d ds res) \<longleftrightarrow> res_ID res = i"
| "pc_result_ok i (Committing res) \<longleftrightarrow> res_ID res = i"
| "pc_result_ok i (Aborting res e held) \<longleftrightarrow> res_ID res = i"
| "pc_result_ok i (Storing res) \<longleftrightarrow> res_ID res = i"
| "pc_result_ok i (Reporting res held) \<longleftrightarrow> res_ID res = i"
| "pc_result_ok i (Free j pc) \<longleftrightarrow> pc_result_ok i pc \<and> under_way pc"
| "pc_result_ok i pc \<longleftrightarrow> True"

definition results_ok :: "(ID, JobResult) SyncMap \<Rightarrow> bool" where
  "results_ok m \<longleftrightarrow> (\<forall>i res. Load m i = Some res \<longrightarrow> res_ID res = i)"

lemma run_cmds_res_ID: "run_cmds env rnd proc resolve cmds res d = Returns (err, res1, d1) \<Longrightarrow> res_ID res1 = res_ID res"
proof (induction cmds arbitrary: res d)
  case (Cons c cmds)
  from Cons.prems show ?case
    by (auto simp: Let_def split: sum.splits prod.splits option.splits dest!: Cons.IH)
qed simp

lemma pc_result_next [simp]:
  "pc_result_ok i (next_art arts)" "pc_result_ok i (next_dep ds held)"
  "pc_result_ok i (next_unlock ds res) \<longleftrightarrow> res_ID res = i"
  "pc_result_ok i (fetch_failed cfg j e) \<longleftrightarrow> j = i"
  "pc_result_ok i (exec_failed cfg res e' held) \<longleftrightarrow> res_ID res = i"
  "under_way (next_art arts)" "under_way (next_dep ds held)" "under_way (next_unlock ds res)"
  "under_way (fetch_failed cfg j e)" "under_way (exec_failed cfg res e' held)"
proof -
  show "pc_result_ok i (next_art arts)" "under_way (next_art arts)"
    by (cases arts rule: next_art.cases; simp)+
  show "pc_result_ok i (next_dep ds held)" "pc_result_ok i (next_unlock ds res) \<longleftrightarrow> res_ID res = i"
    "under_way (next_dep ds held)" "under_way (next_unlock ds res)"
    by (cases ds; simp)+
qed (simp_all add: fetch_failed_def exec_failed_def new_result_def)

lemma after_cmds_result:
  "after_cmds cfg spec env proc c held = (l, pc') \<Longrightarrow> pc_result_ok (spec_ID spec) pc' \<and> under_way pc'"
  by (auto simp: after_cmds_def new_result_def split: go.splits option.splits dest!: run_cmds_res_ID)

lemma move_result_ok:
  assumes "job_move cfg i spec env ch c pc = Some (l, pc')" "spec_ID spec = i" "pc_result_ok i pc"
  shows "pc_result_ok i pc' \<and> under_way pc \<and> under_way pc'"
  using assms
  by (cases pc)
     (auto simp: get_failed_def new_result_def split: option.splits dest!: after_cmds_result)

section \<open>Counting\<close>

definition done_ids :: "ID \<times> JobSpec \<Rightarrow> job_pc \<Rightarrow> ID multiset" where
  "done_ids j pc = (if is_done pc then {#fst j#} else {#})"

definition started_count :: "ID \<times> JobSpec \<Rightarrow> job_pc \<Rightarrow> 64 word" where
  "started_count j pc = (if pc = Scheduled then 0 else 1)"

definition done_count :: "ID \<times> JobSpec \<Rightarrow> job_pc \<Rightarrow> 64 word" where
  "done_count j pc = (if is_done pc then 1 else 0)"

text \<open>The books of a pool \<open>p\<close> that started as \<open>p0\<close>.\<close>

definition books :: "pool \<Rightarrow> pool \<Rightarrow> bool" where
  "books p0 p \<longleftrightarrow> pl_jobs p = pl_jobs p0 \<and>
     (\<exists>rs. ws_FinishedJob (pl_state p) = ws_FinishedJob (pl_state p0) @ rs \<and>
        mset (map res_ID rs) = pool_sum done_ids (pl_jobs p0) (pl_pcs p)) \<and>
     ws_AddedArtifacts (pl_state p) = ws_AddedArtifacts (pl_state p0) \<and>
     activeJob (pl_metrics p) = activeJob (pl_metrics p0) +
       pool_sum started_count (pl_jobs p0) (pl_pcs p) - pool_sum done_count (pl_jobs p0) (pl_pcs p) \<and>
     totalJob (pl_metrics p) = totalJob (pl_metrics p0) +
       pool_sum started_count (pl_jobs p0) (pl_pcs p) + pool_sum done_count (pl_jobs p0) (pl_pcs p) \<and>
     results_ok (pl_results p) \<and>
     (\<forall>k < length (pl_pcs p). pc_result_ok (fst (pl_jobs p0 ! k)) (pl_pcs p ! k))"

fun gives_up :: "pool_act \<Rightarrow> bool" where
  "gives_up (Step k env (Report given_up)) = given_up"
| "gives_up a = False"

lemma pool_sum_same:
  assumes "k < length pcs" "length js = length pcs" "f (js ! k) pc = f (js ! k) (pcs ! k)"
  shows "pool_sum f js (pcs[k := pc]) = pool_sum f js pcs"
proof -
  from assms(1,2) obtain R where "\<And>pc. pool_sum f js (pcs[k := pc]) = f (js ! k) pc + R"
    "pool_sum f js pcs = f (js ! k) (pcs ! k) + R"
    by (rule pool_sum_update [where f = f]) blast
  with assms(3) show ?thesis by simp
qed

text \<open>A step that starts no goroutine and ends none leaves the books as they are.\<close>

lemma books_goto:
  assumes books: "books p0 p" and len: "k < length (pl_pcs p)" "length (pl_jobs p) = length (pl_pcs p)"
    and q: "pl_jobs q = pl_jobs p" "pl_pcs q = (pl_pcs p)[k := pc]" "pl_state q = pl_state p"
      "pl_metrics q = pl_metrics p" "results_ok (pl_results q)"
    and pc: "pc_result_ok (fst (pl_jobs p ! k)) pc" "under_way pc" "under_way (pl_pcs p ! k)"
  shows "books p0 q"
proof -
  have "pool_sum done_ids (pl_jobs p) ((pl_pcs p)[k := pc]) = pool_sum done_ids (pl_jobs p) (pl_pcs p)"
    "pool_sum started_count (pl_jobs p) ((pl_pcs p)[k := pc]) = pool_sum started_count (pl_jobs p) (pl_pcs p)"
    "pool_sum done_count (pl_jobs p) ((pl_pcs p)[k := pc]) = pool_sum done_count (pl_jobs p) (pl_pcs p)"
    using pc(2,3) by (auto intro!: pool_sum_same len simp: done_ids_def started_count_def done_count_def under_way_iff)
  moreover have "pc_result_ok (fst (pl_jobs p ! j)) ((pl_pcs p)[k := pc] ! j)" if "j < length (pl_pcs p)" for j
    using that books pc(1) by (cases "j = k") (simp_all add: books_def)
  ultimately show ?thesis
    using books q by (simp add: books_def)
qed

lemma books_start:
  assumes books: "books p0 p" and len: "k < length (pl_pcs p)" "length (pl_jobs p) = length (pl_pcs p)"
    and pc: "pl_pcs p ! k = Scheduled"
  shows "books p0 (pl_goto k Loading (p\<lparr>pl_metrics := scheduleTask (pl_metrics p)\<rparr>))"
proof -
  have "pool_sum done_ids (pl_jobs p) ((pl_pcs p)[k := Loading]) = pool_sum done_ids (pl_jobs p) (pl_pcs p)"
    "pool_sum done_count (pl_jobs p) ((pl_pcs p)[k := Loading]) = pool_sum done_count (pl_jobs p) (pl_pcs p)"
    using pc by (auto intro!: pool_sum_same len simp: done_ids_def done_count_def)
  moreover from len obtain R where
    "\<And>pc. pool_sum started_count (pl_jobs p) ((pl_pcs p)[k := pc]) = started_count (pl_jobs p ! k) pc + R"
    "pool_sum started_count (pl_jobs p) (pl_pcs p) = started_count (pl_jobs p ! k) (pl_pcs p ! k) + R"
    by (rule pool_sum_update [where f = started_count]) blast
  then have "pool_sum started_count (pl_jobs p) ((pl_pcs p)[k := Loading]) =
      pool_sum started_count (pl_jobs p) (pl_pcs p) + 1"
    using pc by (simp add: started_count_def)
  moreover have "pc_result_ok (fst (pl_jobs p ! j)) ((pl_pcs p)[k := Loading] ! j)" if "j < length (pl_pcs p)" for j
    using that books by (cases "j = k") (simp_all add: books_def)
  ultimately show ?thesis
    using books by (simp add: books_def pl_goto_def scheduleTask_def)
qed

lemma books_end:
  assumes books: "books p0 p" and len: "k < length (pl_pcs p)" "length (pl_jobs p) = length (pl_pcs p)"
    and pc: "pl_pcs p ! k = Reporting res held"
  shows "books p0 (pl_goto k (Done held) (p\<lparr>pl_metrics := doneTask (pl_metrics p),
    pl_state := addJobResult False res (pl_state p)\<rparr>))"
proof -
  have "pool_sum started_count (pl_jobs p) ((pl_pcs p)[k := Done held]) = pool_sum started_count (pl_jobs p) (pl_pcs p)"
    using pc by (auto intro!: pool_sum_same len simp: started_count_def)
  moreover from len obtain R where
    "\<And>pc. pool_sum done_count (pl_jobs p) ((pl_pcs p)[k := pc]) = done_count (pl_jobs p ! k) pc + R"
    "pool_sum done_count (pl_jobs p) (pl_pcs p) = done_count (pl_jobs p ! k) (pl_pcs p ! k) + R"
    by (rule pool_sum_update [where f = done_count]) blast
  then have "pool_sum done_count (pl_jobs p) ((pl_pcs p)[k := Done held]) =
      pool_sum done_count (pl_jobs p) (pl_pcs p) + 1"
    using pc by (simp add: done_count_def)
  moreover from len obtain R where
    "\<And>pc. pool_sum done_ids (pl_jobs p) ((pl_pcs p)[k := pc]) = done_ids (pl_jobs p ! k) pc + R"
    "pool_sum done_ids (pl_jobs p) (pl_pcs p) = done_ids (pl_jobs p ! k) (pl_pcs p ! k) + R"
    by (rule pool_sum_update [where f = done_ids]) blast
  then have "pool_sum done_ids (pl_jobs p) ((pl_pcs p)[k := Done held]) =
      add_mset (res_ID res) (pool_sum done_ids (pl_jobs p) (pl_pcs p))"
    using pc books len by (force simp: done_ids_def books_def)
  moreover have "pc_result_ok (fst (pl_jobs p ! j)) ((pl_pcs p)[k := Done held] ! j)" if "j < length (pl_pcs p)" for j
    using that books by (cases "j = k") (simp_all add: books_def)
  ultimately show ?thesis
    using books by (auto simp: books_def pl_goto_def doneTask_def addJobResult_def)
qed

lemma books_Step:
  assumes inv: "pool_inv p" and books: "books p0 p" and k: "k < length (pl_pcs p)"
    and step: "goroutine_step cfg k env ch p = Some q" and calm: "ch \<noteq> Report True"
  shows "books p0 q"
proof -
  obtain i spec where job: "pl_jobs p ! k = (i, spec)" by fastforce
  from inv k job have spec: "spec_ID spec = i" and len: "length (pl_jobs p) = length (pl_pcs p)"
    by (auto simp: pool_inv_def dest!: nth_mem [of k "pl_jobs p"])
  from books k job have ok: "pc_result_ok i (pl_pcs p ! k)" "results_ok (pl_results p)"
    by (auto simp: books_def)
  note goto = books_goto [OF books k len, of q]
  from step job show ?thesis
  proof (cases rule: goroutine_step_cases)
    case start
    with books_start [OF books k len] show ?thesis by simp
  next
    case (hit res)
    with ok job show ?thesis
      by (intro goto [of "Reporting res []"]) (simp_all add: pl_goto_def results_ok_def)
  next
    case fetch
    with ok job show ?thesis by (intro goto [of "next_art (Artifacts spec)"]) (simp_all add: pl_goto_def)
  next
    case (store res)
    with ok job show ?thesis
      by (intro goto [of "Reporting res []"]) (simp_all add: pl_goto_def results_ok_def sm.load_store)
  next
    case (report res held given_up)
    with books_end [OF books k len report(1)] calm show ?thesis by simp
  next
    case (quiet pc)
    with move_result_ok [OF quiet(1) spec ok(1)] ok job show ?thesis
      by (intro goto [of pc]) (simp_all add: pl_goto_def)
  next
    case (cache l pc s)
    with move_result_ok [OF cache(1) spec ok(1)] ok job show ?thesis
      by (intro goto [of pc]) (simp_all add: pl_goto_def)
  qed
qed

lemma runs_books:
  assumes start: "pool_start p" "results_ok (pl_results p)" and run: "run (pool_step cfg) p as = Some q"
    and calm: "\<forall>a \<in> set as. \<not> gives_up a"
  shows "books p q"
proof (rule pl.run_stable [where Q = "\<lambda>a. \<not> gives_up a", OF _ pool_inv_start [OF start(1)] run calm])
  show "books p p"
    using start
    by (simp add: books_def pool_start_def done_ids_def started_count_def done_count_def pool_sum_scheduled)
  show "books p v" if "pool_inv u" "pool_step cfg u a = Some v" "\<not> gives_up a" "books p u" for u a v
  proof (cases a)
    case (Step k env ch)
    with that(2,3) books_Step [OF that(1,4), of k cfg env ch v] show ?thesis
      by (cases ch) (simp_all split: if_splits)
  next
    case (Serve env l)
    with that(2,4) show ?thesis
      by (auto simp: books_def split: if_splits option.splits)
  qed
qed

section \<open>Locks that are left\<close>

text \<open>The dependencies a goroutine holds are those of its job, all of them once it runs.\<close>

fun held_ok :: "JobSpec \<Rightarrow> job_pc \<Rightarrow> bool" where
  "held_ok spec (DepLock d ds held) \<longleftrightarrow> held @ d # ds = Deps (spec_Job spec)"
| "held_ok spec (DepStat d ds held) \<longleftrightarrow> held @ d # ds = Deps (spec_Job spec)"
| "held_ok spec (Running held) \<longleftrightarrow> held = Deps (spec_Job spec)"
| "held_ok spec (Aborting res e held) \<longleftrightarrow> held = Deps (spec_Job spec)"
| "held_ok spec (Reporting res held) \<longleftrightarrow> held = [] \<or> held = Deps (spec_Job spec) \<and> Error res \<noteq> None"
| "held_ok spec (Done held) \<longleftrightarrow> held = [] \<or> held = Deps (spec_Job spec)"
| "held_ok spec (Free j pc) \<longleftrightarrow> held_ok spec pc"
| "held_ok spec pc \<longleftrightarrow> True"

lemma held_ok_next [simp]:
  "held_ok spec (next_art arts)" "held_ok spec (next_unlock ds res)"
  "held_ok spec (next_dep ds held) \<longleftrightarrow> held @ ds = Deps (spec_Job spec)"
  "held_ok spec (fetch_failed cfg i e)"
  "held_ok spec (exec_failed cfg res e' held) \<longleftrightarrow> held = [] \<or> held = Deps (spec_Job spec)"
proof -
  show "held_ok spec (next_art arts)"
    by (cases arts rule: next_art.cases) simp_all
  show "held_ok spec (next_unlock ds res)" "held_ok spec (next_dep ds held) \<longleftrightarrow> held @ ds = Deps (spec_Job spec)"
    by (cases ds; simp)+
qed (simp_all add: fetch_failed_def exec_failed_def)

lemma after_cmds_held:
  "after_cmds cfg spec env proc c held = (l, pc') \<Longrightarrow> held = Deps (spec_Job spec) \<Longrightarrow> held_ok spec pc'"
  by (auto simp: after_cmds_def split: go.splits option.splits)

lemma move_held_ok:
  assumes "job_move cfg i spec env ch c pc = Some (l, pc')" "held_ok spec pc"
  shows "held_ok spec pc'"
  using assms
  by (cases pc) (auto simp: get_failed_def split: option.splits dest: after_cmds_held)

definition pool_held :: "pool \<Rightarrow> bool" where
  "pool_held p \<longleftrightarrow> (\<forall>k < length (pl_pcs p). held_ok (snd (pl_jobs p ! k)) (pl_pcs p ! k))"

lemma pool_held_goto:
  "pool_held p \<Longrightarrow> pl_jobs q = pl_jobs p \<Longrightarrow> pl_pcs q = (pl_pcs p)[k := pc] \<Longrightarrow>
     held_ok (snd (pl_jobs p ! k)) pc \<Longrightarrow> pool_held q"
  unfolding pool_held_def by (metis length_list_update nth_list_update_eq nth_list_update_neq)

lemma pool_held_step:
  assumes held: "pool_held p" and step: "pool_step cfg p a = Some q"
  shows "pool_held q"
proof (cases a)
  case (Step k env ch)
  with step have k: "k < length (pl_pcs p)" and go: "goroutine_step cfg k env ch p = Some q"
    by (simp_all split: if_splits)
  obtain i spec where job: "pl_jobs p ! k = (i, spec)" by fastforce
  from held k job have me: "held_ok spec (pl_pcs p ! k)" by (auto simp: pool_held_def)
  note goto = pool_held_goto [OF held, of q k]
  from go job show ?thesis
  proof (cases rule: goroutine_step_cases)
    case (quiet pc)
    with move_held_ok [OF quiet(1) me] job show ?thesis by (intro goto [of pc]) (simp_all add: pl_goto_def)
  next
    case (cache l pc s)
    with move_held_ok [OF cache(1) me] job show ?thesis by (intro goto [of pc]) (simp_all add: pl_goto_def)
  next
    case start
    then show ?thesis by (intro goto [of Loading]) (simp_all add: pl_goto_def)
  next
    case (hit res)
    then show ?thesis by (intro goto [of "Reporting res []"]) (simp_all add: pl_goto_def)
  next
    case fetch
    then show ?thesis by (intro goto [of "next_art (Artifacts spec)"]) (simp_all add: pl_goto_def)
  next
    case (store res)
    then show ?thesis by (intro goto [of "Reporting res []"]) (simp_all add: pl_goto_def)
  next
    case (report res held' given_up)
    with me job show ?thesis by (intro goto [of "Done held'"]) (auto simp: pl_goto_def)
  qed
next
  case (Serve env l)
  with step held show ?thesis by (auto simp: pool_held_def split: if_splits option.splits)
qed

lemma runs_held: "pool_start p \<Longrightarrow> run (pool_step cfg) p as = Some q \<Longrightarrow> pool_held q"
proof -
  assume start: "pool_start p" and run: "run (pool_step cfg) p as = Some q"
  have "pool_held p" using start by (simp add: pool_start_def pool_held_def)
  then show ?thesis
    using pl.run_stable [where Q = "\<lambda>_. True" and P = pool_held, OF _ pool_inv_start [OF start] run]
      pool_held_step by blast
qed

fun left_locked :: "ID \<times> JobSpec \<Rightarrow> job_pc \<Rightarrow> ID multiset" where
  "left_locked j (Done held) = mset held"
| "left_locked j pc = {#}"

lemma done_acts:
  "length js = length pcs \<Longrightarrow> \<forall>pc \<in> set pcs. is_done pc \<Longrightarrow>
     pool_acts js pcs = image_mset Reading (pool_sum left_locked js pcs)"
proof (induction js pcs rule: list_induct2)
  case (Cons j js pc pcs)
  then show ?case
    by (cases pc) (simp_all add: pool_acts_def pool_sum_def)
qed (simp add: pool_acts_def pool_sum_def)

end
