(* ===== verification/Pool_Claims.thy ===== *)
theory Pool_Claims
  imports Pool_Reports
begin

text \<open>The properties of a worker that runs the jobs of a heartbeat concurrently.\<close>

section \<open>An example\<close>

text \<open>Two jobs that need the same artifact, which is or is not in the cache.\<close>

definition pool_cfg0 :: pool_cfg where
  "pool_cfg0 = \<lparr>cf_render = (\<lambda>_. Inr), cf_resolve = (\<lambda>p. [p]), cf_text = (\<lambda>_. ''no'')\<rparr>"

definition pool_job :: "ID \<Rightarrow> JobSpec" where
  "pool_job i = \<lparr>SourceFiles = [], Artifacts = [(idB, ''v'')],
     spec_Job = \<lparr>Job_ID = i, Job_Name = [], Inputs = [], Deps = [idB],
       Cmds = [\<lparr>Exec = [''cc''], Environ = [], WorkingDirectory = [], CatTemplate = [], CatOutput = []\<rparr>]\<rparr>\<rparr>"

definition pool_with :: "(ID \<rightharpoonup> dir) \<Rightarrow> ID list \<Rightarrow> pool" where
  "pool_with m is = \<lparr>pl_jobs = map (\<lambda>i. (i, pool_job i)) is, pl_pcs = replicate (length is) Scheduled,
     pl_cache = empty_sys\<lparr>shared := (shared empty_sys)\<lparr>cacheDir := m\<rparr>\<rparr>, pl_served = {#},
     pl_results = NewSyncMap 0, pl_state = newWorkerState 4, pl_metrics = \<lparr>totalJob = 0, activeJob = 0\<rparr>\<rparr>"

lemma pool_with_start: "distinct is \<Longrightarrow> pool_start (pool_with m is)"
  by (auto simp: pool_start_def pool_with_def is_go_map_def pool_job_def spec_ID_def comp_def empty_sys_def
      store_inv_def cache_inv_def cache_ok_def entry_ok_def writers_def draft_ok_def)

abbreviation go :: "nat \<Rightarrow> choice \<Rightarrow> pool_act" where
  "go k ch \<equiv> Step k no_faults ch"

text \<open>One job whose dependency is there, with a command that writes a file or fails.\<close>

definition one_job_steps :: "string option \<Rightarrow> pool_act list" where
  "one_job_steps err = map (go 0) ([Calm, Calm, Calm, Calm, Calm, FileCall None, FileCall None, Calm, Calm, Calm, Calm,
     Ran (demo_cc err)] @ (if err = None then [Calm, Calm, Calm, Calm] else [Calm, Calm]) @ [Report False])"

lemmas pool_eval = pool_with_def pool_cfg0_def pool_job_def empty_sys_def goroutine_step_def pl_goto_def
  after_cmds_def demo_cc_def executeCommand_def becomes_def cache_parts NewSyncMap_def Load_def Store_def
  spec_ID_def Let_def crashed_def

lemma one_job_runs:
  "\<exists>q. run (pool_step pool_cfg0) (pool_with [idB \<mapsto> []] [idA]) (one_job_steps None) = Some q \<and>
    pl_pcs q = [Done []] \<and> pl_served q = {#}"
  by (simp add: one_job_steps_def pool_eval)

lemma one_job_fails:
  "\<exists>q. run (pool_step pool_cfg0) (pool_with [idB \<mapsto> []] [idA]) (one_job_steps (Some ''exit status 1'')) = Some q \<and>
    pl_pcs q = [Done [idB]] \<and> pl_served q = {#}"
  by (simp add: one_job_steps_def pool_eval exec_failed_def)

lemma pool_job_runnable: "\<forall>(i, spec) \<in> set (pl_jobs (pool_with m is)). runnable pool_cfg0 spec"
  by (auto simp: pool_with_def pool_job_def runnable_def pool_cfg0_def)

text \<open>The second job asks for the artifact while the first is downloading it.\<close>

definition race_steps :: "pool_act list" where
  "race_steps = map (go 0) [Calm, Calm, Calm, Calm, Reply None, Calm, Calm] @ map (go 1) [Calm, Calm]"

lemma race_runs:
  "\<exists>q. run (pool_step pool_cfg0) (pool_with Map.empty [idA, ID_lit [99]]) race_steps = Some q \<and>
    pl_pcs q = [ArtReceive idB [], ArtGet idB []] \<and> length (pl_jobs q) = 2"
  by (simp add: race_steps_def pool_eval get_failed_def)

section \<open>Properties\<close>

text \<open>
  No job panics because of a dependency: if every specification lists its dependencies among its
  artifacts (the coordinator schedules them so) and its commands render, then whatever the
  interleaving of the job goroutines with each other and with the artifact handler, whatever the
  other workers answer and whichever system calls but \<open>Stat\<close> fail, no \<open>Get\<close> of a dependency in
  \<open>executeJob\<close> fails, and the process stays up.
\<close>

theorem pool_never_panics:
  assumes "pool_start p" "run (pool_step cfg) p as = Some q"
    and "\<forall>(i, spec) \<in> set (pl_jobs p). runnable cfg spec" "\<forall>a \<in> set as. fault (act_env a) SysStat = None"
  shows "\<not> crashed q"
proof -
  from runs_relies [OF assms] have "\<forall>pc \<in> set (pl_pcs q). \<not> panicked pc"
    by (auto simp: pool_relies_def in_set_conv_nth)
  then show ?thesis by (rule not_crashed)
qed

lemma one_job_calm: "\<forall>a \<in> set (one_job_steps err). fault (act_env a) SysStat = None \<and> \<not> gives_up a"
  by (auto simp: one_job_steps_def)

theorem pool_never_panics_witness:
  "\<exists>q. run (pool_step pool_cfg0) (pool_with [idB \<mapsto> []] [idA]) (one_job_steps None) = Some q \<and> \<not> crashed q"
  using one_job_runs pool_never_panics [OF pool_with_start _ pool_job_runnable] one_job_calm
  by (metis distinct_singleton)

text \<open>
  C10. \<open>wg.Wait\<close> returns: the goroutines of a pool have at most
  \<open>11 + 3 * |Deps| + 9 * |Artifacts|\<close> moves per job together, in any interleaving; and as long as
  one of them has not ended (or the process has panicked), every such goroutine can move, whatever
  the others hold.
\<close>

theorem pool_ends:
  assumes "pool_start p" "run (pool_step cfg) p as = Some q"
  shows "length (filter is_step as) \<le>
      sum_list (map (\<lambda>(i, spec). 11 + 3 * length (Deps (spec_Job spec)) + 9 * length (Artifacts spec)) (pl_jobs p)) \<and>
    (\<not> crashed q \<longrightarrow> (\<forall>k < length (pl_pcs q). is_done (pl_pcs q ! k) \<or>
       (\<exists>ch r. pool_step cfg q (Step k env ch) = Some r)))"
proof (intro conjI impI allI)
  have "pool_moves p = sum_list (map (\<lambda>(i, spec). 11 + 3 * length (Deps (spec_Job spec)) + 9 * length (Artifacts spec)) (pl_jobs p))"
    using assms(1) pool_sum_const [of "pl_jobs p" "pl_pcs p" "\<lambda>j. moves_left (snd j)"
      "\<lambda>(i, spec). 11 + 3 * length (Deps (spec_Job spec)) + 9 * length (Artifacts spec)"]
    by (auto simp: pool_moves_def pool_start_def moves_art_def)
  with run_moves [OF pool_inv_start [OF assms(1)] assms(2)]
  show "length (filter is_step as) \<le>
      sum_list (map (\<lambda>(i, spec). 11 + 3 * length (Deps (spec_Job spec)) + 9 * length (Artifacts spec)) (pl_jobs p))"
    by simp
next
  fix k assume up: "\<not> crashed q" and k: "k < length (pl_pcs q)"
  note inv = pl.reachable_inv [OF assms]
  show "is_done (pl_pcs q ! k) \<or> (\<exists>ch r. pool_step cfg q (Step k env ch) = Some r)"
  proof (cases "moves_left (snd (pl_jobs q ! k)) (pl_pcs q ! k) = 0")
    case True
    moreover have "\<forall>held. pl_pcs q ! k \<noteq> Panicked held"
      using up k by (force simp: crashed_def dest: nth_mem)
    ultimately show ?thesis
      by (cases "pl_pcs q ! k") (simp_all add: moves_art_def)
  next
    case False
    with goroutine_enabled [OF inv k] up k show ?thesis by simp
  qed
qed

theorem pool_ends_witness:
  "length (filter is_step (one_job_steps None)) \<le> 23"
proof -
  obtain q where q: "run (pool_step pool_cfg0) (pool_with [idB \<mapsto> []] [idA]) (one_job_steps None) = Some q"
    using one_job_runs by blast
  from pool_ends [OF pool_with_start q] show ?thesis
    by (simp add: pool_with_def pool_job_def)
qed

text \<open>
  C9. When all goroutines of a heartbeat have ended, and none gave up on recording its result, the
  state has gained exactly one result per job, with the job's identifier, in the order the
  goroutines ended; no artifact is reported as added; \<open>activeJob\<close> is what it was before, and
  \<open>totalJob\<close> has grown by two per job.
\<close>

theorem pool_reports_each_job:
  assumes "pool_start p" "results_ok (pl_results p)" "run (pool_step cfg) p as = Some q"
    and "\<forall>a \<in> set as. \<not> gives_up a" "\<forall>pc \<in> set (pl_pcs q). is_done pc"
  shows "(\<exists>rs. ws_FinishedJob (pl_state q) = ws_FinishedJob (pl_state p) @ rs \<and>
      mset (map res_ID rs) = mset (map fst (pl_jobs p))) \<and>
    ws_AddedArtifacts (pl_state q) = ws_AddedArtifacts (pl_state p) \<and>
    activeJob (pl_metrics q) = activeJob (pl_metrics p) \<and>
    totalJob (pl_metrics q) = totalJob (pl_metrics p) + 2 * of_nat (length (pl_jobs p))"
proof -
  let ?js = "pl_jobs p"
  from runs_books [OF assms(1-4)] have books: "books p q" .
  have len: "length ?js = length (pl_pcs q)"
    using pl.reachable_inv [OF assms(1,3)] books by (simp add: pool_inv_def books_def)
  have "pool_sum done_ids ?js (pl_pcs q) = mset (map fst ?js)"
    using pool_sum_const [OF len, of done_ids "\<lambda>j. {#fst j#}"] assms(5)
    by (simp add: done_ids_def)
  moreover have "pool_sum started_count ?js (pl_pcs q) = of_nat (length ?js)"
    "pool_sum done_count ?js (pl_pcs q) = of_nat (length ?js)"
    using pool_sum_const [OF len, of started_count "\<lambda>_. 1"] pool_sum_const [OF len, of done_count "\<lambda>_. 1"] assms(5)
    by (force simp: started_count_def done_count_def sum_list_triv)+
  ultimately show ?thesis
    using books by (auto simp: books_def)
qed

lemma pool_with_results: "results_ok (pl_results (pool_with m is))"
  by (simp add: pool_with_def results_ok_def sm.load_new)

theorem pool_reports_each_job_witness:
  "\<exists>q. run (pool_step pool_cfg0) (pool_with [idB \<mapsto> []] [idA]) (one_job_steps None) = Some q \<and>
    mset (map res_ID (ws_FinishedJob (pl_state q))) = {#idA#} \<and> totalJob (pl_metrics q) = 2"
proof -
  obtain q where q: "run (pool_step pool_cfg0) (pool_with [idB \<mapsto> []] [idA]) (one_job_steps None) = Some q"
    and pcs: "pl_pcs q = [Done []]"
    using one_job_runs by blast
  from pool_reports_each_job [OF pool_with_start pool_with_results q] one_job_calm q pcs show ?thesis
    by (auto simp: pool_with_def newWorkerState_def)
qed

lemma count_readings: "count (image_mset Reading M) (Reading i) = count M i"
  by (induction M) auto

text \<open>
  The locks that are left when all goroutines have ended and nothing is being served: no artifact
  is write-locked, and each is read-locked once per job that kept it - a job keeps all its
  dependencies or none. So an artifact that no failed job depends on can be removed, and the
  others never again.
\<close>

theorem pool_locks_left:
  assumes "pool_start p" "run (pool_step cfg) p as = Some q"
    and "\<forall>pc \<in> set (pl_pcs q). is_done pc" "pl_served q = {#}"
  shows "writeLocked (shared (pl_cache q)) = {} \<and>
    (\<forall>i. readLocked (shared (pl_cache q)) i =
      (let n = count (pool_sum left_locked (pl_jobs q) (pl_pcs q)) i in if n = 0 then None else Some (int n))) \<and>
    (\<forall>k < length (pl_pcs q). \<forall>held. pl_pcs q ! k = Done held \<longrightarrow>
       held = [] \<or> held = Deps (spec_Job (snd (pl_jobs q ! k))))"
proof (intro conjI allI impI)
  have inv: "pool_inv q" by (rule pl.reachable_inv [OF assms(1,2)])
  then have acts: "acts (pl_cache q) = image_mset Reading (pool_sum left_locked (pl_jobs q) (pl_pcs q))"
    using done_acts [of "pl_jobs q" "pl_pcs q"] assms(3,4) by (simp add: pool_inv_def)
  have count: "count (acts (pl_cache q)) (Reading i) = count (pool_sum left_locked (pl_jobs q) (pl_pcs q)) i" for i
    unfolding acts by (rule count_readings)
  have none: "a \<notin># acts (pl_cache q)" if "\<And>i. a \<noteq> Reading i" for a
    using that by (auto simp: acts)
  have ok: "cache_ok (pl_cache q) i" for i
    using inv by (simp add: pool_inv_def store_inv_def cache_inv_entry)
  have "i \<notin> writeLocked (shared (pl_cache q))" for i
    using ok [of i] none by (auto simp: cache_ok_def entry_ok_def writers_def not_in_iff split: if_splits)
  then show "writeLocked (shared (pl_cache q)) = {}" by blast
  show "readLocked (shared (pl_cache q)) i =
      (let n = count (pool_sum left_locked (pl_jobs q) (pl_pcs q)) i in if n = 0 then None else Some (int n))" for i
    using ok [of i] none [of "GetLocked i"] by (simp add: cache_ok_def entry_ok_def count not_in_iff Let_def)
  show "held = [] \<or> held = Deps (spec_Job (snd (pl_jobs q ! k)))"
    if "k < length (pl_pcs q)" "pl_pcs q ! k = Done held" for k held
    using runs_held [OF assms(1,2)] that by (force simp: pool_held_def)
qed

theorem pool_locks_left_witness:
  "\<exists>q. run (pool_step pool_cfg0) (pool_with [idB \<mapsto> []] [idA]) (one_job_steps (Some ''exit status 1'')) = Some q \<and>
    writeLocked (shared (pl_cache q)) = {} \<and> readLocked (shared (pl_cache q)) idB = Some 1"
proof -
  obtain q where q: "run (pool_step pool_cfg0) (pool_with [idB \<mapsto> []] [idA]) (one_job_steps (Some ''exit status 1'')) = Some q"
    and pcs: "pl_pcs q = [Done [idB]]" "pl_served q = {#}"
    using one_job_fails by blast
  have "length (pl_jobs q) = 1"
    using pl.reachable_inv [OF pool_with_start q] pcs(1) by (simp add: pool_inv_def)
  then obtain j where "pl_jobs q = [j]" by (auto simp: length_Suc_conv)
  with pool_locks_left [OF pool_with_start q] q pcs show ?thesis
    by (auto simp: pool_sum_def Let_def)
qed

text \<open>
  C40. Two jobs of one heartbeat that need the same missing artifact: while one of them downloads it,
  the other is not made to wait but fails, with the error that the artifact is write-locked.
\<close>

theorem concurrent_download_fails_job:
  assumes "pool_start p" "run (pool_step cfg) p as = Some q" "\<not> crashed q"
    and "k < length (pl_pcs q)" "pl_pcs q ! k = ArtReceive i arts"
    and "l < length (pl_pcs q)" "pl_pcs q ! l = ArtGet i arts'"
  shows "\<exists>q'. pool_step cfg q (Step l env ch) = Some q' \<and>
    pl_pcs q' ! l = fetch_failed cfg (fst (pl_jobs q ! l)) (ArtErr Art_ErrWriteLocked)"
proof -
  have inv: "pool_inv q" by (rule pl.reachable_inv [OF assms(1,2)])
  then obtain R where "pool_acts (pl_jobs q) (pl_pcs q) = pc_acts (fst (pl_jobs q ! k)) (pl_pcs q ! k) + R"
    using pool_acts_update assms(4) by (metis pool_inv_def)
  with inv assms(5) have "Writing i \<in># acts (pl_cache q)" "cache_inv (pl_cache q)"
    by (simp_all add: pool_inv_def store_inv_def)
  with writer_locked(1) have "i \<in> writeLocked (shared (pl_cache q))" by blast
  then have "readLock i (shared (pl_cache q)) = (Some Art_ErrWriteLocked, shared (pl_cache q))"
    by (simp add: readLock_def)
  with assms(3,6,7) show ?thesis
    by (simp add: goroutine_step_def get_failed_def pl_goto_def split: prod.split)
qed

theorem concurrent_download_fails_job_witness:
  "\<exists>q q'. run (pool_step pool_cfg0) (pool_with Map.empty [idA, ID_lit [99]]) race_steps = Some q \<and>
    pool_step pool_cfg0 q (Step 1 no_faults Calm) = Some q' \<and> pl_pcs q' ! 1 =
      fetch_failed pool_cfg0 (fst (pl_jobs q ! 1)) (ArtErr Art_ErrWriteLocked)"
proof -
  have ids: "distinct [idA, ID_lit [99]]" by simp
  obtain q where q: "run (pool_step pool_cfg0) (pool_with Map.empty [idA, ID_lit [99]]) race_steps = Some q"
    and pcs: "pl_pcs q = [ArtReceive idB [], ArtGet idB []]"
    using race_runs by blast
  have "\<not> crashed q" by (simp add: crashed_def pcs)
  with concurrent_download_fails_job [OF pool_with_start [OF ids] q, of 0 idB "[]" 1 "[]" no_faults Calm] q pcs
  show ?thesis by auto
qed

end
