(* ===== verification/Worker_Run.thy ===== *)
theory Worker_Run
  imports Pool_Claims
begin

text \<open>
  A worker from \<open>New\<close> to the end of \<open>Run\<close> (\<open>worker.go\<close>, \<open>metrics.go\<close>): the loop of heartbeats,
  the goroutines of the jobs (\<open>Worker_Pool\<close>), and the goroutine \<open>show\<close> that draws the number of
  jobs under way and that \<open>stop\<close> waits for. The goroutines of all cycles stay in the pool, so
  what a failed job keeps locked is seen in every later cycle.
\<close>

section \<open>Places\<close>

datatype run_error = CtxErr | HeartbeatErr string

datatype run_phase =
    Top                    \<comment> \<open>before \<open>select\<close>\<close>
  | Beating                \<comment> \<open>in \<open>Heartbeat\<close>\<close>
  | Waiting                \<comment> \<open>started the goroutines, in \<open>wg.Wait\<close>\<close>
  | Leaving run_error      \<comment> \<open>returning; before \<open>close(w.close)\<close> in \<open>stop\<close>\<close>
  | AwaitShow run_error    \<comment> \<open>in \<open>w.wg.Wait\<close>\<close>
  | ShutFile run_error     \<comment> \<open>before \<open>w.iowc.Close\<close>\<close>
  | Ended run_error
  | StopPanicked

datatype show_pc = ShowSelect | ShowPrint | ShowReturned | ShowPanicked

text \<open>The statistics file: a failed \<open>os.Create\<close> goes unnoticed, and nothing is written then.\<close>

datatype stat_file = NoFile | OpenFile "nat list" | ClosedFile "nat list"

fun write_line :: "nat \<Rightarrow> stat_file \<Rightarrow> stat_file" where
  "write_line n (OpenFile ls) = OpenFile (ls @ [n])"
| "write_line n f = f"

fun close_file :: "stat_file \<Rightarrow> stat_file" where
  "close_file (OpenFile ls) = ClosedFile ls"
| "close_file f = f"

text \<open>
  \<open>strings.Repeat\<close> of the three bytes of a block: panics when the count is negative or the length
  does not fit an \<open>int\<close>.
\<close>

definition repeat_panics :: "int \<Rightarrow> bool" where
  "repeat_panics n \<longleftrightarrow> n < 0 \<or> 3 * n > 2 ^ 63 - 1"

record worker_run =
  wr_id :: WorkerID
  wr_phase :: run_phase
  wr_pool :: pool
  wr_sent :: "HeartbeatRequest list"
  wr_show :: show_pc
  wr_close :: bool
  wr_file :: stat_file

text \<open>
  \<open>New\<close>: the last two characters of the identifier name the statistics file (\<open>create\<close> tells
  whether \<open>os.Create\<close> succeeds), and \<open>show\<close> is started.
\<close>

definition stat_path :: "WorkerID \<Rightarrow> string go" where
  "stat_path nums =
     (if length nums < 2 then Panics ''slice bounds out of range''
      else Returns (''/home/nurik/work/Nurik/distbuild/stat/'' @ drop (length nums - 2) nums))"

definition newWorkerMetrics :: workerMetrics where
  "newWorkerMetrics = \<lparr>totalJob = 0, activeJob = 0\<rparr>"

definition new_worker :: "WorkerID \<Rightarrow> int \<Rightarrow> stat_file \<Rightarrow> cache_sys \<Rightarrow> worker_run" where
  "new_worker i numCPU statFile arts =
     \<lparr>wr_id = i, wr_phase = Top,
      wr_pool = \<lparr>pl_jobs = [], pl_pcs = [], pl_cache = arts, pl_served = acts arts,
        pl_results = NewSyncMap 0, pl_state = newWorkerState numCPU, pl_metrics = newWorkerMetrics\<rparr>,
      wr_sent = [], wr_show = ShowSelect, wr_close = False, wr_file = statFile\<rparr>"

definition New :: "WorkerID \<Rightarrow> int \<Rightarrow> (string \<Rightarrow> bool) \<Rightarrow> cache_sys \<Rightarrow> worker_run go" where
  "New i numCPU create arts = go_bind (stat_path i) (\<lambda>path.
     Returns (new_worker i numCPU (if create path then OpenFile [] else NoFile) arts))"

section \<open>Moves\<close>

text \<open>The goroutines of one heartbeat, one per entry of \<open>JobsToRun\<close>.\<close>

definition spawn :: "(ID \<times> JobSpec) list \<Rightarrow> pool \<Rightarrow> pool" where
  "spawn js p = p\<lparr>pl_jobs := pl_jobs p @ js, pl_pcs := pl_pcs p @ replicate (length js) Scheduled\<rparr>"

datatype stop_act = StopClose | StopWait | StopFile
datatype show_act = ShowTick | ShowLine | ShowLeave

datatype run_act =
    Look bool                                      \<comment> \<open>the \<open>select\<close> at the top, and \<open>pull\<close>\<close>
  | Answer "string + (ID \<times> JobSpec) list"         \<comment> \<open>the heartbeat returns\<close>
  | PoolAct pool_act
  | AllDone                                        \<comment> \<open>\<open>wg.Wait\<close> returns\<close>
  | Stop stop_act
  | Show show_act

text \<open>\<open>stop\<close>: close the channel, wait for \<open>show\<close>, close the file.\<close>

fun stop_move :: "stop_act \<Rightarrow> worker_run \<Rightarrow> worker_run option" where
  "stop_move StopClose r =
     (case wr_phase r of
        Leaving e \<Rightarrow> Some (if wr_close r then r\<lparr>wr_phase := StopPanicked\<rparr>
                           else r\<lparr>wr_phase := AwaitShow e, wr_close := True\<rparr>)
      | _ \<Rightarrow> None)"
| "stop_move StopWait r =
     (case wr_phase r of
        AwaitShow e \<Rightarrow> if wr_show r = ShowReturned then Some (r\<lparr>wr_phase := ShutFile e\<rparr>) else None
      | _ \<Rightarrow> None)"
| "stop_move StopFile r =
     (case wr_phase r of
        ShutFile e \<Rightarrow> Some (r\<lparr>wr_phase := Ended e, wr_file := close_file (wr_file r)\<rparr>)
      | _ \<Rightarrow> None)"

text \<open>
  \<open>show\<close>: the timer can win the \<open>select\<close> although the channel is closed; after it, one line is
  written.
\<close>

fun show_move :: "show_act \<Rightarrow> worker_run \<Rightarrow> worker_run option" where
  "show_move ShowTick r = (if wr_show r = ShowSelect then Some (r\<lparr>wr_show := ShowPrint\<rparr>) else None)"
| "show_move ShowLeave r =
     (if wr_show r = ShowSelect \<and> wr_close r then Some (r\<lparr>wr_show := ShowReturned\<rparr>) else None)"
| "show_move ShowLine r =
     (if wr_show r \<noteq> ShowPrint then None
      else (let n = sint (activeJob (pl_metrics (wr_pool r))) in
        Some (if repeat_panics n then r\<lparr>wr_show := ShowPanicked\<rparr>
              else r\<lparr>wr_show := ShowSelect, wr_file := write_line (nat n) (wr_file r)\<rparr>)))"

text \<open>\<open>Run\<close>, with the goroutines of its jobs.\<close>

fun run_move :: "pool_cfg \<Rightarrow> worker_run \<Rightarrow> run_act \<Rightarrow> worker_run option" where
  "run_move cfg r (Look ctx_done) =
     (if wr_phase r \<noteq> Top then None
      else if ctx_done then Some (r\<lparr>wr_phase := Leaving CtxErr\<rparr>)
      else (let (request, st) = pull (wr_id r) (pl_state (wr_pool r)) in
        Some (r\<lparr>wr_phase := Beating, wr_pool := (wr_pool r)\<lparr>pl_state := st\<rparr>, wr_sent := wr_sent r @ [request]\<rparr>)))"
| "run_move cfg r (Answer response) =
     (if wr_phase r \<noteq> Beating then None
      else case response of
        Inl e \<Rightarrow> Some (r\<lparr>wr_phase := Leaving (HeartbeatErr e)\<rparr>)
      | Inr js \<Rightarrow>
          if js = [] then Some (r\<lparr>wr_phase := Top\<rparr>)
          else Some (r\<lparr>wr_phase := Waiting, wr_pool := spawn js (wr_pool r)\<rparr>))"
| "run_move cfg r (PoolAct a) = map_option (\<lambda>p. r\<lparr>wr_pool := p\<rparr>) (pool_step cfg (wr_pool r) a)"
| "run_move cfg r AllDone =
     (if wr_phase r = Waiting \<and> (\<forall>pc \<in> set (pl_pcs (wr_pool r)). is_done pc) then Some (r\<lparr>wr_phase := Top\<rparr>) else None)"
| "run_move cfg r (Stop b) = stop_move b r"
| "run_move cfg r (Show b) = show_move b r"

text \<open>Nothing moves after a panic.\<close>

definition run_step :: "pool_cfg \<Rightarrow> worker_run \<Rightarrow> run_act \<Rightarrow> worker_run option" where
  "run_step cfg r a =
     (if crashed (wr_pool r) \<or> wr_show r = ShowPanicked \<or> wr_phase r = StopPanicked then None
      else run_move cfg r a)"

section \<open>The ledger of results\<close>

definition under_count :: "job_pc \<Rightarrow> 64 word" where
  "under_count pc = (if under_way pc then 1 else 0)"

definition open_ids :: "ID \<times> JobSpec \<Rightarrow> job_pc \<Rightarrow> ID multiset" where
  "open_ids j pc = (if is_done pc then {#} else {#fst j#})"

text \<open>
  Every job that was handed out is open, has its result in the state, or has left the state
  (\<open>M\<close>); \<open>activeJob\<close> is the number of goroutines under way.
\<close>

definition ledger :: "ID multiset \<Rightarrow> pool \<Rightarrow> bool" where
  "ledger M p \<longleftrightarrow> results_ok (pl_results p) \<and> (\<forall>k < length (pl_pcs p). pc_result_ok (fst (pl_jobs p ! k)) (pl_pcs p ! k)) \<and>
     activeJob (pl_metrics p) = pool_sum (\<lambda>_. under_count) (pl_jobs p) (pl_pcs p) \<and>
     mset (map res_ID (ws_FinishedJob (pl_state p))) + pool_sum open_ids (pl_jobs p) (pl_pcs p) + M =
       mset (map fst (pl_jobs p)) \<and>
     ws_AddedArtifacts (pl_state p) = []"

lemma ledger_goto:
  assumes led: "ledger M p" and len: "k < length (pl_pcs p)" "length (pl_jobs p) = length (pl_pcs p)"
    and q: "pl_jobs q = pl_jobs p" "pl_pcs q = (pl_pcs p)[k := pc]" "results_ok (pl_results q)"
      "ws_AddedArtifacts (pl_state q) = ws_AddedArtifacts (pl_state p)"
    and pc: "pc_result_ok (fst (pl_jobs p ! k)) pc"
    and active: "activeJob (pl_metrics q) + under_count (pl_pcs p ! k) = activeJob (pl_metrics p) + under_count pc"
    and ids: "mset (map res_ID (ws_FinishedJob (pl_state q))) + open_ids (pl_jobs p ! k) pc + L =
      mset (map res_ID (ws_FinishedJob (pl_state p))) + open_ids (pl_jobs p ! k) (pl_pcs p ! k)"
  shows "ledger (M + L) q"
proof -
  obtain R where R: "pool_sum (\<lambda>_. under_count) (pl_jobs p) ((pl_pcs p)[k := pc]) = under_count pc + R"
    "pool_sum (\<lambda>_. under_count) (pl_jobs p) (pl_pcs p) = under_count (pl_pcs p ! k) + R"
    using pool_sum_update [OF len, of "\<lambda>_. under_count"] by metis
  obtain S where S: "pool_sum open_ids (pl_jobs p) ((pl_pcs p)[k := pc]) = open_ids (pl_jobs p ! k) pc + S"
    "pool_sum open_ids (pl_jobs p) (pl_pcs p) = open_ids (pl_jobs p ! k) (pl_pcs p ! k) + S"
    using pool_sum_update [OF len, of open_ids] by metis
  have "activeJob (pl_metrics q) = under_count pc + R"
    using led active R(2) by (simp add: ledger_def algebra_simps)
  moreover have "mset (map res_ID (ws_FinishedJob (pl_state q))) + (open_ids (pl_jobs p ! k) pc + S) + (M + L) =
      (mset (map res_ID (ws_FinishedJob (pl_state q))) + open_ids (pl_jobs p ! k) pc + L) + S + M"
    by (simp only: ac_simps)
  then have "mset (map res_ID (ws_FinishedJob (pl_state q))) + pool_sum open_ids (pl_jobs p) ((pl_pcs p)[k := pc]) + (M + L) =
      mset (map fst (pl_jobs p))"
    using led S(2) unfolding ids S(1) ledger_def by (simp only: ac_simps)
  moreover have "pc_result_ok (fst (pl_jobs p ! j)) ((pl_pcs p)[k := pc] ! j)" if "j < length (pl_pcs p)" for j
    using that led pc by (cases "j = k") (simp_all add: ledger_def)
  ultimately show ?thesis
    using led q R(1) unfolding ledger_def by simp
qed

lemma ledger_Step:
  assumes inv: "pool_inv p" and led: "ledger M p" and k: "k < length (pl_pcs p)"
    and step: "goroutine_step cfg k env ch p = Some q"
  shows "\<exists>L. ledger (M + L) q \<and> (ch \<noteq> Report True \<longrightarrow> L = {#})"
proof -
  obtain i spec where job: "pl_jobs p ! k = (i, spec)" by fastforce
  from inv k job have spec: "spec_ID spec = i" and len: "length (pl_jobs p) = length (pl_pcs p)"
    by (auto simp: pool_inv_def dest!: nth_mem [of k "pl_jobs p"])
  from led k job have ok: "pc_result_ok i (pl_pcs p ! k)" "results_ok (pl_results p)"
    by (auto simp: ledger_def)
  note goto = ledger_goto [OF led k len, of q]
  note counts = under_count_def open_ids_def under_way_iff
  have moved: "ledger (M + {#}) q" if "job_move cfg i spec env ch (shared (pl_cache p)) (pl_pcs p ! k) = Some (l, pc)"
    "pl_jobs q = pl_jobs p" "pl_pcs q = (pl_pcs p)[k := pc]" "pl_state q = pl_state p"
    "pl_metrics q = pl_metrics p" "pl_results q = pl_results p" for l pc
    using move_result_ok [OF that(1) spec ok(1)] ok(2) job that(2-6)
    by (intro goto [of pc]) (simp_all add: counts)
  from step job show ?thesis
  proof (cases rule: goroutine_step_cases)
    case start
    with ok(2) job have "ledger (M + {#}) q"
      by (intro goto [of Loading]) (simp_all add: counts pl_goto_def scheduleTask_def)
    then show ?thesis by blast
  next
    case (hit res)
    with ok job have "ledger (M + {#}) q"
      by (intro goto [of "Reporting res []"]) (simp_all add: counts pl_goto_def results_ok_def)
    then show ?thesis by blast
  next
    case fetch
    have "under_way (next_art (Artifacts spec))" by simp
    with fetch ok job have "ledger (M + {#}) q"
      by (intro goto [of "next_art (Artifacts spec)"]) (simp_all add: counts pl_goto_def)
    then show ?thesis by blast
  next
    case (store res)
    with ok job have "ledger (M + {#}) q"
      by (intro goto [of "Reporting res []"]) (simp_all add: counts pl_goto_def results_ok_def sm.load_store)
    then show ?thesis by blast
  next
    case (report res held given_up)
    with ok job have "ledger (M + (if given_up then {#i#} else {#})) q"
      by (intro goto [of "Done held"]) (simp_all add: counts pl_goto_def doneTask_def addJobResult_def)
    with report(2) show ?thesis by force
  next
    case (quiet pc)
    with moved [OF quiet(1)] have "ledger (M + {#}) q" by (simp add: pl_goto_def)
    then show ?thesis by blast
  next
    case (cache l pc s)
    with moved [OF cache(1)] have "ledger (M + {#}) q" by (simp add: pl_goto_def)
    then show ?thesis by blast
  qed
qed

lemma ledger_pool_step:
  assumes "pool_inv p" "ledger M p" "pool_step cfg p a = Some q"
  shows "\<exists>L. ledger (M + L) q \<and> (\<not> gives_up a \<longrightarrow> L = {#})"
proof (cases a)
  case (Step k env ch)
  with assms(3) have "k < length (pl_pcs p)" "goroutine_step cfg k env ch p = Some q"
    by (simp_all split: if_splits)
  from ledger_Step [OF assms(1,2) this] Step show ?thesis
    by (metis (full_types) gives_up.simps(1))
next
  case (Serve env l)
  with assms(2,3) have "ledger (M + {#}) q"
    by (auto simp: ledger_def split: if_splits option.splits)
  then show ?thesis by blast
qed

lemma pool_sum_append:
  "length js = length pcs \<Longrightarrow> pool_sum f (js @ js') (pcs @ pcs') = pool_sum f js pcs + pool_sum f js' pcs'"
  by (simp add: pool_sum_def)

lemma open_scheduled: "pool_sum open_ids js (replicate (length js) Scheduled) = mset (map fst js)"
  by (induction js) (simp_all add: pool_sum_def open_ids_def)

text \<open>If no result is dropped (\<open>calm\<close>), those that have left the state are exactly \<open>M\<close>.\<close>

definition accounted :: "bool \<Rightarrow> ID multiset \<Rightarrow> pool \<Rightarrow> bool" where
  "accounted calm M p \<longleftrightarrow> (\<exists>L. ledger (M + L) p \<and> (calm \<longrightarrow> L = {#}))"

lemma accounted_pool_step:
  assumes "pool_inv p" "accounted calm M p" "pool_step cfg p a = Some q" "calm \<longrightarrow> \<not> gives_up a"
  shows "accounted calm M q"
proof -
  from assms(2) obtain L where L: "ledger (M + L) p" "calm \<longrightarrow> L = {#}" by (auto simp: accounted_def)
  from ledger_pool_step [OF assms(1) L(1) assms(3)] obtain L' where
    "ledger (M + (L + L')) q" "\<not> gives_up a \<longrightarrow> L' = {#}"
    by (auto simp: add.assoc)
  with L(2) assms(4) show ?thesis unfolding accounted_def by fastforce
qed

lemma accounted_pull:
  assumes "accounted calm M p"
  shows "accounted calm (M + mset (map res_ID (ws_FinishedJob (pl_state p)))) (p\<lparr>pl_state := snd (pull i (pl_state p))\<rparr>)"
  using assms by (auto simp: accounted_def ledger_def pull_def ac_simps)

lemma ledger_spawn:
  assumes "ledger M p" "length (pl_jobs p) = length (pl_pcs p)"
  shows "ledger M (spawn js p)"
proof -
  have "pc_result_ok (fst ((pl_jobs p @ js) ! k)) ((pl_pcs p @ replicate (length js) Scheduled) ! k)"
    if "k < length (pl_pcs p) + length js" for k
    using that assms by (cases "k < length (pl_pcs p)") (simp_all add: nth_append ledger_def)
  with assms show ?thesis
    by (simp add: ledger_def spawn_def pool_sum_append pool_sum_scheduled under_count_def open_scheduled ac_simps)
qed

section \<open>The invariant of a worker\<close>

definition sent_ids :: "worker_run \<Rightarrow> ID multiset" where
  "sent_ids r = mset (map res_ID (concat (map FinishedJob (wr_sent r))))"

text \<open>What the heartbeat client is relied on for: the keys of \<open>JobsToRun\<close> are the jobs' identifiers.\<close>

fun answer_ok :: "run_act \<Rightarrow> bool" where
  "answer_ok (Answer (Inr js)) = (\<forall>(i, spec) \<in> set js. spec_ID spec = i)"
| "answer_ok a = True"

fun drops_result :: "run_act \<Rightarrow> bool" where
  "drops_result (PoolAct a) = gives_up a"
| "drops_result a = False"

fun phase_closed :: "run_phase \<Rightarrow> bool" where
  "phase_closed (AwaitShow e) = True"
| "phase_closed (ShutFile e) = True"
| "phase_closed (Ended e) = True"
| "phase_closed ph = False"

fun phase_joined :: "run_phase \<Rightarrow> bool" where
  "phase_joined (ShutFile e) = True"
| "phase_joined (Ended e) = True"
| "phase_joined ph = False"

definition stop_inv :: "worker_run \<Rightarrow> bool" where
  "stop_inv r \<longleftrightarrow> wr_close r = phase_closed (wr_phase r) \<and> wr_phase r \<noteq> StopPanicked \<and>
     (phase_joined (wr_phase r) \<longrightarrow> wr_show r = ShowReturned) \<and> (wr_show r = ShowReturned \<longrightarrow> wr_close r) \<and>
     (length (pl_jobs (wr_pool r)) < 2 ^ 61 \<longrightarrow> wr_show r \<noteq> ShowPanicked)"

definition file_inv :: "worker_run \<Rightarrow> bool" where
  "file_inv r \<longleftrightarrow> (case wr_file r of
     NoFile \<Rightarrow> True
   | OpenFile ls \<Rightarrow> \<forall>e. wr_phase r \<noteq> Ended e
   | ClosedFile ls \<Rightarrow> \<exists>e. wr_phase r = Ended e)"

definition run_inv :: "bool \<Rightarrow> worker_run \<Rightarrow> bool" where
  "run_inv calm r \<longleftrightarrow> pool_inv (wr_pool r) \<and>
     accounted calm (sent_ids r) (wr_pool r) \<and>
     (wr_phase r \<noteq> Waiting \<longrightarrow> (\<forall>pc \<in> set (pl_pcs (wr_pool r)). is_done pc)) \<and>
     (wr_phase r = Beating \<longrightarrow> ws_FinishedJob (pl_state (wr_pool r)) = [])"

lemma done_stays: "is_done (pl_pcs p ! k) \<Longrightarrow> goroutine_step cfg k env ch p = None"
  by (cases "pl_pcs p ! k") (simp_all add: goroutine_step_def split: prod.split)

lemma all_done_stays:
  assumes "\<forall>pc \<in> set (pl_pcs p). is_done pc" "pool_step cfg p a = Some q"
  shows "pl_pcs q = pl_pcs p \<and> pl_state q = pl_state p"
proof (cases a)
  case (Step k env ch)
  then show ?thesis using assms done_stays [of p k cfg env ch] by (simp split: if_splits)
qed (use assms in \<open>auto split: if_splits option.splits\<close>)

lemma accounted_spawn:
  "accounted calm M p \<Longrightarrow> pool_inv p \<Longrightarrow> accounted calm M (spawn js p)"
  unfolding accounted_def pool_inv_def by (metis ledger_spawn)

lemma pool_inv_spawn:
  "pool_inv p \<Longrightarrow> \<forall>(i, spec) \<in> set js. spec_ID spec = i \<Longrightarrow> pool_inv (spawn js p)"
  by (auto simp: pool_inv_def spawn_def pool_acts_def pool_sum_append pool_sum_scheduled)

lemma active_count:
  assumes "length js = length pcs"
  shows "pool_sum (\<lambda>_. under_count) js pcs = of_nat (length (filter under_way pcs))"
  using assms by (induction js pcs rule: list_induct2) (simp_all add: pool_sum_def under_count_def)

lemma active_sint:
  assumes "pool_inv p" "ledger M p" "length (pl_jobs p) < 2 ^ 63"
  shows "sint (activeJob (pl_metrics p)) = int (length (filter under_way (pl_pcs p)))"
proof -
  have len: "length (pl_jobs p) = length (pl_pcs p)" using assms(1) by (simp add: pool_inv_def)
  let ?n = "length (filter under_way (pl_pcs p))"
  have "?n < 2 ^ 63"
    using assms(3) length_filter_le [of under_way "pl_pcs p"] len by linarith
  then have "sint (of_nat ?n :: 64 word) = int ?n"
    by (simp add: signed_of_nat signed_take_bit_int_eq_self)
  with assms(2) active_count [OF len] show ?thesis by (simp add: ledger_def)
qed

lemma run_inv_step:
  assumes inv: "run_inv calm r" and ok: "answer_ok a \<and> (calm \<longrightarrow> \<not> drops_result a)"
    and step: "run_step cfg r a = Some r'"
  shows "run_inv calm r'"
proof -
  from inv have pool: "pool_inv (wr_pool r)" and acc: "accounted calm (sent_ids r) (wr_pool r)"
    by (auto simp: run_inv_def)
  from step have move: "run_move cfg r a = Some r'" by (simp add: run_step_def split: if_splits)
  show ?thesis
  proof (cases a)
    case (Look ctx_done)
    have "pool_inv ((wr_pool r)\<lparr>pl_state := st\<rparr>)" for st
      using pool by (simp add: pool_inv_def)
    with Look move inv accounted_pull [OF acc, of "wr_id r"] show ?thesis
      by (auto simp: run_inv_def sent_ids_def pull_def split: if_splits)
  next
    case (Answer response)
    with move ok inv accounted_spawn [OF acc pool] pool_inv_spawn [OF pool] show ?thesis
      by (auto simp: run_inv_def sent_ids_def split: if_splits sum.splits)
  next
    case (PoolAct b)
    with move obtain q where q: "pool_step cfg (wr_pool r) b = Some q" "r' = r\<lparr>wr_pool := q\<rparr>" by auto
    with accounted_pool_step [OF pool acc q(1)] pl.step_inv [OF pool q(1)] ok PoolAct inv
      all_done_stays [of "wr_pool r" cfg b q] show ?thesis
      by (auto simp: run_inv_def sent_ids_def)
  next
    case (Stop b)
    with move inv show ?thesis
      by (cases b) (auto simp: run_inv_def sent_ids_def split: if_splits run_phase.splits)
  next
    case (Show b)
    with move inv show ?thesis
      by (cases b) (auto simp: run_inv_def sent_ids_def Let_def split: if_splits)
  qed (use move inv in \<open>auto simp: run_inv_def sent_ids_def split: if_splits\<close>)
qed

lemma stop_inv_step:
  assumes inv: "stop_inv r" "file_inv r" "run_inv False r" and step: "run_step cfg r a = Some r'"
  shows "stop_inv r' \<and> file_inv r'"
proof -
  from step have move: "run_move cfg r a = Some r'" by (simp add: run_step_def split: if_splits)
  show ?thesis
  proof (cases a)
    case (PoolAct b)
    with move inv(1,2) show ?thesis
      by (auto simp: stop_inv_def file_inv_def dest!: pool_step_jobs split: stat_file.splits)
  next
    case (Show b)
    from inv(3) obtain M where led: "pool_inv (wr_pool r)" "ledger M (wr_pool r)"
      by (auto simp: run_inv_def accounted_def)
    have "\<not> repeat_panics (sint (activeJob (pl_metrics (wr_pool r))))" if "length (pl_jobs (wr_pool r)) < 2 ^ 61"
    proof -
      have "length (filter under_way (pl_pcs (wr_pool r))) < 2 ^ 61"
        using led(1) that by (simp add: pool_inv_def le_less_trans [OF length_filter_le])
      with active_sint [OF led] that show ?thesis by (simp add: repeat_panics_def)
    qed
    with Show move inv(1,2) show ?thesis
      by (cases b; cases "wr_file r") (auto simp: stop_inv_def file_inv_def Let_def split: if_splits)
  next
    case (Stop b)
    with move inv(1,2) show ?thesis
      by (cases b; cases "wr_file r") (auto simp: stop_inv_def file_inv_def split: run_phase.splits if_splits)
  qed (use move inv in \<open>auto simp: stop_inv_def file_inv_def pull_def spawn_def Let_def
         split: if_splits run_phase.splits sum.splits stat_file.splits\<close>)
qed

definition worker_inv :: "worker_run \<Rightarrow> bool" where
  "worker_inv r \<longleftrightarrow> run_inv False r \<and> stop_inv r \<and> file_inv r"

lemma New_Returns:
  "New i numCPU create arts = Returns r \<Longrightarrow> r = new_worker i numCPU (wr_file r) arts \<and> wr_file r \<in> {NoFile, OpenFile []}"
  by (auto simp: New_def new_worker_def stat_path_def split: if_splits)

lemma new_worker_inv:
  assumes "store_inv arts" "statFile \<in> {NoFile, OpenFile []}"
  shows "run_inv calm (new_worker i numCPU statFile arts)" "worker_inv (new_worker i numCPU statFile arts)"
proof -
  show run: "run_inv calm (new_worker i numCPU statFile arts)" for calm
    using assms(1)
    by (simp add: run_inv_def new_worker_def pool_inv_def pool_acts_def pool_sum_def sent_ids_def accounted_def
        ledger_def newWorkerState_def newWorkerMetrics_def results_ok_def sm.load_new)
  show "worker_inv (new_worker i numCPU statFile arts)"
    using assms(2) run by (auto simp: worker_inv_def stop_inv_def file_inv_def new_worker_def)
qed

lemma worker_inv_step:
  "worker_inv r \<Longrightarrow> answer_ok a \<Longrightarrow> run_step cfg r a = Some r' \<Longrightarrow> worker_inv r'"
  unfolding worker_inv_def using run_inv_step [of False] stop_inv_step by blast

lemma worker_reachable:
  assumes "New i numCPU create arts = Returns r0" "store_inv arts" "run (run_step cfg) r0 as = Some r"
    and "\<forall>a \<in> set as. answer_ok a"
  shows "worker_inv r"
proof -
  from New_Returns [OF assms(1)] have "worker_inv r0"
    using new_worker_inv(2) [OF assms(2)] by metis
  from run_keeps [of worker_inv answer_ok "run_step cfg", OF worker_inv_step this assms(3,4)] show ?thesis .
qed

lemma all_done_sums:
  assumes "\<forall>pc \<in> set pcs. is_done pc" "length js = length pcs"
  shows "pool_sum open_ids js pcs = {#}"
  using assms(2,1) by (induction js pcs rule: list_induct2) (simp_all add: pool_sum_def open_ids_def)

lemma all_done_up: "\<forall>pc \<in> set (pl_pcs p). is_done pc \<Longrightarrow> \<not> crashed p"
  by (auto simp: crashed_def split: job_pc.splits)

text \<open>From where \<open>Run\<close> returns, \<open>show\<close> finishes its line if it is printing, and \<open>stop\<close> goes through.\<close>

lemma stop_run:
  assumes "wr_phase r = Leaving e" "wr_show r = ShowSelect" "\<not> wr_close r" "\<not> crashed (wr_pool r)"
  shows "\<exists>r'. run (run_step cfg) r [Stop StopClose, Show ShowLeave, Stop StopWait, Stop StopFile] = Some r' \<and> wr_phase r' = Ended e"
  using assms by (simp add: run_step_def)

lemma print_ends:
  assumes "worker_inv r" "wr_phase r = Leaving e" "wr_show r = ShowPrint" "length (pl_jobs (wr_pool r)) < 2 ^ 61"
  shows "\<exists>r'. run_step cfg r (Show ShowLine) = Some r' \<and> wr_phase r' = Leaving e \<and> wr_show r' = ShowSelect \<and>
    \<not> wr_close r' \<and> wr_pool r' = wr_pool r"
proof -
  have up: "\<not> crashed (wr_pool r)" "\<not> wr_close r"
    using assms(1,2) all_done_up by (auto simp: worker_inv_def run_inv_def stop_inv_def)
  then obtain r' where r': "run_step cfg r (Show ShowLine) = Some r'" using assms(2,3)
    by (simp add: run_step_def Let_def)
  with assms(1) have "stop_inv r'" using worker_inv_step [of r "Show ShowLine"] by (simp add: worker_inv_def)
  with r' assms(2-4) up show ?thesis
    by (auto simp: run_step_def Let_def stop_inv_def split: if_splits)
qed

lemma stop_ends:
  assumes inv: "worker_inv r" and leaving: "wr_phase r = Leaving e" and few: "length (pl_jobs (wr_pool r)) < 2 ^ 61"
  shows "\<exists>bs r'. length bs \<le> 5 \<and> run (run_step cfg) r bs = Some r' \<and> wr_phase r' = Ended e"
proof -
  from inv leaving have up: "\<not> crashed (wr_pool r)" "\<not> wr_close r"
    using all_done_up by (auto simp: worker_inv_def run_inv_def stop_inv_def)
  from inv up(2) few consider (sel) "wr_show r = ShowSelect" | (pr) "wr_show r = ShowPrint"
    by (cases "wr_show r") (auto simp: worker_inv_def stop_inv_def)
  then show ?thesis
  proof cases
    case sel
    from stop_run [OF leaving this up(2,1)] show ?thesis
      by (intro exI [of _ "[Stop StopClose, Show ShowLeave, Stop StopWait, Stop StopFile]"]) simp
  next
    case pr
    from print_ends [OF inv leaving this few] obtain r1 where r1: "run_step cfg r (Show ShowLine) = Some r1"
      "wr_phase r1 = Leaving e" "wr_show r1 = ShowSelect" "\<not> wr_close r1" "wr_pool r1 = wr_pool r"
      by blast
    from stop_run [OF r1(2-4)] up(1) r1(1,5) show ?thesis
      by (intro exI [of _ "[Show ShowLine, Stop StopClose, Show ShowLeave, Stop StopWait, Stop StopFile]"]) simp
  qed
qed

text \<open>
  What is left until \<open>stop\<close> has ended, counted in moves of \<open>Run\<close> and \<open>show\<close>: every such move takes
  one off, except that the timer, when it wins the \<open>select\<close>, adds the line that is then drawn.
\<close>

fun own_move :: "run_act \<Rightarrow> bool" where
  "own_move (PoolAct a) = False"
| "own_move a = True"

definition ticks :: "run_act list \<Rightarrow> nat" where
  "ticks bs = length (filter (\<lambda>b. b = Show ShowTick) bs)"

fun stop_left :: "run_phase \<Rightarrow> nat" where
  "stop_left (Leaving e) = 3"
| "stop_left (AwaitShow e) = 2"
| "stop_left (ShutFile e) = 1"
| "stop_left ph = 0"

fun show_left :: "show_pc \<Rightarrow> nat" where
  "show_left ShowPrint = 2"
| "show_left ShowSelect = 1"
| "show_left pc = 0"

definition left_to_stop :: "worker_run \<Rightarrow> nat" where
  "left_to_stop r = stop_left (wr_phase r) + show_left (wr_show r)"

definition stopping :: "run_error \<Rightarrow> worker_run \<Rightarrow> bool" where
  "stopping e r \<longleftrightarrow> wr_phase r \<in> {Leaving e, AwaitShow e, ShutFile e, Ended e}"

lemma stop_move_pool: "stop_move c r = Some r' \<Longrightarrow> wr_pool r' = wr_pool r"
  by (cases c) (auto split: run_phase.splits if_splits)

lemma show_move_pool: "show_move c r = Some r' \<Longrightarrow> wr_pool r' = wr_pool r"
  by (cases c) (auto simp: Let_def split: if_splits)

lemma stopping_jobs:
  assumes "stopping e r" "run_move cfg r b = Some r'"
  shows "pl_jobs (wr_pool r') = pl_jobs (wr_pool r)"
proof (cases b)
  case (PoolAct c)
  with assms(2) show ?thesis by (auto dest: pool_step_jobs)
next
  case (Stop c)
  with assms(2) stop_move_pool [of c r r'] show ?thesis by simp
next
  case (Show c)
  with assms(2) show_move_pool [of c r r'] show ?thesis by simp
qed (use assms in \<open>auto simp: stopping_def\<close>)

lemma stop_move_left:
  assumes "stop_inv r" "stopping e r" "stop_move c r = Some r'"
  shows "stopping e r' \<and> left_to_stop r' + 1 = left_to_stop r"
proof (cases c)
  case StopClose
  with assms(2,3) have "wr_phase r = Leaving e" by (auto simp: stopping_def)
  moreover with assms(1) have "\<not> wr_close r" by (simp add: stop_inv_def)
  ultimately show ?thesis using StopClose assms(3) by (auto simp: stopping_def left_to_stop_def)
next
  case StopWait
  with assms(2,3) have "wr_phase r = AwaitShow e" by (auto simp: stopping_def)
  with StopWait assms(3) show ?thesis by (auto simp: stopping_def left_to_stop_def split: if_splits)
next
  case StopFile
  with assms(2,3) have "wr_phase r = ShutFile e" by (auto simp: stopping_def)
  with StopFile assms(3) show ?thesis by (auto simp: stopping_def left_to_stop_def)
qed

lemma show_move_left:
  assumes "stopping e r" "show_move c r = Some r'" "wr_show r' \<noteq> ShowPanicked"
  shows "stopping e r' \<and> left_to_stop r' + 1 = left_to_stop r + (if c = ShowTick then 2 else 0)"
  using assms by (cases c) (auto simp: stopping_def left_to_stop_def Let_def split: if_splits)

lemma stopping_step:
  assumes "worker_inv r" "stopping e r" "length (pl_jobs (wr_pool r)) < 2 ^ 61" "run_step cfg r b = Some r'"
  shows "worker_inv r' \<and> stopping e r' \<and> pl_jobs (wr_pool r') = pl_jobs (wr_pool r) \<and>
    left_to_stop r' + (if own_move b then 1 else 0) = left_to_stop r + 2 * ticks [b]"
proof -
  from assms(4) have move: "run_move cfg r b = Some r'" by (simp add: run_step_def split: if_splits)
  from assms(2) move have "answer_ok b" by (cases b) (auto simp: stopping_def)
  with worker_inv_step [OF assms(1) _ assms(4)] have inv: "worker_inv r'" by blast
  note jobs = stopping_jobs [OF assms(2) move]
  have "stopping e r' \<and> left_to_stop r' + (if own_move b then 1 else 0) = left_to_stop r + 2 * ticks [b]"
  proof (cases b)
    case (Stop c)
    with move stop_move_left [OF _ assms(2), of c r'] assms(1) show ?thesis
      by (simp add: ticks_def worker_inv_def)
  next
    case (Show c)
    have "wr_show r' \<noteq> ShowPanicked"
      using inv jobs assms(3) by (simp add: worker_inv_def stop_inv_def)
    with Show move show_move_left [OF assms(2), of c r'] show ?thesis
      by (simp add: ticks_def)
  next
    case (PoolAct c)
    with move assms(2) show ?thesis
      by (auto simp: stopping_def left_to_stop_def ticks_def)
  qed (use move assms(2) in \<open>auto simp: stopping_def\<close>)
  with inv jobs show ?thesis by blast
qed

lemma stopping_run:
  assumes "worker_inv r" "stopping e r" "length (pl_jobs (wr_pool r)) < 2 ^ 61" "run (run_step cfg) r bs = Some r'"
  shows "worker_inv r' \<and> stopping e r' \<and> length (pl_jobs (wr_pool r')) < 2 ^ 61 \<and>
    left_to_stop r' + length (filter own_move bs) = left_to_stop r + 2 * ticks bs"
  using assms
proof (induction bs arbitrary: r)
  case (Cons b bs)
  then obtain u where u: "run_step cfg r b = Some u" "run (run_step cfg) u bs = Some r'"
    by (auto split: option.splits)
  from stopping_step [OF Cons.prems(1-3) u(1)] Cons.prems(3) Cons.IH [of u] u(2) show ?case
    by (auto simp: ticks_def split: if_splits)
qed (simp add: ticks_def)

text \<open>As long as \<open>stop\<close> has not ended, a move other than the timer's is enabled that takes one off.\<close>

lemma stopping_goes_on:
  assumes "worker_inv r" "stopping e r" "length (pl_jobs (wr_pool r)) < 2 ^ 61" "wr_phase r \<noteq> Ended e"
  shows "\<exists>b. own_move b \<and> b \<noteq> Show ShowTick \<and> run_step cfg r b \<noteq> None"
proof -
  from assms have up: "\<not> crashed (wr_pool r)" "wr_show r \<noteq> ShowPanicked" "wr_phase r \<noteq> StopPanicked"
    using all_done_up by (auto simp: worker_inv_def run_inv_def stop_inv_def stopping_def)
  from assms(2,4) consider (leave) "wr_phase r = Leaving e" | (wait) "wr_phase r = AwaitShow e" | (shut) "wr_phase r = ShutFile e"
    by (auto simp: stopping_def)
  then show ?thesis
  proof cases
    case leave
    with up show ?thesis by (intro exI [of _ "Stop StopClose"]) (simp add: run_step_def)
  next
    case wait
    with assms(1) up(2) consider "wr_show r = ShowSelect" "wr_close r" | "wr_show r = ShowPrint" | "wr_show r = ShowReturned"
      by (cases "wr_show r") (auto simp: worker_inv_def stop_inv_def)
    then show ?thesis
    proof cases
      case 1
      with up show ?thesis by (intro exI [of _ "Show ShowLeave"]) (simp add: run_step_def)
    next
      case 2
      with up show ?thesis by (intro exI [of _ "Show ShowLine"]) (simp add: run_step_def Let_def)
    next
      case 3
      with up wait show ?thesis by (intro exI [of _ "Stop StopWait"]) (simp add: run_step_def)
    qed
  next
    case shut
    with up show ?thesis by (intro exI [of _ "Stop StopFile"]) (simp add: run_step_def)
  qed
qed

section \<open>Properties\<close>

text \<open>
  C6. A worker reports every job exactly once: whatever the interleaving, when a heartbeat is on its
  way, the results in all the requests sent so far are one for each job handed out so far -
  those of failed jobs, too - so no result is lost between two heartbeats or reported twice.
\<close>

theorem worker_reports_exactly_once:
  assumes "New i numCPU create arts = Returns r0" "store_inv arts" "run (run_step cfg) r0 as = Some r"
    and "\<forall>a \<in> set as. answer_ok a \<and> \<not> drops_result a" "wr_phase r = Beating"
  shows "mset (map res_ID (concat (map FinishedJob (wr_sent r)))) = mset (map fst (pl_jobs (wr_pool r)))"
proof -
  from New_Returns [OF assms(1)] have "run_inv True r0"
    using new_worker_inv(1) [OF assms(2)] by metis
  with assms(3,4) have "run_inv True r"
    using run_keeps [of "run_inv True" "\<lambda>a. answer_ok a \<and> \<not> drops_result a" "run_step cfg"] run_inv_step by blast
  with assms(5) all_done_sums [of "pl_pcs (wr_pool r)" "pl_jobs (wr_pool r)"] show ?thesis
    by (auto simp: run_inv_def accounted_def ledger_def sent_ids_def pool_inv_def)
qed

text \<open>
  C23. \<open>show\<close> never panics: as long as the worker has got fewer than 2^61 jobs, \<open>activeJob\<close> is the
  number of job goroutines under way - never negative, and small enough for \<open>strings.Repeat\<close> -
  and \<open>stop\<close> closes its channel once, whatever the interleaving and whatever fails.
\<close>

theorem worker_metrics_safe:
  assumes "New i numCPU create arts = Returns r0" "store_inv arts" "run (run_step cfg) r0 as = Some r"
    and "\<forall>a \<in> set as. answer_ok a" "length (pl_jobs (wr_pool r)) < 2 ^ 61"
  shows "sint (activeJob (pl_metrics (wr_pool r))) = int (length (filter under_way (pl_pcs (wr_pool r)))) \<and>
    wr_show r \<noteq> ShowPanicked \<and> wr_phase r \<noteq> StopPanicked"
proof -
  from worker_reachable [OF assms(1-4)] have inv: "worker_inv r" .
  then obtain M where "pool_inv (wr_pool r)" "ledger M (wr_pool r)"
    by (auto simp: worker_inv_def run_inv_def accounted_def)
  from active_sint [OF this] assms(5) inv show ?thesis
    by (simp add: worker_inv_def stop_inv_def)
qed

text \<open>
  C24. \<open>Run\<close> ends once it is returning. In every continuation, whatever the interleaving with \<open>show\<close>
  and with the uploads that are served meanwhile: if the timer wins the \<open>select\<close> of \<open>show\<close> \<open>n\<close> times,
  \<open>Run\<close> and \<open>show\<close> make at most \<open>5 + 2 n\<close> moves; and as long as \<open>stop\<close> has not ended, one of them can
  move other than by the timer - so only a \<open>select\<close> that prefers the timer to the closed channel for
  ever keeps it from ending. When it has ended, no job is under way, \<open>show\<close> has returned, and the
  statistics file is closed - no line is written to a closed file.
\<close>

theorem worker_stops:
  assumes "New i numCPU create arts = Returns r0" "store_inv arts" "run (run_step cfg) r0 as = Some r"
    and "\<forall>a \<in> set as. answer_ok a" "length (pl_jobs (wr_pool r)) < 2 ^ 61"
  shows "(wr_phase r = Leaving e \<and> run (run_step cfg) r bs = Some r' \<longrightarrow>
      length (filter own_move bs) \<le> 5 + 2 * ticks bs \<and>
      (wr_phase r' = Ended e \<or> (\<exists>b. own_move b \<and> b \<noteq> Show ShowTick \<and> run_step cfg r' b \<noteq> None))) \<and>
    (wr_phase r = Leaving e \<longrightarrow>
      (\<exists>bs r'. length bs \<le> 5 \<and> run (run_step cfg) r bs = Some r' \<and> wr_phase r' = Ended e)) \<and>
    (wr_phase r = Ended e \<longrightarrow> wr_show r = ShowReturned \<and> (\<forall>ls. wr_file r \<noteq> OpenFile ls) \<and>
      (\<forall>pc \<in> set (pl_pcs (wr_pool r)). is_done pc)) \<and>
    (wr_file r = ClosedFile ls \<longrightarrow> wr_show r = ShowReturned)"
proof -
  from worker_reachable [OF assms(1-4)] have inv: "worker_inv r" .
  have "length (filter own_move bs) \<le> 5 + 2 * ticks bs \<and>
      (wr_phase r' = Ended e \<or> (\<exists>b. own_move b \<and> b \<noteq> Show ShowTick \<and> run_step cfg r' b \<noteq> None))"
    if "wr_phase r = Leaving e" "run (run_step cfg) r bs = Some r'"
  proof -
    from that(1) have "stopping e r" by (simp add: stopping_def)
    note run = stopping_run [OF inv this assms(5) that(2)]
    have "left_to_stop r \<le> 5" using that(1) by (cases "wr_show r") (simp_all add: left_to_stop_def)
    with run stopping_goes_on [of r' e cfg] show ?thesis by fastforce
  qed
  with inv stop_ends [OF inv _ assms(5), of e cfg] show ?thesis
    by (auto simp: worker_inv_def run_inv_def stop_inv_def file_inv_def)
qed

section \<open>Witnesses\<close>

text \<open>A worker with the dependency of its first job in the cache runs through one cycle.\<close>

definition demo_start :: worker_run where
  "demo_start = new_worker ''w1'' 4 (OpenFile []) (empty_sys\<lparr>shared := (shared empty_sys)\<lparr>cacheDir := [idB \<mapsto> []]\<rparr>\<rparr>)"

definition demo_handout :: "run_act list" where
  "demo_handout = [Look False, Answer (Inr [(idA, pool_job idA)])]"

lemma demo_new:
  "New ''w1'' 4 (\<lambda>_. True) (empty_sys\<lparr>shared := (shared empty_sys)\<lparr>cacheDir := [idB \<mapsto> []]\<rparr>\<rparr>) = Returns demo_start"
  "store_inv (empty_sys\<lparr>shared := (shared empty_sys)\<lparr>cacheDir := [idB \<mapsto> []]\<rparr>\<rparr>)"
  by (simp_all add: New_def stat_path_def demo_start_def empty_sys_def
      store_inv_def cache_inv_def cache_ok_def entry_ok_def writers_def draft_ok_def)

definition demo_cycle :: "run_act list" where
  "demo_cycle = demo_handout @ map PoolAct (one_job_steps None) @ [AllDone, Look False]"

lemmas run_eval = run_step_def demo_start_def new_worker_def newWorkerState_def newWorkerMetrics_def spawn_def pull_def
  demo_handout_def pool_eval

lemma demo_cycle_runs:
  "\<exists>r. run (run_step pool_cfg0) demo_start demo_cycle = Some r \<and> wr_phase r = Beating \<and>
    map fst (pl_jobs (wr_pool r)) = [idA]"
  by (simp add: demo_cycle_def one_job_steps_def run_eval)

lemma demo_cycle_calm: "\<forall>a \<in> set demo_cycle. answer_ok a \<and> \<not> drops_result a"
  using one_job_calm [of None] by (auto simp: demo_cycle_def demo_handout_def pool_job_def spec_ID_def)

theorem worker_reports_exactly_once_witness:
  "\<exists>r. run (run_step pool_cfg0) demo_start demo_cycle = Some r \<and>
    mset (map res_ID (concat (map FinishedJob (wr_sent r)))) = {#idA#}"
proof -
  obtain r where r: "run (run_step pool_cfg0) demo_start demo_cycle = Some r" "wr_phase r = Beating"
    "map fst (pl_jobs (wr_pool r)) = [idA]"
    using demo_cycle_runs by (elim exE conjE)
  from worker_reports_exactly_once [OF demo_new r(1) demo_cycle_calm r(2)]
  have "mset (map res_ID (concat (map FinishedJob (wr_sent r)))) = {#idA#}"
    unfolding r(3) by simp
  with r(1) show ?thesis by (intro exI conjI)
qed

lemma demo_started:
  "\<exists>r. run (run_step pool_cfg0) demo_start (demo_handout @ [PoolAct (go 0 Calm), Show ShowTick, Show ShowLine]) = Some r \<and>
    pl_pcs (wr_pool r) = [Loading] \<and> length (pl_jobs (wr_pool r)) = 1"
  by (simp add: run_eval scheduleTask_def repeat_panics_def)

theorem worker_metrics_safe_witness:
  "\<exists>r. run (run_step pool_cfg0) demo_start (demo_handout @ [PoolAct (go 0 Calm), Show ShowTick, Show ShowLine]) = Some r \<and>
    sint (activeJob (pl_metrics (wr_pool r))) = 1 \<and> wr_show r \<noteq> ShowPanicked"
proof -
  obtain r where r: "run (run_step pool_cfg0) demo_start (demo_handout @ [PoolAct (go 0 Calm), Show ShowTick, Show ShowLine]) = Some r"
    "pl_pcs (wr_pool r) = [Loading]" "length (pl_jobs (wr_pool r)) = 1"
    using demo_started by blast
  have "\<forall>a \<in> set (demo_handout @ [PoolAct (go 0 Calm), Show ShowTick, Show ShowLine]). answer_ok a"
    by (simp add: demo_handout_def pool_job_def spec_ID_def)
  from worker_metrics_safe [OF demo_new r(1) this] r show ?thesis
    by (intro exI [of _ r]) simp
qed

text \<open>A cancelled worker whose timer still wins twice before \<open>show\<close> sees the closed channel.\<close>

definition demo_stop :: "run_act list" where
  "demo_stop = [Show ShowLine, Stop StopClose, Show ShowTick, Show ShowLine, Show ShowTick, Show ShowLine, Show ShowLeave,
     Stop StopWait, Stop StopFile]"

theorem worker_stops_witness:
  "\<exists>r r'. run (run_step pool_cfg0) demo_start [Show ShowTick, Look True] = Some r \<and>
    run (run_step pool_cfg0) r demo_stop = Some r' \<and> length (filter own_move demo_stop) \<le> 5 + 2 * ticks demo_stop \<and>
    ticks demo_stop = 2 \<and> wr_phase r' = Ended CtxErr \<and> wr_file r' = ClosedFile [0, 0, 0] \<and> wr_show r' = ShowReturned"
proof -
  obtain r r' where r: "run (run_step pool_cfg0) demo_start [Show ShowTick, Look True] = Some r" "wr_phase r = Leaving CtxErr"
    "pl_jobs (wr_pool r) = []" "run (run_step pool_cfg0) r demo_stop = Some r'" "wr_phase r' = Ended CtxErr"
    "wr_file r' = ClosedFile [0, 0, 0]" "wr_show r' = ShowReturned"
    by (simp add: run_eval demo_stop_def repeat_panics_def)
  from worker_stops [OF demo_new r(1), of CtxErr demo_stop r'] r show ?thesis
    by (intro exI [of _ r] exI [of _ r']) (simp, simp add: demo_stop_def ticks_def)
qed

text \<open>
  An identifier of fewer than two characters brings \<open>New\<close> down; \<open>localhost:8080\<close> is the kind
  the tests use.
\<close>

lemma New_short_id: "New ''w'' numCPU create arts = Panics ''slice bounds out of range''"
  by (simp add: New_def stat_path_def)

end
