(* ===== verification/Worker_Cycle.thy ===== *)
theory Worker_Cycle
  imports Pool_Claims Heartbeat_Service Scheduler_Spec
begin

text \<open>
  A worker's cycle seen from both ends: a heartbeat hands jobs out, the worker's goroutines run
  them, and the next heartbeat reports them. First, a heartbeat is a run of the scheduler's
  machine, so everything proved of that machine holds of a coordinator that serves heartbeats.
\<close>

section \<open>A heartbeat is a run of the scheduler\<close>

text \<open>A heartbeat schedules nothing.\<close>

fun schedules :: "sched_act \<Rightarrow> bool" where
  "schedules (ActSchedule job) = True"
| "schedules a = False"

definition reaches :: "sched_sys \<Rightarrow> Scheduler \<Rightarrow> bool" where
  "reaches s c \<longleftrightarrow> (\<exists>bs t. run sched_step s bs = Some t \<and> sc_sched t = c \<and> (\<forall>b \<in> set bs. \<not> schedules b))"

lemma reachesI:
  "run sched_step s bs = Some t \<Longrightarrow> sc_sched t = c \<Longrightarrow> \<forall>b \<in> set bs. \<not> schedules b \<Longrightarrow> reaches s c"
  unfolding reaches_def by blast

lemma reaches_refl [simp]: "reaches s (sc_sched s)"
  by (rule reachesI [of s "[]"]) simp_all

lemma reaches_run:
  assumes "run sched_step s bs = Some t" "\<forall>b \<in> set bs. \<not> schedules b" "reaches t c"
  shows "reaches s c"
proof -
  from assms(3) obtain cs u where "run sched_step t cs = Some u" "sc_sched u = c" "\<forall>b \<in> set cs. \<not> schedules b"
    by (auto simp: reaches_def)
  with assms(1,2) show ?thesis by (intro reachesI [of s "bs @ cs" u]) (auto simp: run_append)
qed

lemma reachesE:
  assumes "reaches s c"
  obtains bs t where "run sched_step s bs = Some t" "sc_sched t = c" "\<forall>b \<in> set bs. \<not> schedules b"
  using assms by (auto simp: reaches_def)

text \<open>So a chain of operations is followed by following each of them.\<close>

lemma reaches_trans:
  assumes "reaches s c" "\<And>t. sc_sched t = c \<Longrightarrow> reaches t c'"
  shows "reaches s c'"
  using assms by (blast elim: reachesE intro: reaches_run)

lemma OnJobComplete_reaches:
  assumes "OnJobComplete w i res (sc_sched s) = Returns (e, c)"
  shows "reaches s c"
proof -
  from assms obtain c1 where "complete_job i res (sc_sched s) = Returns (e, c1)" "c = add_artifact w i c1"
    "\<not> isStop (sc_sched s)"
    by (auto simp: OnJobComplete_def checkIsStop_def go_simps split: if_splits)
  then have "\<exists>t. run sched_step s [ActComplete w i res, ActAdd w i] = Some t \<and> sc_sched t = c"
    by simp
  then obtain t where "run sched_step s [ActComplete w i res, ActAdd w i] = Some t" "sc_sched t = c" by blast
  then show ?thesis by (rule reachesI) simp
qed

lemma PickJob_reaches:
  assumes "PickJob ctx_done prefer (sc_sched s) = Returns (p, c)"
  shows "reaches s c"
proof (cases p)
  case None
  with assms have "c = sc_sched s"
    by (auto simp: PickJob_def checkIsStop_def split: if_splits option.splits prod.splits)
  then show ?thesis by simp
next
  case (Some q)
  with assms have "PickJob False True (sc_sched s) = Returns (Some q, c)"
    by (auto simp: PickJob_def checkIsStop_def split: if_splits option.splits prod.splits)
  then have "\<exists>t. run sched_step s [ActPick] = Some t \<and> sc_sched t = c"
    by simp
  then obtain t where "run sched_step s [ActPick] = Some t" "sc_sched t = c" by blast
  then show ?thesis by (rule reachesI) simp
qed

lemma TryPickJob_PickJob:
  "TryPickJob ctx_done prefer c = Returns ((p, ok), c') \<Longrightarrow>
     c' = c \<or> PickJob ctx_done prefer c = Returns (p, c')"
  by (auto simp: TryPickJob_def PickJob_def checkIsStop_def split: if_splits option.splits prod.splits)

lemma TryPickJob_reaches:
  "TryPickJob ctx_done prefer (sc_sched s) = Returns ((p, ok), c) \<Longrightarrow> reaches s c"
  using TryPickJob_PickJob PickJob_reaches by fastforce

lemma finish_jobs_reaches: "finish_jobs w js U (sc_sched s) = (r, c) \<Longrightarrow> reaches s c"
proof (induction js arbitrary: U s)
  case (Cons j js)
  show ?case
  proof (cases "OnJobComplete w (res_ID j) (Some j) (sc_sched s)")
    case (Returns x)
    obtain e c1 where x: "x = (e, c1)" by fastforce
    have first: "reaches s c1" using OnJobComplete_reaches Returns x by blast
    show ?thesis
    proof (cases e)
      case True
      with Cons.prems Returns x have "finish_jobs w js (insert (res_ID j) U) c1 = (r, c)" by simp
      with Cons.IH first show ?thesis by (blast intro: reaches_trans)
    qed (use Cons.prems Returns x first in simp)
  qed (use Cons.prems in auto)
qed auto

lemma add_artifacts_reaches: "add_artifacts w U is (sc_sched s) = (r, c) \<Longrightarrow> reaches s c"
proof (induction "is" arbitrary: s)
  case (Cons i "is")
  show ?case
  proof (cases "i \<in> U")
    case False
    show ?thesis
    proof (cases "OnJobComplete w i None (sc_sched s)")
      case (Returns x)
      obtain e c1 where x: "x = (e, c1)" by fastforce
      have "reaches s c1" using OnJobComplete_reaches Returns x by blast
      moreover from Cons.prems Returns x False have "add_artifacts w U is c1 = (r, c)" by simp
      ultimately show ?thesis using Cons.IH by (blast intro: reaches_trans)
    qed (use Cons.prems False in auto)
  qed (use Cons in auto)
qed auto

lemma attempts_reaches: "attempts n sel (sc_sched s) = (r, c) \<Longrightarrow> reaches s c"
proof (induction n arbitrary: s)
  case (Suc n)
  show ?case
  proof (cases "TryPickJob (fst (sel n)) (snd (sel n)) (sc_sched s)")
    case (Returns x)
    obtain p ok c1 where x: "x = ((p, ok), c1)" by (cases x) auto
    have first: "reaches s c1" using TryPickJob_reaches Returns x by blast
    show ?thesis
    proof (cases ok)
      case True
      with Suc.prems Returns x first show ?thesis by (auto split: option.splits)
    next
      case False
      with Suc.prems Returns x have "attempts n sel c1 = (r, c)" by simp
      with Suc.IH first show ?thesis by (blast intro: reaches_trans)
    qed
  qed (use Suc.prems in auto)
qed auto

lemma fill_slots_reaches: "fill_slots n sel m (sc_sched s) = (r, c) \<Longrightarrow> reaches s c"
proof (induction n arbitrary: m s)
  case (Suc n)
  obtain a c1 where att: "attempts 4 (sel n) (sc_sched s) = (a, c1)" by fastforce
  then have first: "reaches s c1" by (rule attempts_reaches)
  have rest: "reaches s c" if "fill_slots n sel m' c1 = (r, c)" for m'
    using that first Suc.IH by (blast intro: reaches_trans)
  from Suc.prems att first rest show ?case
    by (cases a) auto
qed auto

lemma Heartbeat_reaches:
  assumes "Heartbeat first sel req (sc_sched s) = Returns (r, c)"
  shows "reaches s c"
proof -
  obtain r1 c1 where fin: "finish_jobs (hb_WorkerID req) (FinishedJob req) {} (sc_sched s) = (r1, c1)"
    by fastforce
  then have s1: "reaches s c1" by (rule finish_jobs_reaches)
  show ?thesis
  proof (cases r1)
    case (Inr uniq)
    obtain r2 c2 where add: "add_artifacts (hb_WorkerID req) uniq (AddedArtifacts req) c1 = (r2, c2)"
      by fastforce
    with s1 have s2: "reaches s c2" by (blast intro: reaches_trans add_artifacts_reaches)
    show ?thesis
    proof (cases r2)
      case (Inr u)
      show ?thesis
      proof (cases "PickJob (fst first) (snd first) c2")
        case (Returns x)
        obtain p c3 where x: "x = (p, c3)" by fastforce
        with s2 Returns have s3: "reaches s c3" by (blast intro: reaches_trans PickJob_reaches)
        show ?thesis
        proof (cases p)
          case (Some q)
          with assms fin \<open>r1 = Inr uniq\<close> add Inr Returns x
          have "fill_slots (nat (FreeSlots req - 1)) sel (run_spec c3 q Map.empty) c3 = (r, c)"
            by (simp add: Heartbeat_def RegisterWorker_def)
          with s3 show ?thesis by (blast intro: reaches_trans fill_slots_reaches)
        qed (use assms fin \<open>r1 = Inr uniq\<close> add Inr Returns x s3 in
             \<open>simp add: Heartbeat_def RegisterWorker_def\<close>)
      qed (use assms fin \<open>r1 = Inr uniq\<close> add Inr s2 in \<open>simp_all add: Heartbeat_def RegisterWorker_def\<close>)
    qed (use assms fin \<open>r1 = Inr uniq\<close> add s2 in \<open>simp add: Heartbeat_def RegisterWorker_def\<close>)
  qed (use assms fin s1 in \<open>simp add: Heartbeat_def RegisterWorker_def\<close>)
qed

section \<open>The jobs of a response are in the table\<close>

definition known_jobs :: "(ID \<rightharpoonup> JobSpec) \<Rightarrow> Scheduler \<Rightarrow> bool" where
  "known_jobs m c \<longleftrightarrow> (\<forall>i spec. m i = Some spec \<longrightarrow>
     spec_ID spec = i \<and> (\<exists>p. jobs c i = Some p \<and> pj_Job (store c p) = spec))"

lemma reaches_inv: "sched_inv s \<Longrightarrow> reaches s c \<Longrightarrow> \<exists>t. sched_inv t \<and> sc_sched t = c"
  by (blast elim: reachesE intro: sc.run_preserves)

lemma known_jobs_step:
  "sched_inv s \<Longrightarrow> sched_step s a = Some t \<Longrightarrow> known_jobs m (sc_sched s) \<Longrightarrow> known_jobs m (sc_sched t)"
  unfolding known_jobs_def using sched_step_keeps(1,3) by metis

lemma known_jobs_run:
  assumes "known_jobs m (sc_sched s)" "sched_inv s" "run sched_step s bs = Some t"
  shows "known_jobs m (sc_sched t)"
  using sc.run_stable [where Q = "\<lambda>_. True" and P = "\<lambda>s. known_jobs m (sc_sched s)", OF _ assms(2,3)]
    known_jobs_step assms(1) by blast

lemma known_jobs_reaches: "known_jobs m (sc_sched s) \<Longrightarrow> sched_inv s \<Longrightarrow> reaches s c \<Longrightarrow> known_jobs m c"
  by (blast elim: reachesE intro: known_jobs_run)

lemma PickJob_known:
  assumes "sched_inv s" "PickJob ctx_done prefer (sc_sched s) = Returns (Some p, c)" "known_jobs m c"
  shows "known_jobs (run_spec c p m) c"
proof -
  from assms(2) obtain q where "Pop (queue (sc_sched s)) = Some (p, q)" and c: "c = (sc_sched s)\<lparr>queue := q\<rparr>"
    by (auto simp: PickJob_def checkIsStop_def split: if_splits option.splits prod.splits)
  from cq.pop_Some [OF this(1)] sched_parts(2) [OF assms(1)]
  have "jobs c (spec_ID (pj_Job (store c p))) = Some p"
    by (simp add: queue_ok_def c)
  with assms(3) show ?thesis
    by (simp add: known_jobs_def run_spec_def)
qed

lemma attempts_known:
  "attempts n sel (sc_sched s) = (GotJob p, c) \<Longrightarrow> sched_inv s \<Longrightarrow> known_jobs m (sc_sched s) \<Longrightarrow>
     known_jobs (run_spec c p m) c"
proof (induction n arbitrary: s)
  case (Suc n)
  from Suc.prems(1) obtain q ok c1 where tp: "TryPickJob (fst (sel n)) (snd (sel n)) (sc_sched s) = Returns ((q, ok), c1)"
    and rest: "if ok then q = Some p \<and> c1 = c else attempts n sel c1 = (GotJob p, c)"
    by (auto split: go.splits prod.splits if_splits option.splits)
  note s1 = TryPickJob_reaches [OF tp]
  have m1: "known_jobs m c1" using known_jobs_reaches Suc.prems(2,3) s1 by blast
  show ?case
  proof (cases ok)
    case True
    with rest tp have "PickJob (fst (sel n)) (snd (sel n)) (sc_sched s) = Returns (Some p, c)"
      by (auto simp: TryPickJob_def PickJob_def checkIsStop_def split: if_splits option.splits prod.splits)
    with PickJob_known Suc.prems(2) m1 True rest show ?thesis by auto
  next
    case False
    with rest reaches_inv [OF Suc.prems(2) s1] m1 Suc.IH show ?thesis by auto
  qed
qed simp

lemma fill_slots_known:
  "fill_slots n sel m (sc_sched s) = (HbResponse resp, c) \<Longrightarrow> sched_inv s \<Longrightarrow> known_jobs m (sc_sched s) \<Longrightarrow>
     known_jobs (JobsToRun resp) c"
proof (induction n arbitrary: m s)
  case (Suc n)
  obtain a c1 where att: "attempts 4 (sel n) (sc_sched s) = (a, c1)" by fastforce
  then have s1: "reaches s c1" by (rule attempts_reaches)
  with reaches_inv Suc.prems(2) obtain t where t: "sched_inv t" "sc_sched t = c1" by blast
  from Suc.prems(1) att obtain m' where rest: "fill_slots n sel m' c1 = (HbResponse resp, c)"
    and m': "m' = m \<or> (\<exists>p. a = GotJob p \<and> m' = run_spec c1 p m)"
    by (cases a) auto
  have "known_jobs m' c1"
    using m' att attempts_known Suc.prems(2,3) known_jobs_reaches s1 by blast
  with Suc.IH rest t show ?case by blast
qed auto

lemma Heartbeat_known:
  assumes "Heartbeat first sel req (sc_sched s) = Returns (HbResponse resp, c)" "sched_inv s"
  shows "known_jobs (JobsToRun resp) c"
proof -
  from assms(1) obtain uniq c1 c2 p c3 where
    fin: "finish_jobs (hb_WorkerID req) (FinishedJob req) {} (sc_sched s) = (Inr uniq, c1)"
    and add: "add_artifacts (hb_WorkerID req) uniq (AddedArtifacts req) c1 = (Inr (), c2)"
    and pick: "PickJob (fst first) (snd first) c2 = Returns (Some p, c3)"
    and fill: "fill_slots (nat (FreeSlots req - 1)) sel (run_spec c3 p Map.empty) c3 = (HbResponse resp, c)"
    by (auto simp: Heartbeat_def RegisterWorker_def split: prod.splits sum.splits go.splits option.splits)
  from fin have "reaches s c1" by (rule finish_jobs_reaches)
  with add have "reaches s c2" by (blast intro: reaches_trans add_artifacts_reaches)
  with reaches_inv assms(2) obtain t where t: "sched_inv t" "sc_sched t = c2" by blast
  from pick t have "reaches t c3" by (blast intro: PickJob_reaches)
  with reaches_inv t(1) obtain u where u: "sched_inv u" "sc_sched u = c3" by blast
  from PickJob_known [OF t(1), of _ _ p c3 Map.empty] pick t(2) have "known_jobs (run_spec c3 p Map.empty) c3"
    by (simp add: known_jobs_def)
  with fill_slots_known [of _ sel _ u] fill u show ?thesis by blast
qed

section \<open>Reports of known jobs\<close>

definition reported_by :: "WorkerID \<Rightarrow> Scheduler \<Rightarrow> ID \<Rightarrow> bool" where
  "reported_by w c i \<longleftrightarrow> (\<exists>p ws. jobs c i = Some p \<and> Finished (store c p) \<and> artifacts c i = Some ws \<and> last ws = w)"

lemma reported_add:
  "jobs d i = Some p \<Longrightarrow> Finished (store d p) \<Longrightarrow> reported_by w (add_artifact w i d) i"
  "reported_by w d j \<Longrightarrow> reported_by w (add_artifact w i d) j"
  by (auto simp: reported_by_def add_artifact_def Let_def)

lemma OnJobComplete_known:
  assumes "jobs_ok c" "\<not> isStop c" "jobs c i \<noteq> None"
  obtains c1 where "OnJobComplete w i res c = Returns (True, c1)" "jobs_ok c1" "\<not> isStop c1"
    "jobs c1 = jobs c" "reported_by w c1 i" "\<And>j. reported_by w c j \<Longrightarrow> reported_by w c1 j"
proof -
  have "\<exists>d p. complete_job i res c = Returns (True, d) \<and> jobs_ok d \<and> isStop d = isStop c \<and> jobs d = jobs c \<and>
      jobs d i = Some p \<and> Finished (store d p) \<and> (\<forall>j. reported_by w c j \<longrightarrow> reported_by w d j)"
    using assms(1)
  proof (cases rule: complete_job_cases [of _ i res])
    case (first p)
    let ?d = "c\<lparr>store := (store c)(p := (store c p)\<lparr>isCloseFinished := True, Result := res, Finished := True\<rparr>)\<rparr>"
    have "jobs_ok ?d"
      using assms(1) by (simp add: jobs_ok_def)
    moreover have "reported_by w ?d j" if "reported_by w c j" for j
      using that by (auto simp: reported_by_def)
    ultimately show ?thesis
      using first by (intro exI [of _ p] exI [of _ ?d]) simp
  qed (use assms in auto)
  then obtain d p where d: "complete_job i res c = Returns (True, d)" "jobs_ok d" "isStop d = isStop c"
    "jobs d = jobs c" "jobs d i = Some p" "Finished (store d p)" "\<And>j. reported_by w c j \<Longrightarrow> reported_by w d j"
    by blast
  from d assms(2) reported_add(1) [OF d(5,6)] show ?thesis
    by (intro that [of "add_artifact w i d"])
      (simp_all add: OnJobComplete_def checkIsStop_def jobs_ok_def reported_add(2))
qed

lemma finish_jobs_all:
  assumes "jobs_ok c" "\<not> isStop c" "\<forall>r \<in> set rs. jobs c (res_ID r) \<noteq> None" "\<forall>i \<in> U. reported_by w c i"
  shows "\<exists>c'. finish_jobs w rs U c = (Inr (U \<union> res_ID ` set rs), c') \<and>
    (\<forall>i \<in> U \<union> res_ID ` set rs. reported_by w c' i)"
  using assms
proof (induction rs arbitrary: U c)
  case (Cons r rs)
  then obtain c1 where c1: "OnJobComplete w (res_ID r) (Some r) c = Returns (True, c1)" "jobs_ok c1" "\<not> isStop c1"
    "jobs c1 = jobs c" "reported_by w c1 (res_ID r)" "\<And>j. reported_by w c j \<Longrightarrow> reported_by w c1 j"
    using OnJobComplete_known [of c "res_ID r" w "Some r"] by (metis list.set_intros(1))
  then have "\<exists>c'. finish_jobs w rs (insert (res_ID r) U) c1 = (Inr (insert (res_ID r) U \<union> res_ID ` set rs), c') \<and>
      (\<forall>i \<in> insert (res_ID r) U \<union> res_ID ` set rs. reported_by w c' i)"
    using Cons.prems by (intro Cons.IH) auto
  with c1(1) show ?case by simp
qed simp

section \<open>Properties\<close>

text \<open>
  C8. A cycle of a worker, seen from the coordinator: a heartbeat hands out jobs, the worker's
  goroutines run them to their end in any interleaving, and whatever the coordinator has done
  meanwhile, the worker's next heartbeat is accepted: every report is for a scheduled job, so
  that none of them panics with \<open>non schedule job finished\<close>, and afterwards each job that was
  handed out is finished and this worker is the last one recorded for its artifact. That is so for
  the jobs that failed, too, although they have published none (\<open>failed_job_located\<close>): for them
  \<open>LocateArtifact\<close> does not keep what the README of the scheduler promises.
\<close>

theorem worker_cycle_completes:
  assumes "run sched_step sched_fresh as = Some s"
    and "Heartbeat first sel req (sc_sched s) = Returns (HbResponse resp, sc_sched t)"
    and "run sched_step s bs = Some t" "run sched_step t cs = Some u" "\<not> isStop (sc_sched u)"
    and "pool_start p" "map_of (pl_jobs p) = JobsToRun resp" "ws_FinishedJob (pl_state p) = []"
    and "results_ok (pl_results p)" "run (pool_step cfg) p ds = Some q"
    and "\<forall>a \<in> set ds. \<not> gives_up a" "\<forall>pc \<in> set (pl_pcs q). is_done pc"
  shows "\<exists>c. finish_jobs w (FinishedJob (fst (pull w (pl_state q)))) {} (sc_sched u) = (Inr (dom (JobsToRun resp)), c) \<and>
    (\<forall>i \<in> dom (JobsToRun resp). reported_by w c i)"
proof -
  have s: "sched_inv s" by (rule sc.reachable_inv [OF refl assms(1)])
  then have t: "sched_inv t" using assms(3) by (blast intro: sc.run_preserves)
  then have u: "sched_inv u" using assms(4) by (blast intro: sc.run_preserves)
  from known_jobs_run [OF Heartbeat_known [OF assms(2) s] t assms(4)]
  have known: "known_jobs (JobsToRun resp) (sc_sched u)" .
  from runs_books [OF assms(6,9,10,11)] obtain rs where rs: "ws_FinishedJob (pl_state q) = rs"
    "mset (map res_ID rs) = pool_sum done_ids (pl_jobs p) (pl_pcs q)" and len: "pl_jobs q = pl_jobs p"
    using assms(8) by (auto simp: books_def)
  have "length (pl_jobs p) = length (pl_pcs q)"
    using pl.reachable_inv [OF assms(6,10)] len by (simp add: pool_inv_def)
  then have "pool_sum done_ids (pl_jobs p) (pl_pcs q) = mset (map fst (pl_jobs p))"
    using pool_sum_const [of "pl_jobs p" "pl_pcs q" done_ids "\<lambda>j. {#fst j#}"] assms(12)
    by (simp add: done_ids_def)
  with rs(2) have "res_ID ` set rs = fst ` set (pl_jobs p)"
    by (metis set_map set_mset_mset)
  also have "\<dots> = dom (JobsToRun resp)"
    using assms(7) by (metis dom_map_of_conv_image_fst)
  finally have ids: "res_ID ` set rs = dom (JobsToRun resp)" .
  with known have "\<forall>r \<in> set rs. jobs (sc_sched u) (res_ID r) \<noteq> None"
    by (fastforce simp: known_jobs_def)
  with finish_jobs_all [of "sc_sched u" rs "{}" w] sched_parts(1) [OF u] assms(5) rs(1) ids show ?thesis
    by (simp add: pull_def)
qed

definition cycle_request :: HeartbeatRequest where
  "cycle_request = \<lparr>hb_WorkerID = ''w'', FreeSlots = 1, FinishedJob = [], AddedArtifacts = []\<rparr>"

lemma cycle_heartbeat:
  "\<exists>s t. run sched_step sched_fresh [ActSchedule (pool_job idA)] = Some s \<and> run sched_step s [ActPick] = Some t \<and>
    Heartbeat (False, True) (\<lambda>_ _. (False, True)) cycle_request (sc_sched s) =
      Returns (HbResponse \<lparr>JobsToRun = [idA \<mapsto> pool_job idA]\<rparr>, sc_sched t) \<and> \<not> isStop (sc_sched t)"
  by (simp add: sched_fresh_def NewScheduler_def newChanQueue_def ScheduleJob_def checkIsStop_def Push_def Pop_def PickJob_def
      Heartbeat_def RegisterWorker_def cycle_request_def run_spec_def new_pending_def pool_job_def spec_ID_def queue_capacity_def Let_def)

theorem worker_cycle_completes_witness:
  "\<exists>(t :: sched_sys) q c. run (pool_step pool_cfg0) (pool_with [idB \<mapsto> []] [idA]) (one_job_steps None) = Some q \<and>
    finish_jobs ''w'' (FinishedJob (fst (pull ''w'' (pl_state q)))) {} (sc_sched t) = (Inr {idA}, c) \<and>
    reported_by ''w'' c idA"
proof -
  obtain s t where st: "run sched_step sched_fresh [ActSchedule (pool_job idA)] = Some s" "run sched_step s [ActPick] = Some t"
    "Heartbeat (False, True) (\<lambda>_ _. (False, True)) cycle_request (sc_sched s) =
      Returns (HbResponse \<lparr>JobsToRun = [idA \<mapsto> pool_job idA]\<rparr>, sc_sched t)" "\<not> isStop (sc_sched t)"
    using cycle_heartbeat by blast
  obtain q where q: "run (pool_step pool_cfg0) (pool_with [idB \<mapsto> []] [idA]) (one_job_steps None) = Some q"
    and pcs: "pl_pcs q = [Done []]"
    using one_job_runs by blast
  have "map_of (pl_jobs (pool_with [idB \<mapsto> []] [idA])) = [idA \<mapsto> pool_job idA]"
    "ws_FinishedJob (pl_state (pool_with [idB \<mapsto> []] [idA])) = []"
    by (simp_all add: pool_with_def newWorkerState_def)
  with worker_cycle_completes [OF st(1,3,2) _ st(4) pool_with_start _ _ pool_with_results q, of "[]" "''w''"] one_job_calm pcs
  obtain c where "finish_jobs ''w'' (FinishedJob (fst (pull ''w'' (pl_state q)))) {} (sc_sched t) = (Inr {idA}, c)"
    "reported_by ''w'' c idA"
    by auto
  with q show ?thesis by (intro exI conjI)
qed

text \<open>
  A failed job: its directory is not in the cache of the worker, and the worker that reported it is
  what \<open>LocateArtifact\<close> answers.
\<close>

lemma failed_job_located:
  "\<exists>t q c. run sched_step sched_fresh [ActSchedule (pool_job idA), ActPick] = Some t \<and>
    run (pool_step pool_cfg0) (pool_with [idB \<mapsto> []] [idA]) (one_job_steps (Some ''exit status 1'')) = Some q \<and>
    cacheDir (shared (pl_cache q)) idA = None \<and>
    finish_jobs ''w'' (FinishedJob (fst (pull ''w'' (pl_state q)))) {} (sc_sched t) = (Inr {idA}, c) \<and>
    LocateArtifact r idA c = Returns (''w'', True)"
proof -
  have "\<exists>q. run (pool_step pool_cfg0) (pool_with [idB \<mapsto> []] [idA]) (one_job_steps (Some ''exit status 1'')) = Some q \<and>
    cacheDir (shared (pl_cache q)) idA = None \<and> (\<exists>res. ws_FinishedJob (pl_state q) = [res] \<and> res_ID res = idA)"
    by (simp add: one_job_steps_def pool_eval exec_failed_def newWorkerState_def addJobResult_def new_result_def)
  then obtain q res where q: "run (pool_step pool_cfg0) (pool_with [idB \<mapsto> []] [idA]) (one_job_steps (Some ''exit status 1'')) = Some q"
    "cacheDir (shared (pl_cache q)) idA = None" "ws_FinishedJob (pl_state q) = [res]" "res_ID res = idA"
    by blast
  show ?thesis
    using q by (simp add: pull_def sched_fresh_def NewScheduler_def newChanQueue_def ScheduleJob_def checkIsStop_def Push_def
        Pop_def PickJob_def new_pending_def pool_job_def spec_ID_def queue_capacity_def Let_def OnJobComplete_def
        complete_job_def add_artifact_def LocateArtifact_def)
qed

end
