(* ===== verification/Signalled_Jobs.thy ===== *)
theory Signalled_Jobs
  imports Worker_Cycle Signal_Properties
begin

text \<open>
  The way of a job from the signal of its build through the scheduler and a heartbeat to the goroutines
  of a worker: the worker relies on the specification to name a worker for every dependency, and
  the signal gives it one that does.
\<close>

section \<open>Specifications that name their dependencies\<close>

definition lists_deps :: "JobSpec \<Rightarrow> bool" where
  "lists_deps spec \<longleftrightarrow> is_go_map (Artifacts spec) \<and> fst ` set (Artifacts spec) = set (Deps (spec_Job spec))"

definition table_lists :: "Scheduler \<Rightarrow> bool" where
  "table_lists c \<longleftrightarrow> (\<forall>i p. jobs c i = Some p \<longrightarrow> lists_deps (pj_Job (store c p)))"

fun lists_act :: "sched_act \<Rightarrow> bool" where
  "lists_act (ActSchedule spec) = lists_deps spec"
| "lists_act a = True"

lemma table_lists_complete:
  assumes "jobs_ok c" "complete_job i res c = Returns (e, c')" "table_lists c"
  shows "table_lists c'"
  using assms(1)
proof (cases rule: complete_job_cases [of _ i res])
  case unknown
  have "p \<noteq> fresh c" if "jobs c j = Some p" for j p
    using assms(1) that by (auto simp: jobs_ok_def)
  with unknown assms(2,3) show ?thesis
    by (auto simp: table_lists_def lists_deps_def empty_spec_def)
qed (use assms in \<open>auto simp: table_lists_def\<close>)

lemma table_lists_step:
  assumes inv: "sched_inv s" and step: "sched_step s a = Some t" and "lists_act a" "table_lists (sc_sched s)"
  shows "table_lists (sc_sched t)"
proof (cases a)
  case (ActSchedule job)
  have ok: "jobs_ok (sc_sched s)" using inv by (simp add: sched_inv_def)
  then have "p \<noteq> fresh (sc_sched s)" if "jobs (sc_sched s) j = Some p" for j p
    using that by (auto simp: jobs_ok_def)
  with ActSchedule assms show ?thesis
    by (auto simp: table_lists_def new_pending_def split: go.splits prod.splits if_splits elim!: ScheduleJob_cases)
next
  case (ActComplete w i res)
  with step table_lists_complete [OF sched_parts(1) [OF inv]] assms(4) show ?thesis
    by (auto split: if_splits go.splits)
qed (use step assms(4) in \<open>auto simp: table_lists_def PickJob_def checkIsStop_def
       split: go.splits option.splits prod.splits if_splits\<close>)

lemma not_schedules_lists: "\<not> schedules a \<Longrightarrow> lists_act a"
  by (cases a) simp_all

lemma table_lists_reaches:
  assumes "sched_inv s" "reaches s c" "table_lists (sc_sched s)"
  shows "table_lists c"
proof -
  from assms(2) obtain bs t where t: "run sched_step s bs = Some t" "sc_sched t = c" "\<forall>b \<in> set bs. \<not> schedules b"
    by (rule reachesE)
  have "table_lists (sc_sched t)"
    using sc.run_stable [where Q = "\<lambda>a. \<not> schedules a" and P = "\<lambda>s. table_lists (sc_sched s)", OF _ assms(1) t(1,3)]
      table_lists_step not_schedules_lists assms(3) by blast
  with t(2) show ?thesis by simp
qed

section \<open>What a signal schedules\<close>

text \<open>The other users of the scheduler give it such specifications, too: they are other signals.\<close>

fun env_lists :: "sig_act \<Rightarrow> bool" where
  "env_lists (Env a) = lists_act a"
| "env_lists a = True"

lemma table_lists_sig_step:
  assumes inv: "sig_inv s" "arts_ok s" and step: "sig_step s a = Some t" and "env_lists a"
    and tab: "table_lists (sc_sched (sg_sys s))"
  shows "table_lists (sc_sched (sg_sys t))"
proof -
  have sys: "sched_inv (sg_sys s)" using inv(1) by (simp add: sig_inv_def)
  show ?thesis
  proof (cases a)
    case (Env e)
    with step table_lists_step [OF sys] assms(4) tab show ?thesis by (auto split: if_splits)
  next
    case (NextDep r)
    with step tab show ?thesis
      by (auto simp: main_dep_def split: if_splits list.splits option.splits go.splits prod.splits bool.splits)
  next
    case DoSchedule
    with step have "main_schedule s = Some t" by (simp split: if_splits)
    then show ?thesis
    proof (cases rule: main_schedule_cases)
      case (ok job files todo spec p c sys')
      from ok(1,2,3) inv(2) have "lists_deps spec"
        by (auto simp: arts_ok_def lists_deps_def next_deps_def dom_map_of_conv_image_fst)
      with table_lists_step [OF sys ok(5)] tab ok(6) show ?thesis by simp
    qed (use tab in simp)
  next
    case (GoBuild p)
    with step tab show ?thesis
      by (auto simp: go_build_def go_moves_def Let_def split: if_splits option.splits)
  next
    case (GoSend k p u)
    with step tab show ?thesis
      by (auto simp: go_send_def go_moves_def split: if_splits option.splits go.splits prod.splits)
  next
    case (GoRemove env p u)
    with step tab show ?thesis by (auto simp: go_remove_def go_moves_def split: if_splits)
  qed (use step tab in \<open>auto simp: go_moves_def split: if_splits\<close>)
qed

lemma signalled_table_lists:
  assumes "sig_start s0" "table_lists (sc_sched (sg_sys s0))" "run sig_step s0 as = Some s" "\<forall>a \<in> set as. env_lists a"
  shows "table_lists (sc_sched (sg_sys s))"
  using located.run_stable [where Q = env_lists and P = "\<lambda>s. table_lists (sc_sched (sg_sys s))",
      OF _ located.start_inv [OF assms(1)] assms(3,4)] table_lists_sig_step assms(2) by blast

lemma response_lists:
  assumes "Heartbeat first sel req (sc_sched s) = Returns (HbResponse resp, c)" "sched_inv s" "table_lists (sc_sched s)"
    and "JobsToRun resp i = Some spec"
  shows "lists_deps spec"
proof -
  from assms(1) have "reaches s c" by (rule Heartbeat_reaches)
  with assms(2,3) have "table_lists c" by (blast intro: table_lists_reaches)
  moreover from Heartbeat_known [OF assms(1,2)] assms(4) obtain p where "jobs c i = Some p" "pj_Job (store c p) = spec"
    by (auto simp: known_jobs_def)
  ultimately show ?thesis by (auto simp: table_lists_def)
qed

section \<open>Properties\<close>

text \<open>
  C34. The shape of what a worker is given: in every interleaving of the signal with the other users
  of the scheduler, each entry of \<open>JobsToRun\<close> has the identifier of its job as key, is the
  specification the scheduler holds for it, and its \<open>Artifacts\<close> is a map whose keys are exactly
  the job's dependencies.
\<close>

theorem handed_out_well_formed:
  assumes "sig_start s0" "table_lists (sc_sched (sg_sys s0))" "run sig_step s0 as = Some s" "\<forall>a \<in> set as. env_lists a"
    and "Heartbeat first sel req (sc_sched (sg_sys s)) = Returns (HbResponse resp, c)" "JobsToRun resp i = Some spec"
  shows "spec_ID spec = i \<and> entry_spec c i = Some spec \<and> is_go_map (Artifacts spec) \<and>
    fst ` set (Artifacts spec) = set (Deps (spec_Job spec))"
proof -
  have inv: "sched_inv (sg_sys s)"
    using located.reachable_inv [OF assms(1,3)] by (simp add: sig_inv_def)
  from Heartbeat_known [OF assms(5) inv] assms(6) have "spec_ID spec = i" "entry_spec c i = Some spec"
    by (auto simp: known_jobs_def entry_spec_def)
  moreover have "lists_deps spec"
    using response_lists [OF assms(5) inv signalled_table_lists [OF assms(1-4)] assms(6)] .
  ultimately show ?thesis by (simp add: lists_deps_def)
qed

text \<open>
  C7. A job a signal has scheduled brings no worker down: in every interleaving of the signal with
  the other users of the scheduler, the jobs a heartbeat hands out name a worker for each of
  their dependencies, and whatever happens on the worker that runs them - other jobs, the
  artifact handler, failing downloads and system calls other than \<open>Stat\<close> - no goroutine panics.
\<close>

theorem signalled_jobs_never_panic:
  assumes "sig_start s0" "table_lists (sc_sched (sg_sys s0))" "run sig_step s0 as = Some s" "\<forall>a \<in> set as. env_lists a"
    and "Heartbeat first sel req (sc_sched (sg_sys s)) = Returns (HbResponse resp, c)"
    and "pool_start p" "map_of (pl_jobs p) = JobsToRun resp"
    and "\<forall>(i, spec) \<in> set (pl_jobs p). \<forall>cmd \<in> set (Cmds (spec_Job spec)). \<exists>r. cf_render cfg (spec_Job spec) cmd = Inr r"
    and "run (pool_step cfg) p bs = Some q" "\<forall>a \<in> set bs. fault (act_env a) SysStat = None"
  shows "\<not> crashed q"
proof -
  have inv: "sched_inv (sg_sys s)"
    using located.reachable_inv [OF assms(1,3)] by (simp add: sig_inv_def)
  have "lists_deps spec" if "(i, spec) \<in> set (pl_jobs p)" for i spec
  proof -
    have "map_of (pl_jobs p) i = Some spec"
      using that assms(6) by (simp add: pool_start_def is_go_map_def)
    with response_lists [OF assms(5) inv signalled_table_lists [OF assms(1-4)]] assms(7) show ?thesis
      by simp
  qed
  with assms(8) have "\<forall>(i, spec) \<in> set (pl_jobs p). runnable cfg spec"
    unfolding runnable_def lists_deps_def by fast
  from runs_relies [OF assms(6,9) this assms(10)] have "\<forall>pc \<in> set (pl_pcs q). \<not> panicked pc"
    by (auto simp: pool_relies_def in_set_conv_nth)
  then show ?thesis by (rule not_crashed)
qed

text \<open>The second job of the demonstration, handed out after its dependency is located.\<close>

definition second_spec :: JobSpec where
  "second_spec = \<lparr>SourceFiles = [], Artifacts = [(idB, ''w'')], spec_Job = job_named 97 [idB]\<rparr>"

definition second_pool :: pool where
  "second_pool = (pool_with [idB \<mapsto> []] [])\<lparr>pl_jobs := [(idA, second_spec)], pl_pcs := [Scheduled]\<rparr>"

lemma second_handed_out:
  "\<exists>s c. run sig_step demo_signal (take 6 demo_jobs_run) = Some s \<and>
    Heartbeat (False, True) (\<lambda>_ _. (False, True)) cycle_request (sc_sched (sg_sys s)) =
      Returns (HbResponse \<lparr>JobsToRun = [idA \<mapsto> second_spec]\<rparr>, c)"
  by (simp add: demo_jobs_run_def demo_defs main_schedule_def main_dep_def next_deps_def Let_def second_spec_def
      sched_ops Push_def Pop_def queue_capacity_def new_pending_def spec_ID_def Heartbeat_def RegisterWorker_def
      cycle_request_def run_spec_def)

lemma second_listed:
  "table_lists (sc_sched (sg_sys demo_signal))" "\<forall>a \<in> set (take 6 demo_jobs_run). env_lists a"
  by (simp_all add: demo_defs table_lists_def demo_jobs_run_def)

theorem handed_out_well_formed_witness:
  "\<exists>s c. run sig_step demo_signal (take 6 demo_jobs_run) = Some s \<and>
    Heartbeat (False, True) (\<lambda>_ _. (False, True)) cycle_request (sc_sched (sg_sys s)) =
      Returns (HbResponse \<lparr>JobsToRun = [idA \<mapsto> second_spec]\<rparr>, c) \<and> entry_spec c idA = Some second_spec"
proof -
  obtain s c where s: "run sig_step demo_signal (take 6 demo_jobs_run) = Some s"
    "Heartbeat (False, True) (\<lambda>_ _. (False, True)) cycle_request (sc_sched (sg_sys s)) =
      Returns (HbResponse \<lparr>JobsToRun = [idA \<mapsto> second_spec]\<rparr>, c)"
    using second_handed_out by blast
  from handed_out_well_formed [OF demo_signal_start second_listed(1) s(1) second_listed(2) s(2), of idA second_spec] s
  show ?thesis by (intro exI [of _ s] exI [of _ c]) simp
qed

theorem signalled_jobs_never_panic_witness:
  "\<exists>q. run (pool_step pool_cfg0) second_pool [go 0 Calm, go 0 Calm, go 0 Calm] = Some q \<and> \<not> crashed q"
proof -
  obtain s c where s: "run sig_step demo_signal (take 6 demo_jobs_run) = Some s"
    "Heartbeat (False, True) (\<lambda>_ _. (False, True)) cycle_request (sc_sched (sg_sys s)) =
      Returns (HbResponse \<lparr>JobsToRun = [idA \<mapsto> second_spec]\<rparr>, c)"
    using second_handed_out by blast
  have "\<exists>q. run (pool_step pool_cfg0) second_pool [go 0 Calm, go 0 Calm, go 0 Calm] = Some q"
    by (simp add: second_pool_def second_spec_def job_named_def pool_eval)
  then obtain q where q: "run (pool_step pool_cfg0) second_pool [go 0 Calm, go 0 Calm, go 0 Calm] = Some q" by blast
  have start: "pool_start second_pool" "map_of (pl_jobs second_pool) = [idA \<mapsto> second_spec]"
    using pool_with_start [of "[]" "[idB \<mapsto> []]"]
    by (simp_all add: second_pool_def pool_start_def pool_with_def second_spec_def job_named_def spec_ID_def)
  from signalled_jobs_never_panic [OF demo_signal_start second_listed(1) s(1) second_listed(2) s(2) start(1) _ _ q] start(2) q
  show ?thesis
    by (simp add: second_pool_def second_spec_def job_named_def)
qed

end
