(* ===== verification/Recorder.thy ===== *)
theory Recorder
  imports Client
begin

text \<open>
  Package \<open>disttest\<close>, file \<open>recorder.go\<close>: the build listener of the distributed tests, which
  adds up what it is told of each job. What it holds after a build is what the tests look at.
\<close>

section \<open>The recorder\<close>

record rec_result =
  rr_Stdout :: bytes
  rr_Stderr :: bytes
  rr_Code :: "int option"
  rr_Error :: string

record Recorder =
  Jobs :: "ID \<rightharpoonup> rec_result"

definition NewRecorder :: Recorder where
  "NewRecorder = \<lparr>Jobs = Map.empty\<rparr>"

definition empty_rec :: rec_result where
  "empty_rec = \<lparr>rr_Stdout = [], rr_Stderr = [], rr_Code = None, rr_Error = []\<rparr>"

text \<open>
  \<open>job\<close> finds the entry of a job or makes an empty one; the methods change that entry, which is
  reachable only from the map.
\<close>

definition rec_job :: "Recorder \<Rightarrow> ID \<Rightarrow> rec_result \<times> Recorder" where
  "rec_job r jobID =
     (case Jobs r jobID of
        Some j \<Rightarrow> (j, r)
      | None \<Rightarrow> (empty_rec, r\<lparr>Jobs := (Jobs r)(jobID \<mapsto> empty_rec)\<rparr>))"

definition on_job :: "ID \<Rightarrow> (rec_result \<Rightarrow> rec_result) \<Rightarrow> Recorder \<Rightarrow> Recorder" where
  "on_job jobID f r = (let (j, r1) = rec_job r jobID in r1\<lparr>Jobs := (Jobs r1)(jobID \<mapsto> f j)\<rparr>)"

fun rec_listener :: "Recorder listener" where
  "rec_listener (OnJobStdout i out) r = (None, on_job i (\<lambda>j. j\<lparr>rr_Stdout := rr_Stdout j @ out\<rparr>) r)"
| "rec_listener (OnJobStderr i out) r = (None, on_job i (\<lambda>j. j\<lparr>rr_Stderr := rr_Stderr j @ out\<rparr>) r)"
| "rec_listener (OnJobFinished i) r = (None, on_job i (\<lambda>j. j\<lparr>rr_Code := Some 0\<rparr>) r)"
| "rec_listener (OnJobFailed i code e) r = (None, on_job i (\<lambda>j. j\<lparr>rr_Code := Some code, rr_Error := e\<rparr>) r)"

section \<open>What it holds\<close>

text \<open>The entry a result adds to what was recorded of its job before.\<close>

definition rec_add :: "JobResult \<Rightarrow> rec_result option \<Rightarrow> rec_result" where
  "rec_add res old = (let j = (case old of None \<Rightarrow> empty_rec | Some j \<Rightarrow> j) in
     j\<lparr>rr_Stdout := rr_Stdout j @ Stdout res, rr_Stderr := rr_Stderr j @ Stderr res,
       rr_Code := Some (case Error res of None \<Rightarrow> 0 | Some e \<Rightarrow> ExitCode res),
       rr_Error := (case Error res of None \<Rightarrow> rr_Error j | Some e \<Rightarrow> e)\<rparr>)"

lemma call_rec_listener:
  "call_listener rec_listener (job_calls res) r =
     (None, r\<lparr>Jobs := (Jobs r)(res_ID res \<mapsto> rec_add res (Jobs r (res_ID res)))\<rparr>)"
proof (cases "Jobs r (res_ID res)")
  case None
  then show ?thesis
    by (simp add: job_calls_def on_job_def rec_job_def rec_add_def empty_rec_def split: option.split)
next
  case (Some j)
  then show ?thesis
    by (cases j) (simp add: job_calls_def on_job_def rec_job_def rec_add_def split: option.split)
qed

definition record_updates :: "StatusUpdate list \<Rightarrow> Recorder \<Rightarrow> Recorder" where
  "record_updates us r = fold (\<lambda>u r. case JobFinished u of
     Some res \<Rightarrow> r\<lparr>Jobs := (Jobs r)(res_ID res \<mapsto> rec_add res (Jobs r (res_ID res)))\<rparr> | None \<Rightarrow> r) us r"

lemma listen_loop_rec:
  "\<forall>u \<in> set us. JobFinished u \<noteq> None \<Longrightarrow> length us < n \<Longrightarrow>
     listen_loop n [] rec_listener \<lparr>sr_rest = map MsgUpdate us, sr_end = None\<rparr> r = Some (None, record_updates us r)"
proof (induction us arbitrary: r n)
  case Nil
  then show ?case by (cases n) (simp_all add: listenBuild_def Next_def record_updates_def)
next
  case (Cons u us)
  then obtain m res where "n = Suc m" "JobFinished u = Some res" by (cases n) auto
  with Cons show ?case
    by (simp add: listenBuild_def Next_def call_rec_listener record_updates_def)
qed

lemma record_updates_new:
  assumes "\<forall>u \<in> set us. JobFinished u \<noteq> None" "distinct (map (\<lambda>u. res_ID (the (JobFinished u))) us)"
    and "\<forall>u \<in> set us. Jobs r (res_ID (the (JobFinished u))) = None"
  shows "Jobs (record_updates us r) =
    Jobs r ++ map_of (map (\<lambda>u. (res_ID (the (JobFinished u)), rec_add (the (JobFinished u)) None)) us)"
  using assms
proof (induction us arbitrary: r)
  case Nil
  then show ?case by (simp add: record_updates_def)
next
  case (Cons u us)
  then obtain res where res: "JobFinished u = Some res" by auto
  let ?r = "r\<lparr>Jobs := (Jobs r)(res_ID res \<mapsto> rec_add res None)\<rparr>"
  let ?m = "map (\<lambda>u. (res_ID (the (JobFinished u)), rec_add (the (JobFinished u)) None)) us"
  have new: "res_ID res \<notin> dom (map_of ?m)"
    using Cons.prems(2) res by (auto simp: dom_map_of_conv_image_fst)
  have "Jobs (record_updates us ?r) = Jobs ?r ++ map_of ?m"
    using Cons.prems res by (intro Cons.IH) (auto, metis image_eqI)
  also have "\<dots> = Jobs r ++ map_of ((res_ID res, rec_add res None) # ?m)"
    using new by (auto simp: map_add_def fun_eq_iff split: option.split)
  finally have "Jobs (record_updates us ?r) = Jobs r ++ map_of ((res_ID res, rec_add res None) # ?m)" .
  moreover have "record_updates (u # us) r = record_updates us ?r"
    using Cons.prems(3) res by (simp add: record_updates_def)
  ultimately show ?case by (simp only: list.map res option.sel)
qed

section \<open>Properties\<close>

text \<open>
  C36. What the tests see of a build: a client that reads a stream with one result per job to its
  end leaves in the recorder exactly the jobs of the stream, each with the bytes of its output,
  and with the code 0, or the code and the error of the result when it failed.
\<close>

theorem recorder_shows_results:
  assumes "\<forall>u \<in> set us. JobFinished u \<noteq> None" "distinct (map (\<lambda>u. res_ID (the (JobFinished u))) us)"
  shows "\<exists>r. listen_all [] rec_listener \<lparr>sr_rest = map MsgUpdate us, sr_end = None\<rparr> NewRecorder = Some (None, r) \<and>
    dom (Jobs r) = (\<lambda>u. res_ID (the (JobFinished u))) ` set us \<and>
    (\<forall>u \<in> set us. \<forall>res. JobFinished u = Some res \<longrightarrow> Jobs r (res_ID res) =
       Some \<lparr>rr_Stdout = Stdout res, rr_Stderr = Stderr res,
         rr_Code = Some (if Error res = None then 0 else ExitCode res),
         rr_Error = (case Error res of None \<Rightarrow> [] | Some e \<Rightarrow> e)\<rparr>)"
proof -
  let ?r = "record_updates us NewRecorder"
  let ?m = "map (\<lambda>u. (res_ID (the (JobFinished u)), rec_add (the (JobFinished u)) None)) us"
  have r: "Jobs ?r = map_of ?m"
    using record_updates_new [OF assms] by (simp add: NewRecorder_def)
  have "Jobs ?r (res_ID res) = Some (rec_add res None)" if "u \<in> set us" "JobFinished u = Some res" for u res
  proof -
    have "(res_ID res, rec_add res None) \<in> set ?m"
      using that by (force simp: image_iff)
    moreover have "distinct (map fst ?m)" using assms(2) by (simp add: comp_def)
    ultimately show ?thesis unfolding r by simp
  qed
  moreover have "listen_all [] rec_listener \<lparr>sr_rest = map MsgUpdate us, sr_end = None\<rparr> NewRecorder = Some (None, ?r)"
    using listen_loop_rec [OF assms(1), of "Suc (length us)"] by (simp add: listen_all_def)
  moreover have "dom (Jobs ?r) = (\<lambda>u. res_ID (the (JobFinished u))) ` set us"
    by (simp add: r dom_map_of_conv_image_fst image_image)
  ultimately show ?thesis
    by (intro exI [of _ ?r]) (auto simp: rec_add_def empty_rec_def split: option.split)
qed

theorem recorder_shows_results_witness:
  "\<exists>r. listen_all [] rec_listener \<lparr>sr_rest = map MsgUpdate
      [\<lparr>JobFinished = Some \<lparr>res_ID = ID_lit [97], Stdout = [1], Stderr = [], ExitCode = - 1, Error = Some ''no''\<rparr>,
        BuildFailed = None, BuildFinished = False\<rparr>], sr_end = None\<rparr> NewRecorder = Some (None, r) \<and>
    dom (Jobs r) = {ID_lit [97]}"
  using recorder_shows_results [of "[\<lparr>JobFinished = Some \<lparr>res_ID = ID_lit [97], Stdout = [1], Stderr = [], ExitCode = - 1,
    Error = Some ''no''\<rparr>, BuildFailed = None, BuildFinished = False\<rparr>]"]
  by auto

end
