(* ===== verification/Coordinator_API.thy ===== *)
theory Coordinator_API
  imports Signal_Start Heartbeat_Service Client
begin

text \<open>
  The coordinator as its clients see it: \<open>dist/coordinator.go\<close> registers the handlers of builds
  (\<open>api/build_handler.go\<close>), heartbeats (\<open>api/heartbeat_handler.go\<close>) and files
  (\<open>filecache/handler.go\<close>) on one mux, over one file cache; \<open>api/request.go\<close> and the clients send
  the requests. \<open>encoding/json\<close> is an argument; what a request needs of it is a hypothesis about
  that request. A signal's body \<open>null\<close>, which leaves the handler a nil request, is not among the
  results of \<open>dec_signal\<close>.
\<close>

section \<open>Requests\<close>

record codec =
  enc_graph :: "Graph \<Rightarrow> string + bytes"
  dec_graph :: "body \<Rightarrow> string + Graph"
  enc_signal :: "SignalRequest \<Rightarrow> string + bytes"
  dec_signal :: "body \<Rightarrow> string + SignalRequest"
  dec_heartbeat :: "body \<Rightarrow> string + HeartbeatRequest"
  enc_heartbeat :: "HeartbeatResponse \<Rightarrow> string + bytes"
  sw_text :: "sw_error \<Rightarrow> string"

text \<open>A decoded map has the entries of the encoded one, ranged over in an order of its own.\<close>

definition same_graph :: "Graph \<Rightarrow> Graph \<Rightarrow> bool" where
  "same_graph g g' \<longleftrightarrow> mset (Graph_SourceFiles g) = mset (Graph_SourceFiles g') \<and> Graph_Jobs g = Graph_Jobs g'"

definition post_request :: "string \<Rightarrow> (string \<rightharpoonup> string) \<Rightarrow> bytes \<Rightarrow> http_request" where
  "post_request path query payload = \<lparr>rq_method = ''POST'', rq_path = path, rq_query = query, rq_body = ([payload], None)\<rparr>"

section \<open>The coordinator\<close>

text \<open>
  The file handler works on the cache of the core. \<open>req_env\<close> is what one request meets: failing
  system calls, a joined flight, the random source, the connection, the \<open>select\<close>s of a heartbeat,
  and the scheduler with the history of its use.
\<close>

record coordinator =
  co_core :: coordinatorCore
  co_locks :: "ID KeyLocker"

definition new_coordinator :: "Cache \<Rightarrow> coordinator" where
  "new_coordinator fileCache = \<lparr>co_core = NewCoordinator fileCache, co_locks = h_lock (NewHandler fileCache)\<rparr>"

definition co_files :: "coordinator \<Rightarrow> fc_handler" where
  "co_files c = \<lparr>h_cache = core_fileCache (co_core c), h_lock = co_locks c\<rparr>"

definition put_files :: "fc_handler \<Rightarrow> coordinator \<Rightarrow> coordinator" where
  "put_files h c = c\<lparr>co_core := (co_core c)\<lparr>core_fileCache := h_cache h\<rparr>, co_locks := h_lock h\<rparr>"

record req_env =
  e_os :: os_env
  e_joined :: "string option option"
  e_rand :: "string + bytes"
  e_conn :: conn
  e_first :: "bool \<times> bool"
  e_sel :: "nat \<Rightarrow> nat \<Rightarrow> bool \<times> bool"
  e_sys :: sched_sys

text \<open>
  \<open>BuildStream\<close>: the response is the stream of status messages; \<open>SignalRuns\<close>: the answer comes when
  the signal's run, which starts so, has returned.
\<close>

datatype coord_reply =
    Answer ResponseWriter
  | Aborted
  | BuildStream start_result
  | SignalRuns signal_run
  | HbReply bytes

definition status_reply :: "nat \<Rightarrow> coord_reply" where
  "status_reply code = Answer (WriteHeader code new_writer)"

definition serve_build :: "codec \<Rightarrow> req_env \<Rightarrow> http_request \<Rightarrow> coordinator \<Rightarrow> (coord_reply \<times> coordinator) go" where
  "serve_build cd e r c =
     go_bind (startBuildHandler (e_conn e)
         (\<lambda>request w c. go_bind (StartBuild (e_rand e) (e_conn e) request w (co_core c))
            (\<lambda>(err, w1, core). Returns (map_option (sw_text cd) err, w1, c\<lparr>co_core := core\<rparr>)))
         (dec_graph cd (rq_body r)) c)
       (\<lambda>(res, c1). Returns (case res of StartReply code \<Rightarrow> status_reply code | _ \<Rightarrow> BuildStream res, c1))"

definition serve_signal :: "codec \<Rightarrow> req_env \<Rightarrow> http_request \<Rightarrow> coordinator \<Rightarrow> (coord_reply \<times> coordinator) go" where
  "serve_signal cd e r c =
     go_bind (signalBuildHandler
         (\<lambda>buildID signal (c, _). go_bind (SignalBuild_begin (e_sys e) buildID signal (co_core c))
            (\<lambda>begun. Returns (None, case begun of
               Inl core \<Rightarrow> (c\<lparr>co_core := core\<rparr>, None)
             | Inr (core, s) \<Rightarrow> (c\<lparr>co_core := core\<rparr>, Some s))))
         (query_get r ''build_id'') (dec_signal cd (rq_body r)) (c, None))
       (\<lambda>(code, c1, started). Returns (case started of Some s \<Rightarrow> SignalRuns s | None \<Rightarrow> status_reply code, c1))"

text \<open>
  A panic in a heartbeat is recovered by the server, with the scheduler as it left it. A response
  that cannot be encoded is answered 400, with the jobs in it already taken off the queue.
\<close>

definition serve_heartbeat :: "codec \<Rightarrow> req_env \<Rightarrow> http_request \<Rightarrow> coordinator \<Rightarrow> (coord_reply \<times> coordinator) go" where
  "serve_heartbeat cd e r c =
     (case dec_heartbeat cd (rq_body r) of
        Inl err \<Rightarrow> Returns (status_reply 400, c)
      | Inr req \<Rightarrow>
          go_bind (Heartbeat (e_first e) (e_sel e) req (core_sched (co_core c))) (\<lambda>(res, sched).
            let c1 = c\<lparr>co_core := (co_core c)\<lparr>core_sched := sched\<rparr>\<rparr> in
            Returns (case res of
                HbPanic m \<Rightarrow> Aborted
              | HbErr \<Rightarrow> status_reply 500
              | HbResponse resp \<Rightarrow> (case enc_heartbeat cd resp of Inl err \<Rightarrow> status_reply 400 | Inr p \<Rightarrow> HbReply p), c1)))"

definition serve_file :: "req_env \<Rightarrow> http_request \<Rightarrow> coordinator \<Rightarrow> (coord_reply \<times> coordinator) go" where
  "serve_file e r c =
     go_bind (file_route (e_os e) (e_joined e) r (co_files c)) (\<lambda>out. Returns
       (case out of Served w h \<Rightarrow> (Answer w, put_files h c) | Dropped h \<Rightarrow> (Aborted, put_files h c)))"

text \<open>The patterns have no host and no trailing slash, so they match the whole path.\<close>

definition coordinator_mux :: "codec \<Rightarrow> req_env \<Rightarrow> http_request \<Rightarrow> coordinator \<Rightarrow> (coord_reply \<times> coordinator) go" where
  "coordinator_mux cd e r c =
     (if rq_path r = ''/build'' then serve_build cd e r c
      else if rq_path r = ''/signal'' then serve_signal cd e r c
      else if rq_path r = ''/heartbeat'' then serve_heartbeat cd e r c
      else if rq_path r = ''/file'' then serve_file e r c
      else Returns (Answer (http_Error ''404 page not found'' 404 new_writer), c))"

section \<open>The clients' requests on this coordinator\<close>

text \<open>
  A handler that panics closes the connection. One that never answers leaves the client waiting
  until its context ends, which is an error of the transport, too. \<open>later\<close> is what the build's
  signal adds to the stream, and its end.
\<close>

definition http_start :: "codec \<Rightarrow> req_env \<Rightarrow> message list \<times> string option \<Rightarrow> Graph \<Rightarrow> coordinator
    \<Rightarrow> (string + stream_response) \<times> coordinator" where
  "http_start cd e later g c =
     (case enc_graph cd g of
        Inl err \<Rightarrow> (Inl err, c)
      | Inr payload \<Rightarrow>
          (case coordinator_mux cd e (post_request ''/build'' Map.empty payload) c of
             Returns (BuildStream (StartWaiting w), c1) \<Rightarrow>
               (Inr \<lparr>st_status = 200, st_error = ([], None),
                  st_stream = \<lparr>sr_rest = sw_out w @ fst later, sr_end = snd later\<rparr>\<rparr>, c1)
           | Returns (BuildStream (StartEnded w), c1) \<Rightarrow>
               (Inr \<lparr>st_status = 200, st_error = ([], None), st_stream = \<lparr>sr_rest = sw_out w, sr_end = None\<rparr>\<rparr>, c1)
           | Returns (Answer w, c1) \<Rightarrow>
               (Inr \<lparr>st_status = final_status w, st_error = ([rw_body w], None),
                  st_stream = \<lparr>sr_rest = [], sr_end = None\<rparr>\<rparr>, c1)
           | Returns (_, c1) \<Rightarrow> (Inl ''EOF'', c1)
           | _ \<Rightarrow> (Inl ''EOF'', c)))"

definition http_files :: "codec \<Rightarrow> req_env \<Rightarrow> coordinator transport" where
  "http_files cd e r c =
     go_bind (coordinator_mux cd e r c) (\<lambda>(reply, c1). Returns
       (case reply of
          Answer w \<Rightarrow> (Inr \<lparr>StatusCode = final_status w, rs_body = ([rw_body w], None)\<rparr>, c1)
        | _ \<Rightarrow> (Inl ''EOF'', c1)))"

text \<open>\<open>answer\<close> is what the client of a signal gets when the run from its start has ended.\<close>

definition http_signal :: "codec \<Rightarrow> req_env \<Rightarrow> (signal_run \<Rightarrow> coordinator \<Rightarrow> (string + nat \<times> body) \<times> coordinator)
    \<Rightarrow> ID \<times> SignalRequest \<Rightarrow> coordinator \<Rightarrow> (string + nat \<times> body) \<times> coordinator" where
  "http_signal cd e answer rq c =
     (case enc_signal cd (snd rq) of
        Inl err \<Rightarrow> (Inl err, c)
      | Inr payload \<Rightarrow>
          (case coordinator_mux cd e (post_request ''/signal'' [''build_id'' \<mapsto> ID_String (fst rq)] payload) c of
             Returns (SignalRuns s, c1) \<Rightarrow> answer s c1
           | Returns (Answer w, c1) \<Rightarrow> (Inr (final_status w, ([rw_body w], None)), c1)
           | Returns (_, c1) \<Rightarrow> (Inl ''EOF'', c1)
           | _ \<Rightarrow> (Inl ''EOF'', c)))"

section \<open>The shared file cache\<close>

lemma files_lens [simp]:
  "co_files (put_files h c) = h" "put_files h (put_files h' c) = put_files h c" "put_files (co_files c) c = c"
  "co_files (c\<lparr>co_core := core\<rparr>) = (co_files c)\<lparr>h_cache := core_fileCache core\<rparr>"
  "core_fileCache (co_core (put_files h c)) = h_cache h"
  by (simp_all add: co_files_def put_files_def)

lemma http_files_lift:
  assumes "rq_path r = ''/file''"
  shows "http_files cd e r c =
    go_bind (perfect (file_route (e_os e) (e_joined e)) r (co_files c)) (\<lambda>(resp, h). Returns (resp, put_files h c))"
proof (cases "file_route (e_os e) (e_joined e) r (co_files c)")
  case (Returns out)
  with assms show ?thesis
    by (cases out) (simp_all add: http_files_def coordinator_mux_def serve_file_def perfect_def)
qed (use assms in \<open>simp_all add: http_files_def coordinator_mux_def serve_file_def perfect_def\<close>)

lemma Upload_lift:
  "Upload local None (http_files cd e) i path c =
     go_bind (Upload local None (perfect (file_route (e_os e) (e_joined e))) i path (co_files c))
       (\<lambda>(err, h). Returns (err, put_files h c))"
proof (cases "local path")
  case (Inr b)
  have "rq_path (file_request ''PUT'' i b) = ''/file''" by (simp add: file_request_def)
  from http_files_lift [OF this] Inr show ?thesis
    by (cases "perfect (file_route (e_os e) (e_joined e)) (file_request ''PUT'' i b) (co_files c)")
      (auto simp: Upload_def split: prod.split)
qed (simp add: Upload_def)

text \<open>Uploads to the coordinator are uploads to its file handler.\<close>

lemma run_uploads_lift:
  "run_uploads local (http_files cd e) ups order errs c =
     go_bind (run_uploads local (perfect (file_route (e_os e) (e_joined e))) ups order errs (co_files c))
       (\<lambda>(errs', h). Returns (errs', put_files h c))"
proof (induction order arbitrary: errs c)
  case (Cons k order)
  show ?case
  proof (cases "Upload local None (perfect (file_route (e_os e) (e_joined e))) (fst (ups ! k)) (snd (ups ! k)) (co_files c)")
    case (Returns x)
    obtain err h where x: "x = (err, h)" by fastforce
    have lens: "(\<lambda>(errs', h'). Returns (errs', put_files h' (put_files h c))) = (\<lambda>(errs', h'). Returns (errs', put_files h' c))"
      by auto
    show ?thesis using Returns x by (simp add: Upload_lift lens Cons.IH fun_upd_def)
  qed (simp_all add: Upload_lift)
qed simp

section \<open>What a route answers\<close>

lemma served_file_status:
  assumes "file_route env joined r h = Returns (Served w h1)" "final_status w \<in> {400, 404, 405}"
  shows "h1 = h"
proof -
  have get: "final_status w1 \<in> {200, 500}" if "handleGet env joined i new_writer h = Served w1 h2" for i w1 h2
    using that by (auto simp: handleGet_def get_run_def Let_def final_status_def
        split: option.splits prod.splits sum.splits if_splits)
  have rest: "final_status (fst (put_rest env f b new_writer c)) \<in> {200, 500}" for f b c
    by (auto simp: put_rest_def final_status_def split: option.split prod.split)
  have put: "final_status w1 \<in> {200, 500}" if handled: "handlePut env i b new_writer h = Returns (Served w1 h2)" for i b w1 h2
  proof -
    from handled obtain st c1 l2 where st: "(case st of
        PutWriter f \<Rightarrow> (let (w2, c2) = put_rest env f b new_writer c1 in Served w2 \<lparr>h_cache = c2, h_lock = l2\<rparr>)
      | PutReply e \<Rightarrow> Served (http_Error e 500 new_writer) \<lparr>h_cache = c1, h_lock = l2\<rparr>
      | PutPanic \<Rightarrow> Dropped \<lparr>h_cache = c1, h_lock = l2\<rparr>) = Served w1 h2"
      by (auto simp: handlePut_def go_simps split: option.splits)
    show ?thesis
    proof (cases st)
      case (PutWriter f)
      with st rest [of f b c1] show ?thesis by (auto split: prod.splits)
    qed (use st in \<open>auto simp: final_status_def\<close>)
  qed
  from assms show ?thesis
    by (auto simp: file_route_def Let_def split: sum.splits if_splits dest!: get put)
qed

lemma status_reply_Answer [simp]:
  "status_reply code = Answer w \<longleftrightarrow> w = WriteHeader code new_writer" "Answer w = status_reply code \<longleftrightarrow> w = WriteHeader code new_writer"
  "final_status (WriteHeader code new_writer) = code"
  by (auto simp: status_reply_def final_status_def)

lemma start_reply_400:
  assumes "startBuildHandler k SB decoded s = Returns (StartReply code, s1)" "code \<in> {400, 404, 405}"
  shows "s1 = s"
  using assms by (auto simp: startBuildHandler_def go_simps split: sum.splits option.splits if_splits)

lemma serve_heartbeat_400:
  assumes "serve_heartbeat cd e r c = Returns (Answer w, c1)" "final_status w \<in> {400, 404, 405}"
  shows "c1 = c \<or> final_status w = 400 \<and>
    (\<exists>req resp sched err. dec_heartbeat cd (rq_body r) = Inr req \<and>
       Heartbeat (e_first e) (e_sel e) req (core_sched (co_core c)) = Returns (HbResponse resp, sched) \<and>
       enc_heartbeat cd resp = Inl err \<and> c1 = c\<lparr>co_core := (co_core c)\<lparr>core_sched := sched\<rparr>\<rparr>)"
proof (cases "dec_heartbeat cd (rq_body r)")
  case (Inr req)
  with assms(1) obtain res sched where beat: "Heartbeat (e_first e) (e_sel e) req (core_sched (co_core c)) = Returns (res, sched)"
    and c1: "c1 = c\<lparr>co_core := (co_core c)\<lparr>core_sched := sched\<rparr>\<rparr>"
    and reply: "(case res of HbPanic m \<Rightarrow> Aborted | HbErr \<Rightarrow> status_reply 500
      | HbResponse resp \<Rightarrow> (case enc_heartbeat cd resp of Inl err \<Rightarrow> status_reply 400 | Inr p \<Rightarrow> HbReply p)) = Answer w"
    by (auto simp: serve_heartbeat_def Let_def go_simps)
  from reply assms(2) obtain resp err where "res = HbResponse resp" "enc_heartbeat cd resp = Inl err" "w = WriteHeader 400 new_writer"
    by (cases res) (auto split: sum.splits)
  with Inr beat c1 show ?thesis by simp
qed (use assms in \<open>simp add: serve_heartbeat_def\<close>)

section \<open>A build from its client to its signal\<close>

lemma build_stored_files [simp]: "build_stored (co_core (put_files h c)) = build_stored (co_core c)"
  by (simp add: put_files_def build_stored_def fun_eq_iff)

lemma post_request_simps [simp]:
  "rq_path (post_request p q d) = p" "rq_body (post_request p q d) = ([d], None)"
  "query_get (post_request p q d) key = (case q key of None \<Rightarrow> [] | Some v \<Rightarrow> v)"
  by (simp_all add: post_request_def query_get_def)

lemma http_start_ok:
  assumes "enc_graph cd g = Inr gb" "dec_graph cd ([gb], None) = Inr g'"
    and "NewID (e_rand e) = Returns bid" "unseen (co_core c) bid" "e_conn e = (None, None)"
  obtains js w c1 where
    "client_StartBuild None (http_start cd e later) \<lparr>req_Graph = g\<rparr> c =
       (Inr (\<lparr>started_ID = bid, MissingFiles = map fst (Graph_SourceFiles g')\<rparr>, \<lparr>sr_rest = fst later, sr_end = snd later\<rparr>), c1)"
    "co_files c1 = co_files c" "build_stored (co_core c1) bid g' js w" "TopSort (Graph_Jobs g') = Some js"
    "startMsgSend w" "writer_open w"
    "sw_out w = [MsgStarted \<lparr>started_ID = bid, MissingFiles = map fst (Graph_SourceFiles g')\<rparr>]"
proof -
  have new: "\<not> startMsgSend NewStatusWriter" "writer_open NewStatusWriter" "sw_out NewStatusWriter = []"
    by simp_all
  obtain js w core where sb: "StartBuild (e_rand e) (None, None) \<lparr>req_Graph = g'\<rparr> NewStatusWriter (co_core c) = Returns (None, w, core)"
    "TopSort (Graph_Jobs g') = Some js" "startMsgSend w" "writer_open w"
    "sw_out w = [MsgStarted \<lparr>started_ID = bid, MissingFiles = map fst (Graph_SourceFiles g')\<rparr>]"
    "build_stored core bid g' js w" "core_fileCache core = core_fileCache (co_core c)"
    using StartBuild_stores [OF assms(3,4) new, of "\<lparr>req_Graph = g'\<rparr>"] by (metis BuildRequest.select_convs(1))
  let ?c1 = "c\<lparr>co_core := core\<rparr>"
  have "coordinator_mux cd e (post_request ''/build'' Map.empty gb) c = Returns (BuildStream (StartWaiting w), ?c1)"
    using assms(2,5) sb(1,4) by (simp add: coordinator_mux_def serve_build_def startBuildHandler_def writer_open_def)
  then have "client_StartBuild None (http_start cd e later) \<lparr>req_Graph = g\<rparr> c =
       (Inr (\<lparr>started_ID = bid, MissingFiles = map fst (Graph_SourceFiles g')\<rparr>, \<lparr>sr_rest = fst later, sr_end = snd later\<rparr>), ?c1)"
    using assms(1) sb(5) by (simp add: client_StartBuild_def doRequest_def http_start_def)
  moreover have "co_files ?c1 = co_files c" using sb(7) by (simp add: co_files_def)
  ultimately show thesis using that [of ?c1 js w] sb by simp
qed

lemma http_signal_ok:
  assumes "enc_signal cd \<lparr>UploadDone = True\<rparr> = Inr sb" "dec_signal cd ([sb], None) = Inr \<lparr>UploadDone = True\<rparr>"
    and "SignalBuild_begin (e_sys e) bid \<lparr>UploadDone = True\<rparr> (co_core c) = Returns (Inr (core, s))"
  shows "client_SignalBuild None (http_signal cd e answer) bid \<lparr>UploadDone = True\<rparr> c =
    (case answer s (c\<lparr>co_core := core\<rparr>) of
       (Inl err, c1) \<Rightarrow> (Some (ApiSendFailed err), c1)
     | (Inr (code, b), c1) \<Rightarrow> (if code = 200 then None else Some (status_error code b), c1))"
proof -
  have "coordinator_mux cd e (post_request ''/signal'' [''build_id'' \<mapsto> ID_String bid] sb) c =
      Returns (SignalRuns s, c\<lparr>co_core := core\<rparr>)"
    using assms(2,3) by (simp add: coordinator_mux_def serve_signal_def signalBuildHandler_def id_text_roundtrip)
  with assms(1) show ?thesis
    by (simp add: client_SignalBuild_def doRequest_def http_signal_def split: prod.split sum.split)
qed

text \<open>Uploads of readable files, in any order, from a client to this coordinator.\<close>

lemma http_uploads_ok:
  assumes calm: "e_os e = no_faults" "e_joined e = None"
    and ready: "\<forall>i \<in> set is. put_ready (co_files c) i \<and> (\<exists>ps. local (path i) = Inr (ps, None) \<and> concat ps = content i)"
    and order: "set order = {..<length is}"
  shows "\<exists>h. run_uploads local (http_files cd e) (map (\<lambda>i. (i, path i)) is) order (\<lambda>_. None) c = Returns (\<lambda>_. None, put_files h c) \<and>
    (\<forall>i. fc_content (h_cache h) i = (if i \<in> set is then Some (content i) else fc_content (h_cache (co_files c)) i))"
proof -
  let ?ups = "map (\<lambda>i. (i, path i)) is"
  have "put_ready (co_files c) (fst (?ups ! k)) \<and>
      (\<exists>ps. local (snd (?ups ! k)) = Inr (ps, None) \<and> concat ps = content (fst (?ups ! k)))" if "k \<in> set order" for k
    using that order ready by simp
  then have "\<exists>h. run_uploads local (perfect (file_route no_faults None)) ?ups order (\<lambda>_. None) (co_files c) = Returns (\<lambda>_. None, h) \<and>
    (\<forall>i. fc_content (h_cache h) i =
      (if i \<in> (\<lambda>k. fst (?ups ! k)) ` set order then Some (content i) else fc_content (h_cache (co_files c)) i))"
    by (intro run_uploads_ok) blast
  moreover have "(\<lambda>k. fst (?ups ! k)) ` set order = set is"
    using order by (force simp: in_set_conv_nth image_iff)
  ultimately show ?thesis
    by (auto simp: run_uploads_lift calm)
qed

section \<open>Properties\<close>

text \<open>
  C11. A build over HTTP, from the client to the loop of its signal: on any coordinator that has not
  seen the build's identifier, a graph that survives its encoding and whose files are regular and
  readable, in every order of the uploads, \<open>Build\<close> brings the coordinator to a signal that starts
  on exactly the jobs of the graph - dependencies first if the graph has an order, each with its
  input files - and with exactly the client's bytes of every source file in the file cache; \<open>Build\<close>
  then returns what the run of that signal and the stream give.
\<close>

theorem build_over_http:
  assumes graph: "enc_graph cd graph = Inr gb" "dec_graph cd ([gb], None) = Inr graph'" "same_graph graph graph'"
    and signal: "enc_signal cd \<lparr>UploadDone = True\<rparr> = Inr sb" "dec_signal cd ([sb], None) = Inr \<lparr>UploadDone = True\<rparr>"
    and new: "NewID (e_rand e) = Returns bid" "unseen (co_core c0) bid"
    and calm: "e_conn e = (None, None)" "e_os e = no_faults" "e_joined e = None"
    and sys: "run sched_step sched_fresh as = Some (e_sys e)"
    and files: "is_go_map (Graph_SourceFiles graph)"
      "\<forall>(i, path) \<in> set (Graph_SourceFiles graph). put_ready (co_files c0) i \<and> stat (full path) = Regular \<and>
         (\<exists>ps. local (full path) = Inr (ps, None) \<and> concat ps = content i)"
    and order: "set order = {..<length (Graph_SourceFiles graph)}"
    and senders: "\<forall>k < length (Graph_SourceFiles graph). 2 \<le> count_list senders k"
  shows "\<exists>s c2 res l1. sig_start s \<and> mset (map fst (sg_todo s)) = mset (Graph_Jobs graph) \<and>
    (distinct (map Job_ID (Graph_Jobs graph)) \<and> valid_graph (Graph_Jobs graph) \<longrightarrow> topo_ordered (map fst (sg_todo s))) \<and>
    (\<forall>jf \<in> set (sg_todo s). snd jf = job_inputs graph' (fst jf)) \<and>
    (\<forall>i. fc_content (sg_files s) i = (if i \<in> fst ` set (Graph_SourceFiles graph) then Some (content i)
       else fc_content (core_fileCache (co_core c0)) i)) \<and> core_fileCache (co_core c2) = sg_files s \<and>
    listen_all ctx lsn \<lparr>sr_rest = fst later, sr_end = snd later\<rparr> l = Some (res, l1) \<and>
    Build (http_start cd e later) (http_files cd e) (http_signal cd e answer) full stat local order senders ctx graph lsn l c0 =
      (case answer s c2 of
         (Inl err, c3) \<Rightarrow> Returns (Some (SignalFailed (ApiSendFailed err)), l, c3)
       | (Inr (code, b), c3) \<Rightarrow>
           if code = 200 then Returns (res, l1, c3) else Returns (Some (SignalFailed (status_error code b)), l, c3))"
proof -
  let ?missing = "map fst (Graph_SourceFiles graph')"
  have same: "mset (Graph_SourceFiles graph') = mset (Graph_SourceFiles graph)" "Graph_Jobs graph' = Graph_Jobs graph"
    using graph(3) by (simp_all add: same_graph_def)
  then have len: "length (Graph_SourceFiles graph') = length (Graph_SourceFiles graph)"
    and ids: "set ?missing = fst ` set (Graph_SourceFiles graph)"
    by (metis size_mset, metis set_map set_mset_mset)
  obtain js w c1 where start: "client_StartBuild None (http_start cd e later) \<lparr>req_Graph = graph\<rparr> c0 =
       (Inr (\<lparr>started_ID = bid, MissingFiles = ?missing\<rparr>, \<lparr>sr_rest = fst later, sr_end = snd later\<rparr>), c1)"
    "co_files c1 = co_files c0" "build_stored (co_core c1) bid graph' js w" "TopSort (Graph_Jobs graph') = Some js"
    "startMsgSend w" "writer_open w" "sw_out w = [MsgStarted \<lparr>started_ID = bid, MissingFiles = ?missing\<rparr>]"
    using http_start_ok [OF graph(1,2) new calm(1), of later] by metis
  have lookup: "\<exists>path. map_of (Graph_SourceFiles graph) i = Some path \<and> put_ready (co_files c0) i \<and> stat (full path) = Regular \<and>
      (\<exists>ps. local (full path) = Inr (ps, None) \<and> concat ps = content i)" if "i \<in> set ?missing" for i
    using that files unfolding ids is_go_map_def by (fastforce simp: map_of_eq_Some_iff)
  let ?ups = "map (\<lambda>i. (i, full (the (map_of (Graph_SourceFiles graph) i)))) ?missing"
  have ups: "start_uploads (Graph_SourceFiles graph) full stat ?missing = (None, ?ups)"
    using lookup by (intro start_uploads_ok) blast
  have "\<forall>i \<in> set ?missing. put_ready (co_files c1) i \<and>
      (\<exists>ps. local (full (the (map_of (Graph_SourceFiles graph) i))) = Inr (ps, None) \<and> concat ps = content i)"
    using lookup start(2) by fastforce
  from http_uploads_ok [where path = "\<lambda>i. full (the (map_of (Graph_SourceFiles graph) i))" and content = content,
      OF calm(2,3) this, of order cd] order len start(2) obtain h where
    uploaded: "run_uploads local (http_files cd e) ?ups order (\<lambda>_. None) c1 = Returns (\<lambda>_. None, put_files h c1)"
    and content: "fc_content (h_cache h) i = (if i \<in> set ?missing then Some (content i) else fc_content (h_cache (co_files c0)) i)" for i
    by auto
  have collected: "collect (length ?missing)
      (map snd (arrivals senders (\<lambda>k. if k < length ?ups then upload_sends (None :: client_error option) else []))) = Returns None"
    using collect_interleaving [OF arrivals_interleaving [of "length ?missing" senders "\<lambda>_. None :: client_error option"]] senders len
    by simp
  obtain core s where sb: "SignalBuild_begin (e_sys e) bid \<lparr>UploadDone = True\<rparr> (co_core (put_files h c1)) = Returns (Inr (core, s))"
    "sig_start s" "mset (map fst (sg_todo s)) = mset (Graph_Jobs graph')"
    "distinct (map Job_ID (Graph_Jobs graph')) \<and> valid_graph (Graph_Jobs graph') \<Longrightarrow> topo_ordered (map fst (sg_todo s))"
    "\<forall>jf \<in> set (sg_todo s). snd jf = job_inputs graph' (fst jf)"
    "sg_files s = h_cache h" "core_fileCache core = h_cache h"
    using SignalBuild_begins [OF _ start(4-7) sys, of "co_core (put_files h c1)"] start(3) by (metis build_stored_files files_lens(5))
  let ?c2 = "(put_files h c1)\<lparr>co_core := core\<rparr>"
  obtain res l1 where heard: "listen_all ctx lsn \<lparr>sr_rest = fst later, sr_end = snd later\<rparr> l = Some (res, l1)"
    using listen_all_returns by fastforce
  have "Build (http_start cd e later) (http_files cd e) (http_signal cd e answer) full stat local order senders ctx graph lsn l c0 =
      (case answer s ?c2 of
         (Inl err, c3) \<Rightarrow> Returns (Some (SignalFailed (ApiSendFailed err)), l, c3)
       | (Inr (code, b), c3) \<Rightarrow>
           if code = 200 then Returns (res, l1, c3) else Returns (Some (SignalFailed (status_error code b)), l, c3))"
    using start(1) ups uploaded collected heard http_signal_ok [OF signal sb(1), of answer]
    by (simp add: Build_def split: prod.split sum.split)
  with sb(2-7) heard content [unfolded ids] same(2) show ?thesis
    by (intro exI [of _ s] exI [of _ ?c2] exI [of _ res] exI [of _ l1]) (simp add: co_files_def)
qed

definition demo_codec :: codec where
  "demo_codec = \<lparr>enc_graph = (\<lambda>_. Inr [1]), dec_graph = (\<lambda>_. Inr (req_Graph demo_request)),
     enc_signal = (\<lambda>_. Inr [2]), dec_signal = (\<lambda>_. Inr \<lparr>UploadDone = True\<rparr>),
     dec_heartbeat = (\<lambda>_. Inr (idle_request 1)),
     enc_heartbeat = (\<lambda>_. Inl ''unsupported value''), sw_text = (\<lambda>_. ''write failed'')\<rparr>"

definition demo_env :: req_env where
  "demo_env = \<lparr>e_os = no_faults, e_joined = None, e_rand = Inr (replicate 20 7), e_conn = (None, None),
     e_first = (False, False), e_sel = (\<lambda>_ _. (False, False)), e_sys = sched_fresh\<rparr>"

lemma new_coordinator_ready:
  "put_ready (co_files (new_coordinator (shared empty_sys))) i" "unseen (co_core (new_coordinator (shared empty_sys))) i"
  using fresh_handler_ready [of i]
  by (simp_all add: co_files_def new_coordinator_def NewCoordinator_def fresh_handler_def NewHandler_def unseen_def
      NewHappenceBeforeMachine_def)

theorem build_over_http_witness:
  "\<exists>s c2. sig_start s \<and> fc_content (sg_files s) idA = Some [7, 8] \<and>
    Build (http_start demo_codec demo_env ([], None)) (http_files demo_codec demo_env)
      (http_signal demo_codec demo_env (\<lambda>s c. (Inr (500, ([], None)), c))) (\<lambda>p. ''src/'' @ p) (\<lambda>p. Regular)
      (\<lambda>p. Inr ([[7], [8]], None)) [0] [0, 0] [] (req_Graph demo_request) recorder []
      (new_coordinator (shared empty_sys)) = Returns (Some (SignalFailed (ApiStatus 500 [])), [], c2)"
proof -
  let ?c = "new_coordinator (shared empty_sys)"
  have codec: "enc_graph demo_codec (req_Graph demo_request) = Inr [1]" "dec_graph demo_codec ([[1]], None) = Inr (req_Graph demo_request)"
    "same_graph (req_Graph demo_request) (req_Graph demo_request)" "enc_signal demo_codec \<lparr>UploadDone = True\<rparr> = Inr [2]"
    "dec_signal demo_codec ([[2]], None) = Inr \<lparr>UploadDone = True\<rparr>"
    by (simp_all add: demo_codec_def same_graph_def)
  have env: "NewID (e_rand demo_env) = Returns (ID_of_raw (replicate 20 7))" "e_conn demo_env = (None, None)"
    "e_os demo_env = no_faults" "e_joined demo_env = None" "run sched_step sched_fresh [] = Some (e_sys demo_env)"
    by (simp_all add: demo_env_def NewID_def id_size_def)
  have files: "Graph_SourceFiles (req_Graph demo_request) = [(idA, ''a.c'')]"
    by (simp add: demo_request_def)
  show ?thesis
    using build_over_http [OF codec env(1) new_coordinator_ready(2) env(2-5), of "\<lambda>p. Regular" "\<lambda>p. ''src/'' @ p"
        "\<lambda>p. Inr ([[7], [8]], None)" "\<lambda>_. [7, 8]" "[0]" "[0, 0]" "[]" recorder "([], None)" "[]"
        "\<lambda>s c. (Inr (500, ([], None)), c)"] new_coordinator_ready(1)
    by (simp add: files lessThan_Suc status_error_def body_bytes_def) metis
qed

text \<open>
  C37. A request the coordinator turns down with a client error - an unknown path, a missing or broken
  identifier, a body that is not the expected document, a wrong method - changes nothing on it, with
  one exception: a heartbeat is also answered 400 when its response cannot be encoded, and then the
  scheduler is as the heartbeat has left it, with the results it reported and without the jobs it took.
\<close>

theorem rejected_requests_change_nothing:
  assumes "coordinator_mux cd e r c = Returns (Answer w, c1)" "final_status w \<in> {400, 404, 405}"
  shows "c1 = c \<or>
    rq_path r = ''/heartbeat'' \<and> final_status w = 400 \<and>
    (\<exists>req resp sched err. dec_heartbeat cd (rq_body r) = Inr req \<and>
       Heartbeat (e_first e) (e_sel e) req (core_sched (co_core c)) = Returns (HbResponse resp, sched) \<and>
       enc_heartbeat cd resp = Inl err \<and> c1 = c\<lparr>co_core := (co_core c)\<lparr>core_sched := sched\<rparr>\<rparr>)"
proof -
  have "c1 = c" if build: "serve_build cd e r c = Returns (Answer w, c1)"
  proof -
    from build obtain res where reply: "(case res of StartReply code \<Rightarrow> status_reply code | _ \<Rightarrow> BuildStream res) = Answer w"
      and started: "startBuildHandler (e_conn e)
         (\<lambda>request w c. go_bind (StartBuild (e_rand e) (e_conn e) request w (co_core c))
            (\<lambda>(err, w1, core). Returns (map_option (sw_text cd) err, w1, c\<lparr>co_core := core\<rparr>)))
         (dec_graph cd (rq_body r)) c = Returns (res, c1)"
      by (auto simp: serve_build_def go_simps)
    from reply assms(2) have "\<exists>code. res = StartReply code \<and> code \<in> {400, 404, 405}"
      by (cases res) auto
    then obtain code where code: "res = StartReply code" "code \<in> {400, 404, 405}" by blast
    from start_reply_400 [OF started [unfolded code(1)] code(2)] show ?thesis .
  qed
  moreover have "c1 = c" if "serve_signal cd e r c = Returns (Answer w, c1)"
    using that assms(2)
    by (auto simp: serve_signal_def signalBuildHandler_def go_simps
        split: if_splits sum.splits prod.splits option.splits)
  moreover have "c1 = c" if served: "serve_file e r c = Returns (Answer w, c1)"
  proof -
    from served obtain out where out: "file_route (e_os e) (e_joined e) r (co_files c) = Returns out"
      "(case out of Served w h \<Rightarrow> (Answer w, put_files h c) | Dropped h \<Rightarrow> (Aborted, put_files h c)) = (Answer w, c1)"
      by (auto simp: serve_file_def go_simps)
    then show ?thesis
      using served_file_status [of "e_os e" "e_joined e" r "co_files c"] assms(2) by (cases out) auto
  qed
  ultimately show ?thesis
    using assms serve_heartbeat_400 [of cd e r c w c1] by (simp add: coordinator_mux_def split: if_split_asm)
qed

text \<open>
  A signal with a broken identifier, and a heartbeat for one slot whose response cannot be encoded:
  both are answered 400, but after the second the job that waited is no longer in the queue.
\<close>

definition busy_coordinator :: coordinator where
  "busy_coordinator = (new_coordinator (shared empty_sys))
     \<lparr>co_core := (NewCoordinator (shared empty_sys))\<lparr>core_sched := two_queued\<rparr>\<rparr>"

lemma one_slot_beat:
  "\<exists>resp. Heartbeat (False, False) (\<lambda>_ _. (False, False)) (idle_request 1) two_queued =
     Returns (HbResponse resp, take_jobs 1 two_queued)"
  using heartbeat_calm [of two_queued "idle_request 1" "{}" two_queued two_queued "\<lambda>_ _. (False, False)" False]
  by (simp add: two_queued_def idle_request_def NewScheduler_def)

theorem rejected_requests_change_nothing_witness:
  "(\<exists>w. coordinator_mux demo_codec demo_env (post_request ''/signal'' [''build_id'' \<mapsto> ''xyz''] []) (new_coordinator (shared empty_sys)) =
      Returns (Answer w, new_coordinator (shared empty_sys)) \<and> final_status w = 400) \<and>
   (\<exists>w c1. coordinator_mux demo_codec demo_env (post_request ''/heartbeat'' Map.empty [3]) busy_coordinator =
      Returns (Answer w, c1) \<and> final_status w = 400 \<and> core_sched (co_core c1) = take_jobs 1 two_queued)"
proof -
  let ?new = "new_coordinator (shared empty_sys)"
  have "coordinator_mux demo_codec demo_env (post_request ''/signal'' [''build_id'' \<mapsto> ''xyz''] []) ?new =
      Returns (Answer (WriteHeader 400 new_writer), ?new)"
    using rejected_requests_change_nothing [of demo_codec demo_env "post_request ''/signal'' [''build_id'' \<mapsto> ''xyz''] []" ?new
        "WriteHeader 400 new_writer"]
    by (simp add: coordinator_mux_def serve_signal_def signalBuildHandler_def ID_UnmarshalText_def from_hex_char_def status_reply_def)
  moreover obtain resp where beat: "Heartbeat (False, False) (\<lambda>_ _. (False, False)) (idle_request 1) two_queued =
      Returns (HbResponse resp, take_jobs 1 two_queued)"
    using one_slot_beat by blast
  then have "coordinator_mux demo_codec demo_env (post_request ''/heartbeat'' Map.empty [3]) busy_coordinator =
      Returns (Answer (WriteHeader 400 new_writer), busy_coordinator
        \<lparr>co_core := (co_core busy_coordinator)\<lparr>core_sched := take_jobs 1 two_queued\<rparr>\<rparr>)"
    by (simp add: coordinator_mux_def serve_heartbeat_def demo_codec_def demo_env_def busy_coordinator_def Let_def status_reply_def)
  ultimately show ?thesis by (auto simp: busy_coordinator_def)
qed

end
