(* ===== verification/File_Server.thy ===== *)
theory File_Server
  imports File_Handler Refinement
begin

text \<open>
  The file server of a coordinator with any number of requests at a time (\<open>filecache/handler.go\<close>):
  the goroutines of the handlers share the file cache and the locks of the handler, while signals
  remove files from the same cache (\<open>removeSourceFiles\<close>, \<open>dist/build_service.go\<close>). A goroutine
  is cut before each section under a mutex, each operation on a channel and each system call;
  \<open>h.lock\<close> is the machine of \<open>Key_Lock\<close>.
\<close>

section \<open>Where a goroutine is\<close>

text \<open>
  \<open>Reply\<close> writes the error a PUT ends with; the code does it before an \<open>abort\<close>, which nobody can
  tell. Where a constructor has a body (optional when it may have been stored already) that the code
  does not need any more, or an ended PUT its identifier, it is history: the request the goroutine serves.
\<close>

datatype handler_pc =
    Unused
  | PutLock ID body                    \<comment> \<open>in \<open>h.lock.Lock\<close>\<close>
  | PutStart ID body                   \<comment> \<open>at the label \<open>start\<close>, before \<open>writeLock\<close> of \<open>Create\<close>\<close>
  | PutMkdir ID body
  | PutOpen ID body                    \<comment> \<open>before \<open>os.Create\<close>\<close>
  | RemLock ID body                    \<comment> \<open>the file exists: before \<open>writeLock\<close> of \<open>Remove\<close>\<close>
  | RemDelete ID body
  | PutCopy ID body nat                \<comment> \<open>in \<open>io.Copy\<close>, with so many pieces copied\<close>
  | PutClose ID body
  | PutRename ID body "string option"  \<comment> \<open>in \<open>commit\<close>, with the error of \<open>f.Close\<close>\<close>
  | PutAbort ID "body option" string   \<comment> \<open>in the deferred \<open>abort\<close>\<close>
  | UnlockThen ID handler_pc           \<comment> \<open>before a \<open>writeUnlock\<close>, and what follows\<close>
  | Reply ID "body option" string
  | Leave ID "ResponseWriter option"   \<comment> \<open>in the deferred \<open>h.lock.Unlock\<close>; \<open>None\<close>: panicking\<close>
  | PutEnded ID "ResponseWriter option"
  | GetLock ID
  | GetStat ID
  | GetOpen ID                         \<comment> \<open>before \<open>os.Open\<close>\<close>
  | GetCopy ID bytes                   \<comment> \<open>the file is open\<close>
  | GetUnlock ID "string option" ResponseWriter
  | GetEnded ID ResponseWriter
  | GetJoined ResponseWriter           \<comment> \<open>joined the call of another GET\<close>
  | SigRemove ID                       \<comment> \<open>\<open>Remove\<close> by a signal\<close>
  | SigDelete ID
  | SigEnded

section \<open>The moves of a goroutine on the cache\<close>

definition get_answer :: "string option \<Rightarrow> ResponseWriter \<Rightarrow> ResponseWriter" where
  "get_answer err w = (case err of None \<Rightarrow> w | Some e \<Rightarrow> http_Error e 500 w)"

definition open_file :: "os_env \<Rightarrow> ID \<Rightarrow> Cache \<Rightarrow> string + bytes" where
  "open_file env i c =
     (case fault env SysOpen of Some e \<Rightarrow> Inl e
      | None \<Rightarrow> (case fc_content c i of None \<Rightarrow> Inl ''no such file or directory'' | Some data \<Rightarrow> Inr data))"

text \<open>A \<open>RemoveAll\<close> that fails has removed a file or left it as it was.\<close>

definition whole_or_gone :: "ID \<Rightarrow> Cache \<Rightarrow> Cache \<Rightarrow> bool" where
  "whole_or_gone i c c1 \<longleftrightarrow> fc_content c1 i = None \<or> fc_content c1 i = fc_content c i"

fun cache_move :: "os_env \<Rightarrow> Cache \<Rightarrow> handler_pc \<Rightarrow> (Cache \<times> handler_pc) option" where
  "cache_move env c (PutStart i b) =
     (let (e, c1) = writeLock env i False c in Some (c1,
        case e of
          None \<Rightarrow> PutMkdir i b
        | Some err \<Rightarrow> if err = Art_ErrExists then RemLock i b
                      else Reply i (Some b) (''failed to create a cache entry: '' @ fc_error_text (convertErr err))))"
| "cache_move env c (PutMkdir i b) =
     (let (e, c1) = make_dir env i c in Some (c1,
        case e of
          None \<Rightarrow> PutOpen i b
        | Some err \<Rightarrow> UnlockThen i
            (Reply i (Some b) (''failed to create a cache entry: '' @ fc_error_text (convertErr err)))))"
| "cache_move env c (PutOpen i b) = Some
     (case os_Create env fileName (case tmpDir c i of None \<Rightarrow> [] | Some d \<Rightarrow> d) of
        Inl e \<Rightarrow> (c, Leave i None)
      | Inr d \<Rightarrow> (write_files i d c, PutCopy i b 0))"
| "cache_move env c (RemLock i b) =
     (let (e, c1) = writeLock env i True c in Some (c1,
        case e of
          None \<Rightarrow> RemDelete i b
        | Some err \<Rightarrow> Reply i (Some b)
            (''couldn't delete the file to update the data: '' @ fc_error_text (convertErr err))))"
| "cache_move env c (RemDelete i b) =
     (let (e, c1) = remove_dir env i c in
      if whole_or_gone i c c1
      then Some (c1, UnlockThen i
        (case e of
           None \<Rightarrow> PutStart i b
         | Some err \<Rightarrow> Reply i (Some b)
             (''couldn't delete the file to update the data: '' @ fc_error_text (convertErr err))))
      else None)"
| "cache_move env c (PutCopy i b n) = Some
     (if n < length (fst b)
      then (let (e, c1) = fileWriter_Write env \<lparr>fw_id = i, fw_open = True\<rparr> (fst b ! n) c in (c1,
              case e of
                None \<Rightarrow> PutCopy i b (Suc n)
              | Some err \<Rightarrow> PutAbort i (Some b) (''couldn't copy data to cache: '' @ err)))
      else (c, case snd b of
                 None \<Rightarrow> PutClose i b
               | Some err \<Rightarrow> PutAbort i (Some b) (''couldn't copy data to cache: '' @ err)))"
| "cache_move env c (PutClose i b) = Some (c, PutRename i b (fault env SysClose))"
| "cache_move env c (PutRename i b closeErr) =
     (let (commitErr, c1) = commit_dir env i c;
          left = (if commitErr = None then None else Some b)
      in Some (c1, UnlockThen i
        (case closeErr of
           Some e \<Rightarrow> PutAbort i left (''close writer: '' @ e)
         | None \<Rightarrow>
             (case commitErr of
                Some err \<Rightarrow> PutAbort i left (''close writer: '' @ fc_error_text (FC_Err err))
              | None \<Rightarrow> Leave i (Some new_writer)))))"
| "cache_move env c (PutAbort i left msg) = Some (snd (abort_dir env i c), UnlockThen i (Reply i left msg))"
| "cache_move env c (UnlockThen i pc) = Some (writeUnlock i c, pc)"
| "cache_move env c (Reply i left msg) = Some (c, Leave i (Some (http_Error msg 500 new_writer)))"
| "cache_move env c (GetLock i) =
     (let (e, c1) = readLock i c in Some (c1,
        case e of
          None \<Rightarrow> GetStat i
        | Some err \<Rightarrow> GetEnded i (get_answer
            (Some (''failed to get file from cache: '' @ fc_error_text (convertErr err))) new_writer)))"
| "cache_move env c (GetStat i) = Some
     (case stat_entry env i c of
        None \<Rightarrow> (c, GetOpen i)
      | Some err \<Rightarrow> (readUnlock i c, GetEnded i (get_answer
          (Some (''failed to get file from cache: '' @ fc_error_text (convertErr err))) new_writer)))"
| "cache_move env c (GetOpen i) = Some (c,
     case open_file env i c of
       Inl e \<Rightarrow> GetUnlock i (Some (''couldn't open the file: '' @ e)) new_writer
     | Inr data \<Rightarrow> GetCopy i data)"
| "cache_move env c (GetCopy i data) = Some (c,
     case fault env SysRead of
       Some e \<Rightarrow> GetUnlock i (Some (''couldn't copy the file to the request body: '' @ e))
                  (rw_copy (take (written env) data) new_writer)
     | None \<Rightarrow> GetUnlock i None (rw_copy data new_writer))"
| "cache_move env c (GetUnlock i err w) = Some (readUnlock i c, GetEnded i (get_answer err w))"
| "cache_move env c (SigRemove i) =
     (let (e, c1) = writeLock env i True c in Some (c1, if e = None then SigDelete i else SigEnded))"
| "cache_move env c (SigDelete i) =
     (let c1 = snd (remove_dir env i c) in
      if whole_or_gone i c c1 then Some (c1, UnlockThen i SigEnded) else None)"
| "cache_move env c pc = None"

section \<open>The machine\<close>

record server =
  fs_cache :: Cache
  fs_locks :: "ID kl_sys"
  fs_pcs :: "nat \<Rightarrow> handler_pc"

text \<open>
  Each request is served by a goroutine of its own. \<open>joined\<close> is the error of the call in flight
  that a GET has joined, if it has (\<open>singleflight\<close>).
\<close>

datatype server_act =
    Put nat ID body
  | Get nat ID "string option option"
  | Erase nat ID
  | Move nat os_env

definition fs_goto :: "nat \<Rightarrow> handler_pc \<Rightarrow> server \<Rightarrow> server" where
  "fs_goto j pc s = s\<lparr>fs_pcs := (fs_pcs s)(j := pc)\<rparr>"

text \<open>The next part of \<open>Lock\<close> or \<open>Unlock\<close>, and what follows when the call is over.\<close>

definition lock_move :: "nat \<Rightarrow> ID \<Rightarrow> handler_pc \<Rightarrow> server \<Rightarrow> server option" where
  "lock_move j i next s =
     (case kl_pcs (fs_locks s) j of
        Holding k \<Rightarrow> Some (fs_goto j next s)
      | Outside \<Rightarrow> map_option (\<lambda>l. s\<lparr>fs_locks := l\<rparr>) (kl_step (fs_locks s) (CallLock j i))
      | _ \<Rightarrow> map_option (\<lambda>l. s\<lparr>fs_locks := l\<rparr>) (kl_step (fs_locks s) (Advance j)))"

definition unlock_move :: "nat \<Rightarrow> handler_pc \<Rightarrow> server \<Rightarrow> server option" where
  "unlock_move j next s =
     (case kl_pcs (fs_locks s) j of
        Outside \<Rightarrow> Some (fs_goto j next s)
      | Holding k \<Rightarrow> map_option (\<lambda>l. s\<lparr>fs_locks := l\<rparr>) (kl_step (fs_locks s) (CallUnlock j))
      | _ \<Rightarrow> map_option (\<lambda>l. s\<lparr>fs_locks := l\<rparr>) (kl_step (fs_locks s) (Advance j)))"

fun server_step :: "server \<Rightarrow> server_act \<Rightarrow> server option" where
  "server_step s (Put j i b) = (if fs_pcs s j = Unused then Some (fs_goto j (PutLock i b) s) else None)"
| "server_step s (Get j i joined) =
     (if fs_pcs s j = Unused
      then Some (fs_goto j (case joined of None \<Rightarrow> GetLock i | Some err \<Rightarrow> GetJoined (get_answer err new_writer)) s)
      else None)"
| "server_step s (Erase j i) = (if fs_pcs s j = Unused then Some (fs_goto j (SigRemove i) s) else None)"
| "server_step s (Move j env) =
     (case fs_pcs s j of
        PutLock i b \<Rightarrow> lock_move j i (PutStart i b) s
      | Leave i out \<Rightarrow> unlock_move j (PutEnded i out) s
      | pc \<Rightarrow>
          (case cache_move env (fs_cache s) pc of
             None \<Rightarrow> None
           | Some (c, pc') \<Rightarrow> Some (fs_goto j pc' (s\<lparr>fs_cache := c\<rparr>))))"

definition server_start :: "server \<Rightarrow> bool" where
  "server_start s \<longleftrightarrow> kl_start (fs_locks s) \<and> fs_pcs s = (\<lambda>_. Unused)"

section \<open>The invariant\<close>

text \<open>What the locker can be doing for a goroutine, and the request whose file it has yet to store.\<close>

fun pc_lock :: "handler_pc \<Rightarrow> ID kl_pc set" where
  "pc_lock (PutLock i b) = {Outside, InLock i, Sending i, Holding i}"
| "pc_lock (PutStart i b) = {Holding i}"
| "pc_lock (PutMkdir i b) = {Holding i}"
| "pc_lock (PutOpen i b) = {Holding i}"
| "pc_lock (RemLock i b) = {Holding i}"
| "pc_lock (RemDelete i b) = {Holding i}"
| "pc_lock (PutCopy i b n) = {Holding i}"
| "pc_lock (PutClose i b) = {Holding i}"
| "pc_lock (PutRename i b e) = {Holding i}"
| "pc_lock (PutAbort i left msg) = {Holding i}"
| "pc_lock (Reply i left msg) = {Holding i}"
| "pc_lock (UnlockThen i pc) =
     (if pc = SigEnded then {Outside} else if Holding i \<in> pc_lock pc then {Holding i} else {})"
| "pc_lock (Leave i out) = {Holding i, InUnlock i, Receiving i, Outside}"
| "pc_lock pc = {Outside}"

fun put_of :: "handler_pc \<Rightarrow> (ID \<times> body) option" where
  "put_of (PutLock i b) = Some (i, b)"
| "put_of (PutStart i b) = Some (i, b)"
| "put_of (PutMkdir i b) = Some (i, b)"
| "put_of (PutOpen i b) = Some (i, b)"
| "put_of (RemLock i b) = Some (i, b)"
| "put_of (RemDelete i b) = Some (i, b)"
| "put_of (PutCopy i b n) = Some (i, b)"
| "put_of (PutClose i b) = Some (i, b)"
| "put_of (PutRename i b e) = Some (i, b)"
| "put_of (PutAbort i left msg) = map_option (Pair i) left"
| "put_of (Reply i left msg) = map_option (Pair i) left"
| "put_of (UnlockThen i pc) = put_of pc"
| "put_of pc = None"

fun after_unlock :: "handler_pc \<Rightarrow> bool" where
  "after_unlock (PutStart i b) \<longleftrightarrow> True"
| "after_unlock (PutAbort i left msg) \<longleftrightarrow> True"
| "after_unlock (Reply i left msg) \<longleftrightarrow> True"
| "after_unlock (Leave i out) \<longleftrightarrow> True"
| "after_unlock SigEnded \<longleftrightarrow> True"
| "after_unlock pc \<longleftrightarrow> False"

text \<open>The draft of a PUT has what has been copied of its body.\<close>

fun draft_ok :: "Cache \<Rightarrow> handler_pc \<Rightarrow> bool" where
  "draft_ok c (PutCopy i b n) \<longleftrightarrow> fc_draft c i = Some (concat (take n (fst b))) \<and> n \<le> length (fst b)"
| "draft_ok c (PutClose i b) \<longleftrightarrow> fc_draft c i = Some (concat (fst b)) \<and> snd b = None"
| "draft_ok c (PutRename i b e) \<longleftrightarrow> fc_draft c i = Some (concat (fst b)) \<and> snd b = None"
| "draft_ok c (UnlockThen i pc) \<longleftrightarrow> after_unlock pc"
| "draft_ok c pc \<longleftrightarrow> True"

definition server_inv :: "server \<Rightarrow> bool" where
  [inv_defs]: "server_inv s \<longleftrightarrow> kl_inv (fs_locks s) \<and>
     (\<forall>j. kl_pcs (fs_locks s) j \<in> pc_lock (fs_pcs s j) \<and> draft_ok (fs_cache s) (fs_pcs s j))"

lemmas move_splits = prod.splits option.splits sum.splits if_splits

lemma cache_move_lock:
  assumes "cache_move env c pc = Some (c1, pc')" "l \<in> pc_lock pc"
  shows "l \<in> pc_lock pc'"
  using assms by (cases pc) (auto simp: Let_def split: move_splits)

lemma cache_locks_tmp:
  "writeLock env i remove c = (e, c1) \<Longrightarrow> tmpDir c1 = tmpDir c"
  "readLock i c = (e, c1) \<Longrightarrow> tmpDir c1 = tmpDir c"
  "tmpDir (readUnlock i c) = tmpDir c" "tmpDir (writeUnlock i c) = tmpDir c"
  "remove_dir env i c = (e, c1) \<Longrightarrow> tmpDir c1 = tmpDir c"
  by (auto simp: cache_parts Let_def split: move_splits os_error.splits)

lemma draft_frame:
  assumes "i \<noteq> k"
  shows "make_dir env i c = (e, c1) \<Longrightarrow> tmpDir c1 k = tmpDir c k"
    "commit_dir env i c = (e, c1) \<Longrightarrow> tmpDir c1 k = tmpDir c k"
    "tmpDir (snd (abort_dir env i c)) k = tmpDir c k"
    "fileWriter_Write env' \<lparr>fw_id = i, fw_open = True\<rparr> p c = (e', c1) \<Longrightarrow> tmpDir c1 k = tmpDir c k"
  using assms
  by (auto simp: make_dir_def commit_dir_def abort_dir_def MkdirAll_def Rename_def RemoveAll_def
      fileWriter_Write_def write_data_def split: move_splits)

text \<open>Only the goroutine that has the lock of an identifier touches its draft.\<close>

lemma cache_move_tmp:
  assumes "cache_move env c pc = Some (c1, pc')" "l \<in> pc_lock pc" "l \<noteq> Holding k"
  shows "tmpDir c1 k = tmpDir c k"
proof (cases pc)
  case (PutMkdir i b)
  with assms show ?thesis by (auto simp: Let_def cache_locks_tmp draft_frame(1) split: prod.splits)
next
  case (PutRename i b e)
  with assms show ?thesis by (auto simp: Let_def cache_locks_tmp draft_frame(2) split: prod.splits)
next
  case (PutAbort i left msg)
  with assms show ?thesis by (auto simp: draft_frame(3))
next
  case (PutCopy i b n)
  with assms show ?thesis by (auto simp: Let_def cache_locks_tmp draft_frame(4) split: prod.splits if_splits)
next
  case (PutOpen i b)
  with assms show ?thesis by (auto simp: write_files_def split: sum.splits)
next
  case (RemDelete i b)
  with assms show ?thesis by (auto simp: Let_def cache_locks_tmp split: prod.splits if_splits)
next
  case (SigDelete i)
  with assms show ?thesis by (cases "remove_dir env i c") (auto simp: Let_def cache_locks_tmp split: if_splits)
qed (use assms in \<open>auto simp: Let_def cache_locks_tmp split: prod.splits option.splits\<close>)

lemma draft_cong:
  assumes "\<And>k. pc_lock pc = {Holding k} \<Longrightarrow> tmpDir c1 k = tmpDir c k" "draft_ok c pc"
  shows "draft_ok c1 pc"
  using assms by (cases pc) (auto simp: fc_draft_def)

text \<open>The moves of a PUT itself.\<close>

lemma draft_opened:
  assumes "os_Create env fileName d = Inr d1"
  shows "fc_draft (write_files i d1 c) i = Some []"
  using os_Create_content [OF assms] by (simp add: fc_draft_def write_files_def)

lemma draft_written:
  assumes "fileWriter_Write env \<lparr>fw_id = i, fw_open = True\<rparr> p c = (None, c1)" "fc_draft c i = Some old"
  shows "fc_draft c1 i = Some (old @ p)"
  using assms by (auto simp: fileWriter_Write_def write_data_draft split: move_splits)

lemma cache_move_draft:
  assumes "cache_move env c pc = Some (c1, pc')" "draft_ok c pc"
  shows "draft_ok c1 pc'"
proof (cases pc)
  case (PutOpen i b)
  with assms(1) show ?thesis by (auto simp: draft_opened split: sum.splits)
next
  case (PutCopy i b n)
  show ?thesis
  proof (cases "n < length (fst b)")
    case True
    with PutCopy assms show ?thesis
      by (auto simp: Let_def draft_written take_Suc_conv_app_nth split: prod.splits option.splits)
  qed (use PutCopy assms in \<open>auto split: option.splits\<close>)
next
  case (UnlockThen i pc1)
  with assms show ?thesis by (cases pc1) auto
next
  case (PutRename i b e)
  with assms(1) show ?thesis by (auto simp: Let_def split: move_splits)
next
  case (RemDelete i b)
  with assms(1) show ?thesis by (auto simp: Let_def split: move_splits)
next
  case (SigDelete i)
  with assms(1) show ?thesis by (auto simp: Let_def split: if_splits)
qed (use assms in \<open>auto simp: Let_def split: prod.splits option.splits sum.splits\<close>)

lemma server_start_inv: "server_start s \<Longrightarrow> server_inv s"
  by (simp add: server_start_def server_inv_def kl_start_inv) (simp add: kl_start_def)

text \<open>A move of the locker alone: the goroutine stays where it is, and the locker may serve it.\<close>

lemma server_inv_lock:
  assumes inv: "server_inv s" and step: "kl_step (fs_locks s) a = Some l"
    and others: "\<And>j'. j' \<noteq> j \<Longrightarrow> kl_pcs l j' = kl_pcs (fs_locks s) j'" and own: "kl_pcs l j \<in> pc_lock (fs_pcs s j)"
  shows "server_inv (s\<lparr>fs_locks := l\<rparr>)"
proof -
  have "kl_pcs l j' \<in> pc_lock (fs_pcs s j')" for j'
    using inv own others by (cases "j' = j") (simp_all add: server_inv_def)
  with inv kl.step_inv [OF _ step] show ?thesis
    by (simp add: server_inv_def)
qed

lemma server_inv_goto:
  assumes "server_inv s" "kl_pcs (fs_locks s) j \<in> pc_lock pc" "draft_ok (fs_cache s) pc"
  shows "server_inv (fs_goto j pc s)"
  using assms by (simp add: server_inv_def fs_goto_def)

lemma move_cases:
  assumes "server_step s (Move j env) = Some t"
  obtains (lock) i b where "fs_pcs s j = PutLock i b" "lock_move j i (PutStart i b) s = Some t"
  | (unlock) i out where "fs_pcs s j = Leave i out" "unlock_move j (PutEnded i out) s = Some t"
  | (cache) c pc where "cache_move env (fs_cache s) (fs_pcs s j) = Some (c, pc)" "t = fs_goto j pc (s\<lparr>fs_cache := c\<rparr>)"
  using assms by (cases "fs_pcs s j") (auto split: option.splits simp del: cache_move.simps)

text \<open>The locker as its users call it: only the caller's place in it changes.\<close>

lemma kl_step_frame:
  assumes "kl_step s a = Some t" "a = CallLock j k \<or> a = CallUnlock j \<or> a = Advance j" "j' \<noteq> j"
  shows "kl_pcs t j' = kl_pcs s j'"
  using assms by (auto simp: kl_goto_def split: kl_pc.splits prod.splits option.splits if_splits)

lemma server_inv_part:
  assumes "server_inv s"
  shows "kl_inv (fs_locks s)" "kl_pcs (fs_locks s) j \<in> pc_lock (fs_pcs s j)" "draft_ok (fs_cache s) (fs_pcs s j)"
  using assms by (simp_all add: server_inv_def)

lemma kl_step_own:
  assumes "kl_step s a = Some t"
  shows "a = CallLock j i \<Longrightarrow> kl_pcs t j = InLock i"
    "a = CallUnlock j \<Longrightarrow> kl_pcs s j = Holding i \<Longrightarrow> kl_pcs t j = InUnlock i"
    "a = Advance j \<Longrightarrow> kl_pcs s j \<in> {InLock i, Sending i} \<Longrightarrow> kl_pcs t j \<in> {Sending i, Holding i}"
    "a = Advance j \<Longrightarrow> kl_pcs s j \<in> {InUnlock i, Receiving i} \<Longrightarrow> kl_pcs t j \<in> {Receiving i, Outside}"
  using assms by (auto simp: kl_goto_def split: prod.splits if_splits)

lemma lock_move_cases:
  assumes "lock_move j i next s = Some t" "kl_pcs (fs_locks s) j \<in> {Outside, InLock i, Sending i, Holding i}"
  obtains (got) "kl_pcs (fs_locks s) j = Holding i" "t = fs_goto j next s"
  | (on) a l where "kl_step (fs_locks s) a = Some l" "a = CallLock j i \<or> a = CallUnlock j \<or> a = Advance j"
      "kl_pcs l j \<in> {InLock i, Sending i, Holding i}" "t = s\<lparr>fs_locks := l\<rparr>"
proof (cases "kl_pcs (fs_locks s) j")
  case Outside
  with assms(1) obtain l where "kl_step (fs_locks s) (CallLock j i) = Some l" "t = s\<lparr>fs_locks := l\<rparr>"
    by (auto simp: lock_move_def simp del: kl_step.simps)
  then show ?thesis using on [of "CallLock j i" l] kl_step_own(1) [of _ _ l j i] by simp
next
  case (Holding k)
  with assms got show ?thesis by (auto simp: lock_move_def)
next
  case (InLock k)
  then have at: "kl_pcs (fs_locks s) j \<in> {InLock i, Sending i}" using assms(2) by simp
  from InLock assms(1) obtain l where "kl_step (fs_locks s) (Advance j) = Some l" "t = s\<lparr>fs_locks := l\<rparr>"
    by (auto simp: lock_move_def simp del: kl_step.simps)
  then show ?thesis using on [of "Advance j" l] kl_step_own(3) [of _ _ l j i, OF _ refl at] by auto
next
  case (Sending k)
  then have at: "kl_pcs (fs_locks s) j \<in> {InLock i, Sending i}" using assms(2) by simp
  from Sending assms(1) obtain l where "kl_step (fs_locks s) (Advance j) = Some l" "t = s\<lparr>fs_locks := l\<rparr>"
    by (auto simp: lock_move_def simp del: kl_step.simps)
  then show ?thesis using on [of "Advance j" l] kl_step_own(3) [of _ _ l j i, OF _ refl at] by auto
qed (use assms(2) in simp_all)

lemma unlock_move_cases:
  assumes "unlock_move j next s = Some t" "kl_pcs (fs_locks s) j \<in> {Holding i, InUnlock i, Receiving i, Outside}"
  obtains (left) "kl_pcs (fs_locks s) j = Outside" "t = fs_goto j next s"
  | (on) a l where "kl_step (fs_locks s) a = Some l" "a = CallLock j i \<or> a = CallUnlock j \<or> a = Advance j"
      "kl_pcs l j \<in> {InUnlock i, Receiving i, Outside}" "t = s\<lparr>fs_locks := l\<rparr>"
proof (cases "kl_pcs (fs_locks s) j")
  case (Holding k)
  with assms(1) obtain l where "kl_step (fs_locks s) (CallUnlock j) = Some l" "t = s\<lparr>fs_locks := l\<rparr>"
    by (auto simp: unlock_move_def simp del: kl_step.simps)
  moreover from Holding assms(2) have "kl_pcs (fs_locks s) j = Holding i" by simp
  ultimately show ?thesis using on [of "CallUnlock j" l] kl_step_own(2) [of _ _ l j i] by simp
next
  case Outside
  with assms left show ?thesis by (auto simp: unlock_move_def)
next
  case (InUnlock k)
  then have at: "kl_pcs (fs_locks s) j \<in> {InUnlock i, Receiving i}" using assms(2) by simp
  from InUnlock assms(1) obtain l where "kl_step (fs_locks s) (Advance j) = Some l" "t = s\<lparr>fs_locks := l\<rparr>"
    by (auto simp: unlock_move_def simp del: kl_step.simps)
  then show ?thesis using on [of "Advance j" l] kl_step_own(4) [of _ _ l j i, OF _ refl at] by auto
next
  case (Receiving k)
  then have at: "kl_pcs (fs_locks s) j \<in> {InUnlock i, Receiving i}" using assms(2) by simp
  from Receiving assms(1) obtain l where "kl_step (fs_locks s) (Advance j) = Some l" "t = s\<lparr>fs_locks := l\<rparr>"
    by (auto simp: unlock_move_def simp del: kl_step.simps)
  then show ?thesis using on [of "Advance j" l] kl_step_own(4) [of _ _ l j i, OF _ refl at] by auto
qed (use assms(2) in simp_all)

lemma server_step_inv:
  assumes inv: "server_inv s" and step: "server_step s a = Some t"
  shows "server_inv t"
proof (cases a)
  case (Move j env)
  from step [unfolded Move] show ?thesis
  proof (cases rule: move_cases)
    case (lock i b)
    with server_inv_part(2) [OF inv, of j] have at: "kl_pcs (fs_locks s) j \<in> {Outside, InLock i, Sending i, Holding i}"
      by simp
    from lock(2) at show ?thesis
    proof (cases rule: lock_move_cases)
      case (on a l)
      from on(3) show ?thesis
        unfolding on(4) by (intro server_inv_lock [OF inv on(1)] kl_step_frame [OF on(1,2)]) (auto simp: lock(1))
    qed (simp add: server_inv_goto [OF inv])
  next
    case (unlock i out)
    with server_inv_part(2) [OF inv, of j] have at: "kl_pcs (fs_locks s) j \<in> {Holding i, InUnlock i, Receiving i, Outside}"
      by simp
    from unlock(2) at show ?thesis
    proof (cases rule: unlock_move_cases)
      case (on a l)
      from on(3) show ?thesis
        unfolding on(4) by (intro server_inv_lock [OF inv on(1)] kl_step_frame [OF on(1,2)]) (auto simp: unlock(1))
    qed (simp add: server_inv_goto [OF inv])
  next
    case (cache c pc)
    note part = server_inv_part [OF inv]
    have "draft_ok c (fs_pcs s j')" if "j' \<noteq> j" for j'
    proof (rule draft_cong [OF _ part(3)])
      fix k assume "pc_lock (fs_pcs s j') = {Holding k}"
      with part(2) [of j'] have "kl_owners (kl_pcs (fs_locks s)) k = {j'}"
        using kl_inv_owner(1) [OF part(1), of j' k] by simp
      with that have "kl_pcs (fs_locks s) j \<noteq> Holding k"
        using kl_owners_mem [of j "kl_pcs (fs_locks s)" k] by auto
      from cache_move_tmp [OF cache(1) part(2) this] show "tmpDir c k = tmpDir (fs_cache s) k" .
    qed
    with cache part cache_move_lock [OF cache(1) part(2)] cache_move_draft [OF cache(1) part(3)] show ?thesis
      by (auto simp: server_inv_def fs_goto_def)
  qed
next
  case (Put j i b)
  with step server_inv_part(2) [OF inv, of j] show ?thesis
    by (auto intro!: server_inv_goto [OF inv] split: if_splits)
next
  case (Get j i joined)
  with step server_inv_part(2) [OF inv, of j] show ?thesis
    by (auto intro!: server_inv_goto [OF inv] split: if_splits option.splits)
next
  case (Erase j i)
  with step server_inv_part(2) [OF inv, of j] show ?thesis
    by (auto intro!: server_inv_goto [OF inv] split: if_splits)
qed

interpretation fs: invariant_machine server_step server_start server_inv
  by unfold_locales (fact server_start_inv server_step_inv)+

end
