(* ===== verification/File_Server_Spec.thy ===== *)
theory File_Server_Spec
  imports File_Server
begin

text \<open>
  What the file server promises while requests overlap: a table of whole files and the uploads
  under way. A file is stored at one moment, with the complete body of a PUT, under an identifier
  that has no file then; it is fetched at one moment; it disappears at one moment.
\<close>

record file_table =
  ft_files :: "ID \<rightharpoonup> bytes"
  ft_puts :: "nat \<rightharpoonup> ID \<times> body"

datatype file_event =
    PutBegun nat ID body
  | PutStored nat
  | PutFailed nat
  | Fetched nat ID bytes
  | Erased ID

inductive file_spec :: "file_table \<Rightarrow> file_event \<Rightarrow> file_table \<Rightarrow> bool" where
  begin_put: "ft_puts x j = None \<Longrightarrow> file_spec x (PutBegun j i b) (x\<lparr>ft_puts := (ft_puts x)(j \<mapsto> (i, b))\<rparr>)"
| store: "ft_puts x j = Some (i, b) \<Longrightarrow> snd b = None \<Longrightarrow> ft_files x i = None \<Longrightarrow>
    file_spec x (PutStored j) \<lparr>ft_files = (ft_files x)(i \<mapsto> body_bytes b), ft_puts = (ft_puts x)(j := None)\<rparr>"
| give_up: "ft_puts x j \<noteq> None \<Longrightarrow> file_spec x (PutFailed j) (x\<lparr>ft_puts := (ft_puts x)(j := None)\<rparr>)"
| fetch: "ft_files x i = Some data \<Longrightarrow> file_spec x (Fetched j i data) x"
| erase: "ft_files x i \<noteq> None \<Longrightarrow> file_spec x (Erased i) (x\<lparr>ft_files := (ft_files x)(i := None)\<rparr>)"

inductive_simps stored_iff: "file_spec x (PutStored j) y"
inductive_simps fetched_iff: "file_spec x (Fetched j i data) y"

section \<open>The events of the machine\<close>

definition erase_event :: "os_env \<Rightarrow> ID \<Rightarrow> Cache \<Rightarrow> file_event option" where
  "erase_event env i c =
     (if fc_content c i \<noteq> None \<and> fc_content (snd (remove_dir env i c)) i = None then Some (Erased i) else None)"

fun move_event :: "os_env \<Rightarrow> Cache \<Rightarrow> nat \<Rightarrow> handler_pc \<Rightarrow> file_event option" where
  "move_event env c j (PutOpen i b) =
     (case os_Create env fileName (case tmpDir c i of None \<Rightarrow> [] | Some d \<Rightarrow> d) of
        Inl e \<Rightarrow> Some (PutFailed j) | Inr d \<Rightarrow> None)"
| "move_event env c j (RemDelete i b) = erase_event env i c"
| "move_event env c j (PutRename i b closeErr) = (if fst (commit_dir env i c) = None then Some (PutStored j) else None)"
| "move_event env c j (Reply i left msg) = (case left of None \<Rightarrow> None | Some b \<Rightarrow> Some (PutFailed j))"
| "move_event env c j (GetOpen i) = (case open_file env i c of Inl e \<Rightarrow> None | Inr data \<Rightarrow> Some (Fetched j i data))"
| "move_event env c j (SigDelete i) = erase_event env i c"
| "move_event env c j pc = None"

fun server_event :: "server \<Rightarrow> server_act \<Rightarrow> file_event option" where
  "server_event s (Put j i b) = Some (PutBegun j i b)"
| "server_event s (Move j env) = move_event env (fs_cache s) j (fs_pcs s j)"
| "server_event s a = None"

definition file_abs :: "server \<Rightarrow> file_table" where
  "file_abs s = \<lparr>ft_files = fc_content (fs_cache s), ft_puts = (\<lambda>j. put_of (fs_pcs s j))\<rparr>"

section \<open>The refinement\<close>

lemma content_cong: "cacheDir c1 = cacheDir c \<Longrightarrow> fc_content c1 = fc_content c"
  by (simp add: fc_content_def fun_eq_iff)

lemma dir_frame:
  "writeLock env i remove c = (e, c1) \<Longrightarrow> cacheDir c1 = cacheDir c"
  "readLock i c = (e, c1) \<Longrightarrow> cacheDir c1 = cacheDir c"
  "cacheDir (readUnlock i c) = cacheDir c" "cacheDir (writeUnlock i c) = cacheDir c"
  by (auto simp: cache_parts Let_def split: move_splits os_error.splits)

lemma draft_dir_frame:
  "make_dir env i c = (e, c1) \<Longrightarrow> cacheDir c1 = cacheDir c"
  "fileWriter_Write env f p c = (e', c1) \<Longrightarrow> cacheDir c1 = cacheDir c"
  by (auto simp: make_dir_def fileWriter_Write_def split: move_splits)

lemma write_dir_frame: "cacheDir (snd (abort_dir env i c)) = cacheDir c" "cacheDir (write_files i d c) = cacheDir c"
  by (simp_all add: abort_dir_def write_files_def split: prod.split)

lemmas content_frame = dir_frame [THEN content_cong] draft_dir_frame [THEN content_cong] write_dir_frame [THEN content_cong]

lemma remove_content:
  assumes "remove_dir env i c = (e, c1)" "whole_or_gone i c c1"
  shows "case erase_event env i c of None \<Rightarrow> fc_content c1 = fc_content c
    | Some ev \<Rightarrow> ev = Erased i \<and> fc_content c i \<noteq> None \<and> fc_content c1 = (fc_content c)(i := None)"
proof -
  have "cacheDir c1 j = cacheDir c j" if "j \<noteq> i" for j
    using assms(1) that by (auto simp: remove_dir_def RemoveAll_def split: option.splits)
  then have "fc_content c1 j = fc_content c j" if "j \<noteq> i" for j
    using that by (simp add: fc_content_def)
  then have "fc_content c1 = (fc_content c)(i := fc_content c1 i)" by auto
  with assms show ?thesis
    by (auto simp: erase_event_def whole_or_gone_def)
qed

lemma commit_content:
  assumes "commit_dir env i c = (e, c1)"
  shows "e \<noteq> None \<Longrightarrow> fc_content c1 = fc_content c"
    "e = None \<Longrightarrow> fc_draft c i = Some data \<Longrightarrow> fc_content c i = None \<and> fc_content c1 = (fc_content c)(i \<mapsto> data)"
proof -
  show "fc_content c1 = fc_content c" if "e \<noteq> None"
    using assms that by (intro content_cong) (auto simp: commit_dir_def Rename_def split: move_splits)
  assume "e = None" "fc_draft c i = Some data"
  with assms obtain d where d: "cacheDir c1 = (cacheDir c)(i \<mapsto> d)" "file_content fileName d = Some data"
    "cacheDir c i = None \<or> cacheDir c i = Some []"
    by (auto simp: commit_dir_def Rename_def fc_draft_def bind_eq_Some_conv split: move_splits)
  then have "fc_content c1 j = ((fc_content c)(i \<mapsto> data)) j" for j
    by (simp add: fc_content_def)
  moreover from d(3) have "fc_content c i = None"
    by (auto simp: fc_content_def file_content_def)
  ultimately show "fc_content c i = None \<and> fc_content c1 = (fc_content c)(i \<mapsto> data)" by blast
qed

text \<open>One move on the cache: what it does to the files and to the goroutine's own upload.\<close>

lemma cache_move_event:
  assumes step: "cache_move env c pc = Some (c1, pc')" and draft: "draft_ok c pc"
    and mine: "puts j = put_of pc"
  shows "case move_event env c j pc of
      None \<Rightarrow> fc_content c1 = fc_content c \<and> put_of pc' = put_of pc
    | Some ev \<Rightarrow> file_spec \<lparr>ft_files = fc_content c, ft_puts = puts\<rparr> ev
        \<lparr>ft_files = fc_content c1, ft_puts = puts(j := put_of pc')\<rparr>"
proof (cases pc)
  case (PutOpen i b)
  with step mine give_up [of "\<lparr>ft_files = fc_content c, ft_puts = puts\<rparr>" j] show ?thesis
    by (auto simp: content_frame split: sum.splits)
next
  case (RemDelete i b)
  obtain e c2 where rm: "remove_dir env i c = (e, c2)" by fastforce
  with RemDelete step have "whole_or_gone i c c1" "c2 = c1" "put_of pc' = put_of pc"
    by (auto simp: Let_def content_frame split: move_splits)
  with RemDelete rm mine remove_content [of env i c e c1] show ?thesis
    using erase [of "\<lparr>ft_files = fc_content c, ft_puts = puts\<rparr>" i]
    by (auto simp: fun_upd_idem split: option.splits)
next
  case (SigDelete i)
  obtain e c2 where rm: "remove_dir env i c = (e, c2)" by fastforce
  with SigDelete step have "whole_or_gone i c c1" "c2 = c1" "put_of pc' = put_of pc"
    by (auto simp: Let_def content_frame split: move_splits)
  with SigDelete rm mine remove_content [of env i c e c1] show ?thesis
    using erase [of "\<lparr>ft_files = fc_content c, ft_puts = puts\<rparr>" i]
    by (auto simp: fun_upd_idem split: option.splits)
next
  case (PutRename i b closeErr)
  obtain e c2 where cm: "commit_dir env i c = (e, c2)" by fastforce
  with PutRename step have "c2 = c1" "put_of pc' = (if e = None then None else Some (i, b))"
    by (auto simp: Let_def content_frame split: move_splits)
  with PutRename cm draft mine commit_content [of env i c e c1]
    store [of "\<lparr>ft_files = fc_content c, ft_puts = puts\<rparr>" j i b] show ?thesis
    by (auto simp: body_bytes_def)
next
  case (Reply i left msg)
  with step mine give_up [of "\<lparr>ft_files = fc_content c, ft_puts = puts\<rparr>" j] show ?thesis
    by (auto split: option.splits)
next
  case (GetOpen i)
  with step mine fetch [of "\<lparr>ft_files = fc_content c, ft_puts = puts\<rparr>" i _ j] show ?thesis
    by (auto simp: open_file_def fun_upd_idem split: move_splits)
next
  case (PutStart i b)
  with step show ?thesis by (auto simp: Let_def content_frame split: move_splits)
qed (use step in \<open>auto simp: Let_def content_frame split: move_splits\<close>)

lemma server_simulated:
  assumes inv: "server_inv s" and step: "server_step s a = Some t"
  shows "case server_event s a of None \<Rightarrow> file_abs t = file_abs s | Some e \<Rightarrow> file_spec (file_abs s) e (file_abs t)"
proof (cases a)
  case (Put j i b)
  with step have t: "fs_pcs s j = Unused" "t = fs_goto j (PutLock i b) s" by (auto split: if_splits)
  have "file_abs t = (file_abs s)\<lparr>ft_puts := (ft_puts (file_abs s))(j \<mapsto> (i, b))\<rparr>"
    by (simp add: file_abs_def fs_goto_def t(2) fun_eq_iff)
  with Put t(1) show ?thesis
    using begin_put [of "file_abs s" j i b] by (simp add: file_abs_def)
next
  case (Move j env)
  from step [unfolded Move] show ?thesis
  proof (cases rule: move_cases)
    case (lock i b)
    with server_inv_part(2) [OF inv, of j] have at: "kl_pcs (fs_locks s) j \<in> {Outside, InLock i, Sending i, Holding i}"
      by simp
    from lock(2) at lock(1) show ?thesis
      unfolding Move by (cases rule: lock_move_cases) (auto simp: file_abs_def fs_goto_def fun_eq_iff)
  next
    case (unlock i out)
    with server_inv_part(2) [OF inv, of j] have at: "kl_pcs (fs_locks s) j \<in> {Holding i, InUnlock i, Receiving i, Outside}"
      by simp
    from unlock(2) at unlock(1) show ?thesis
      unfolding Move by (cases rule: unlock_move_cases) (auto simp: file_abs_def fs_goto_def fun_eq_iff)
  next
    case (cache c pc)
    have t: "file_abs t = \<lparr>ft_files = fc_content c, ft_puts = (\<lambda>j'. put_of (fs_pcs s j'))(j := put_of pc)\<rparr>"
      by (simp add: cache(2) file_abs_def fs_goto_def fun_eq_iff)
    have s: "file_abs s = \<lparr>ft_files = fc_content (fs_cache s), ft_puts = \<lambda>j'. put_of (fs_pcs s j')\<rparr>"
      by (simp add: file_abs_def)
    from cache_move_event [OF cache(1) server_inv_part(3) [OF inv], of "\<lambda>j'. put_of (fs_pcs s j')" j]
    show ?thesis
      unfolding Move by (auto simp: s t fun_upd_idem split: option.splits)
  qed
qed (use step in \<open>auto simp: file_abs_def fs_goto_def fun_eq_iff split: if_splits option.splits\<close>)

interpretation fsr: refinement server_step server_start server_inv file_spec server_event file_abs
  by unfold_locales (rule server_simulated)

end
