(* ===== verification/File_Server_Claims.thy ===== *)
theory File_Server_Claims
  imports File_Server_Spec
begin

text \<open>
  Properties of the file server under concurrent requests: it is a table of whole files, what it
  answers is true, no handler waits for ever, and uploads alone never fail.
\<close>

section \<open>Where a file comes from\<close>

text \<open>A version of a file: the one at the start, or the complete body of a PUT that has begun.\<close>

definition version :: "(ID \<rightharpoonup> bytes) \<Rightarrow> file_event list \<Rightarrow> ID \<Rightarrow> bytes \<Rightarrow> bool" where
  "version m es i data \<longleftrightarrow> m i = Some data \<or>
     (\<exists>j b. PutBegun j i b \<in> set es \<and> snd b = None \<and> data = body_bytes b)"

lemma version_snoc: "version m es i data \<Longrightarrow> version m (es @ [e]) i data"
  by (auto simp: version_def)

lemma fetched_version:
  assumes "trace file_spec \<lparr>ft_files = m, ft_puts = Map.empty\<rparr> es y" "Fetched j i data \<in> set es"
  shows "version m es i data"
proof -
  let ?H = "\<lambda>es x. (\<forall>i d. ft_files x i = Some d \<longrightarrow> version m es i d) \<and>
    (\<forall>j i b. ft_puts x j = Some (i, b) \<longrightarrow> PutBegun j i b \<in> set es) \<and>
    (\<forall>j i d. Fetched j i d \<in> set es \<longrightarrow> version m es i d)"
  have "?H (fs @ [e]) y" if "file_spec x e y" "?H fs x" for fs x e y
    using that(1)
  proof (cases rule: file_spec.cases)
    case (store j i b)
    with that(2) have "version m fs i (body_bytes b)" unfolding version_def by blast
    with store that(2) show ?thesis by (auto simp: version_snoc)
  qed (use that(2) in \<open>auto simp: version_snoc\<close>)
  from trace_history [OF assms(1), of ?H "[]"] this have "?H es y"
    by (auto simp: version_def)
  with assms(2) show ?thesis by blast
qed

lemma events_labels: "e \<in> set (events step ev s as) \<Longrightarrow> \<exists>a \<in> set as. \<exists>u. ev u a = Some e"
  by (induction as arbitrary: s) (auto split: option.splits)

lemma begun_label:
  assumes "PutBegun j i b \<in> set (events server_step server_event s as)"
  shows "Put j i b \<in> set as"
proof -
  from events_labels [OF assms] obtain a u where a: "a \<in> set as" "server_event u a = Some (PutBegun j i b)" by blast
  have "move_event env c j' pc \<noteq> Some (PutBegun j i b)" for env c j' pc
    by (cases pc) (auto simp: erase_event_def split: move_splits)
  with a(2) have "a = Put j i b" by (cases a) auto
  with a(1) show ?thesis by simp
qed

section \<open>What is answered\<close>

text \<open>The stages of a PUT whose file has been stored without an error, and of a GET that has read \<open>data\<close>.\<close>

fun acked :: "handler_pc \<Rightarrow> bool" where
  "acked (UnlockThen i pc) \<longleftrightarrow> acked pc"
| "acked (Leave i (Some w)) \<longleftrightarrow> final_status w = 200"
| "acked (PutEnded i (Some w)) \<longleftrightarrow> final_status w = 200"
| "acked pc \<longleftrightarrow> False"

text \<open>
  What has been sent of \<open>data\<close>: all of it, or, when the system call that reads the file failed in
  one of the moves \<open>E\<close>, what was read before.
\<close>

definition carries :: "os_env set \<Rightarrow> bytes \<Rightarrow> string option \<Rightarrow> ResponseWriter \<Rightarrow> bool" where
  "carries E data err w \<longleftrightarrow> err = None \<and> w = rw_copy data new_writer \<or>
     (\<exists>env \<in> E. \<exists>e. fault env SysRead = Some e \<and>
        err = Some (''couldn't copy the file to the request body: '' @ e) \<and>
        w = rw_copy (take (written env) data) new_writer)"

fun reads :: "os_env set \<Rightarrow> ID \<Rightarrow> bytes \<Rightarrow> handler_pc \<Rightarrow> bool" where
  "reads E i data (GetCopy k d) \<longleftrightarrow> k = i \<and> d = data"
| "reads E i data (GetUnlock k err w) \<longleftrightarrow> k = i \<and> carries E data err w"
| "reads E i data (GetEnded k w) \<longleftrightarrow> k = i \<and> (\<exists>err w1. carries E data err w1 \<and> w = get_answer err w1)"
| "reads E i data (UnlockThen k pc) \<longleftrightarrow> reads E i data pc"
| "reads E i data pc \<longleftrightarrow> False"

lemma moved:
  assumes "server_step s a = Some t" "\<not> P (fs_pcs s j)" "P (fs_pcs t j)"
    and "\<And>i b. \<not> P (PutLock i b)" "\<And>i. \<not> P (GetLock i)" "\<And>w. \<not> P (GetJoined w)" "\<And>i. \<not> P (SigRemove i)"
    and "\<And>i b. \<not> P (PutStart i b)" "\<And>i out. P (PutEnded i out) = P (Leave i out)"
  obtains env c pc where "a = Move j env" "cache_move env (fs_cache s) (fs_pcs s j) = Some (c, pc)" "P pc"
proof (cases a)
  case (Move j' env)
  from assms(1) [unfolded Move] show ?thesis
  proof (cases rule: move_cases)
    case (lock i b)
    with assms(2,3,8) show ?thesis
      by (cases b) (auto simp: lock_move_def fs_goto_def simp del: kl_step.simps split: kl_pc.splits if_splits)
  next
    case (unlock i out)
    with assms(2,3,9) show ?thesis
      by (auto simp: unlock_move_def fs_goto_def simp del: kl_step.simps split: kl_pc.splits if_splits)
  next
    case (cache c pc)
    with assms(2,3) have "j' = j" "P pc" by (auto simp: fs_goto_def split: if_splits)
    with cache(1) Move that show ?thesis by blast
  qed
next
  case (Put j' i b)
  with assms(1-4) show ?thesis by (cases b) (auto simp: fs_goto_def split: if_splits)
qed (use assms(1-7) in \<open>auto simp: fs_goto_def split: if_splits option.splits\<close>)

lemma acked_event:
  assumes "cache_move env c pc = Some (c1, pc')" "\<not> acked pc" "acked pc'"
  shows "move_event env c j pc = Some (PutStored j)"
proof (cases pc)
  case (RemDelete i b)
  with assms show ?thesis by (auto simp: Let_def split: move_splits)
qed (use assms in \<open>auto simp: Let_def split: move_splits\<close>)

text \<open>A GET that is being, or has been, answered 200.\<close>

fun reading :: "ID \<Rightarrow> handler_pc \<Rightarrow> bool" where
  "reading i (GetCopy k d) \<longleftrightarrow> k = i"
| "reading i (GetUnlock k err w) \<longleftrightarrow> k = i \<and> (err = None \<or> rw_status w \<noteq> None)"
| "reading i (GetEnded k w) \<longleftrightarrow> k = i \<and> final_status w = 200"
| "reading i (UnlockThen k pc) \<longleftrightarrow> reading i pc"
| "reading i pc \<longleftrightarrow> False"

lemma reading_event:
  assumes "cache_move env c pc = Some (c1, pc')" "reading i pc'" "env \<in> E"
  shows "(\<exists>data. reads E i data pc' \<and> move_event env c j pc = Some (Fetched j i data)) \<or>
    (reading i pc \<and> (\<forall>data. reads E i data pc \<longrightarrow> reads E i data pc'))"
proof (cases pc)
  case (GetCopy k d)
  with assms show ?thesis
    by (auto simp: carries_def split: option.splits)
next
  case (GetUnlock k err w)
  with assms have pc': "pc' = GetEnded i (get_answer err w)" "k = i" "final_status (get_answer err w) = 200"
    by auto
  then have "reading i pc"
    using GetUnlock by (cases err) (auto simp: get_answer_def final_status_def split: option.splits if_splits)
  moreover have "\<forall>data. reads E i data pc \<longrightarrow> reads E i data pc'"
    using GetUnlock pc'(1,2) by auto
  ultimately show ?thesis by blast
next
  case (RemDelete k b)
  with assms show ?thesis by (auto simp: Let_def split: move_splits)
qed (use assms in \<open>auto simp: Let_def get_answer_def final_status_def split: move_splits\<close>)

lemma stored_when_acked:
  assumes "server_start s" "run server_step s as = Some t" "acked (fs_pcs t j)"
  shows "PutStored j \<in> set (events server_step server_event s as)"
proof -
  have stored: "\<exists>e. server_event u a = Some e \<and> e = PutStored j"
    if "a \<in> UNIV" and step: "server_step u a = Some v" and "\<not> acked (fs_pcs u j)" "acked (fs_pcs v j)" for u a v
  proof -
    have ended: "acked (PutEnded i out) = acked (Leave i out)" for i out by (cases out) simp_all
    from step that(3,4) obtain env c pc where "a = Move j env" "cache_move env (fs_cache u) (fs_pcs u j) = Some (c, pc)" "acked pc"
      by (rule moved [where P = acked]) (simp_all add: ended)
    with acked_event that(3) show ?thesis by simp
  qed
  from events_cause [of UNIV server_step "\<lambda>u. acked (fs_pcs u j)" server_event "\<lambda>e. e = PutStored j", OF stored assms(2)]
    assms(1,3) show ?thesis
    by (auto simp: server_start_def)
qed

lemma fetched_when_read:
  assumes "server_start s" "run server_step s as = Some t" "reading i (fs_pcs t j)"
  shows "\<exists>data. reads {env. Move j env \<in> set as} i data (fs_pcs t j) \<and>
    Fetched j i data \<in> set (events server_step server_event s as)"
proof (rule ccontr)
  let ?F = "set (events server_step server_event s as)"
  let ?E = "{env. Move j env \<in> set as}"
  let ?P = "\<lambda>pc. reading i pc \<and> (\<forall>data. reads ?E i data pc \<longrightarrow> Fetched j i data \<notin> ?F)"
  assume "\<not> ?thesis"
  with assms(3) have "?P (fs_pcs t j)" by blast
  moreover have "\<exists>e. server_event u a = Some e \<and> e \<notin> ?F"
    if a: "a \<in> set as" and step: "server_step u a = Some v" and old: "\<not> ?P (fs_pcs u j)" and new: "?P (fs_pcs v j)" for u a v
  proof -
    from step old new obtain env c pc where mv: "a = Move j env"
      "cache_move env (fs_cache u) (fs_pcs u j) = Some (c, pc)" "?P pc"
      by (rule moved [where P = ?P]) simp_all
    with reading_event [OF mv(2), of i ?E j] a old show ?thesis
      by (simp del: cache_move.simps move_event.simps) blast
  qed
  ultimately have "\<exists>e \<in> ?F. e \<notin> ?F"
    using events_cause [OF _ assms(2), of "set as" "\<lambda>u. ?P (fs_pcs u j)" server_event "\<lambda>e. e \<notin> ?F"] assms(1)
    by (auto simp: server_start_def)
  then show False by blast
qed

lemma server_trace:
  assumes "server_start s" "run server_step s as = Some t"
  shows "trace file_spec \<lparr>ft_files = fc_content (fs_cache s), ft_puts = Map.empty\<rparr>
      (events server_step server_event s as) (file_abs t)"
proof -
  have "file_abs s = \<lparr>ft_files = fc_content (fs_cache s), ft_puts = Map.empty\<rparr>"
    using assms(1) by (simp add: file_abs_def server_start_def)
  with fsr.start_trace [OF assms] show ?thesis by simp
qed

section \<open>Properties\<close>

text \<open>
  C27. The file server refines a table of whole files, whatever the interleaving of PUTs, GETs and
  removals and whichever system calls fail: stores, fetches and removals form a trace of the
  specification, from the files of the cache at the start. A PUT that was answered with status 200
  has stored its file at one of these moments.
\<close>

theorem file_server_refines_files:
  assumes "server_start s" "run server_step s as = Some t"
  shows "trace file_spec \<lparr>ft_files = fc_content (fs_cache s), ft_puts = Map.empty\<rparr>
      (events server_step server_event s as) (file_abs t) \<and>
    (\<forall>j i w. fs_pcs t j = PutEnded i (Some w) \<longrightarrow> final_status w = 200 \<longrightarrow>
       PutStored j \<in> set (events server_step server_event s as))"
  using server_trace [OF assms] stored_when_acked [OF assms] by fastforce

text \<open>
  C28. No GET sees a half-written file. A GET that reads the file itself (one that joined another is
  answered without a body of its own) and is answered with status 200 has sent exactly a version of
  its file that was complete - the one at the start, or the whole body of a PUT of the same file;
  only when the system call that reads the file fails in one of its moves, with at least one byte
  read, it has sent what was read before, followed by the text of that error.
\<close>

theorem get_sends_a_version:
  assumes "server_start s" "run server_step s as = Some t"
    and "fs_pcs t j = GetEnded i w" "final_status w = 200"
  shows "\<exists>data. (fc_content (fs_cache s) i = Some data \<or>
      (\<exists>j' b. Put j' i b \<in> set as \<and> snd b = None \<and> data = body_bytes b)) \<and>
    (rw_body w = data \<or>
      (\<exists>env e. Move j env \<in> set as \<and> fault env SysRead = Some e \<and> take (written env) data \<noteq> [] \<and>
        rw_body w = take (written env) data @
          text_bytes (''couldn't copy the file to the request body: '' @ e @ [CHR 0x0A])))"
proof -
  let ?E = "{env. Move j env \<in> set as}"
  from fetched_when_read [OF assms(1,2), of i j] assms(3,4) obtain data where
    data: "reads ?E i data (fs_pcs t j)" "Fetched j i data \<in> set (events server_step server_event s as)" by auto
  from data(1) assms(3) obtain err w1 where w: "carries ?E data err w1" "w = get_answer err w1" by auto
  have "rw_body w = data \<or>
      (\<exists>env e. Move j env \<in> set as \<and> fault env SysRead = Some e \<and> take (written env) data \<noteq> [] \<and>
        rw_body w = take (written env) data @
          text_bytes (''couldn't copy the file to the request body: '' @ e @ [CHR 0x0A]))"
    using w assms(4) by (auto simp: carries_def get_answer_def final_status_def split: if_splits)
  moreover have "version (fc_content (fs_cache s)) (events server_step server_event s as) i data"
    using fetched_version [OF server_trace [OF assms(1,2)] data(2)] .
  then have "fc_content (fs_cache s) i = Some data \<or>
      (\<exists>j' b. Put j' i b \<in> set as \<and> snd b = None \<and> data = body_bytes b)"
    unfolding version_def using begun_label by blast
  ultimately show ?thesis by blast
qed

section \<open>A run\<close>

definition demo_server :: server where
  "demo_server = \<lparr>fs_cache = shared empty_sys, fs_locks = \<lparr>kl_shared = NewKeyLocker, kl_pcs = \<lambda>_. Outside\<rparr>,
     fs_pcs = (\<lambda>_. Unused)\<rparr>"

lemma demo_server_start: "server_start demo_server"
  by (simp add: server_start_def demo_server_def kl_start_def)

definition demo_put :: "server_act list" where
  "demo_put = Put 0 idA ([[7], [8]], None) # replicate 17 (Move 0 no_faults)"

definition demo_get :: "server_act list" where
  "demo_get = Get 1 idA None # replicate 5 (Move 1 no_faults)"

lemmas demo_moves = fs_goto_def lock_move_def unlock_move_def kl_goto_def key_lock_parts Let_def cache_parts
  os_Create_def open_write_def fileWriter_Write_def write_files_def write_data_def append_data_def open_file_def
  fc_content_def file_content_def whole_or_gone_def get_answer_def

lemma demo_put_run:
  "\<exists>t. run server_step demo_server demo_put = Some t \<and> fs_pcs t = (\<lambda>_. Unused)(0 := PutEnded idA (Some new_writer)) \<and>
     cacheDir (fs_cache t) = [idA \<mapsto> [(fileName, File 420 [7, 8])]] \<and> writeLocked (fs_cache t) = {} \<and>
     readLocked (fs_cache t) = Map.empty"
  by (simp add: demo_put_def numeral_eq_Suc demo_server_def empty_sys_def NewKeyLocker_def demo_moves fun_eq_iff)

lemma demo_get_run:
  "\<exists>t. run server_step demo_server (demo_put @ demo_get) = Some t \<and>
     fs_pcs t 0 = PutEnded idA (Some new_writer) \<and> fs_pcs t 1 = GetEnded idA (rw_copy [7, 8] new_writer)"
proof -
  obtain t where t: "run server_step demo_server demo_put = Some t" "fs_pcs t = (\<lambda>_. Unused)(0 := PutEnded idA (Some new_writer))"
    "cacheDir (fs_cache t) = [idA \<mapsto> [(fileName, File 420 [7, 8])]]" "writeLocked (fs_cache t) = {}"
    "readLocked (fs_cache t) = Map.empty"
    using demo_put_run by blast
  then have "\<exists>u. run server_step t demo_get = Some u \<and> fs_pcs u 0 = PutEnded idA (Some new_writer) \<and>
      fs_pcs u 1 = GetEnded idA (rw_copy [7, 8] new_writer)"
    by (simp add: demo_get_def numeral_eq_Suc demo_moves)
  with t(1) show ?thesis by (simp add: run_append)
qed

theorem file_server_refines_files_witness:
  "\<exists>y. trace file_spec \<lparr>ft_files = Map.empty, ft_puts = Map.empty\<rparr>
      (events server_step server_event demo_server (demo_put @ demo_get)) y \<and>
    PutStored 0 \<in> set (events server_step server_event demo_server (demo_put @ demo_get))"
proof -
  obtain t where t: "run server_step demo_server (demo_put @ demo_get) = Some t" "fs_pcs t 0 = PutEnded idA (Some new_writer)"
    using demo_get_run by blast
  moreover have "fc_content (fs_cache demo_server) = Map.empty"
    by (simp add: demo_server_def empty_sys_def fc_content_def fun_eq_iff)
  ultimately show ?thesis
    using file_server_refines_files [OF demo_server_start t(1)] by (auto simp: final_status_def)
qed

text \<open>A PUT, a whole GET of its file, and a GET whose read fails after one byte.\<close>

definition demo_failing_get :: "server_act list" where
  "demo_failing_get = Get 2 idA None #
     replicate 5 (Move 2 (no_faults\<lparr>fault := (\<lambda>c. if c = SysRead then Some ''EIO'' else None), written := 1\<rparr>))"

lemma demo_failing_get_run:
  "\<exists>t w. run server_step demo_server (demo_put @ demo_failing_get) = Some t \<and> fs_pcs t 2 = GetEnded idA w \<and>
     final_status w = 200 \<and> length (rw_body w) \<noteq> 2"
proof -
  obtain t where t: "run server_step demo_server demo_put = Some t" "fs_pcs t = (\<lambda>_. Unused)(0 := PutEnded idA (Some new_writer))"
    "cacheDir (fs_cache t) = [idA \<mapsto> [(fileName, File 420 [7, 8])]]" "writeLocked (fs_cache t) = {}"
    "readLocked (fs_cache t) = Map.empty"
    using demo_put_run by blast
  then have "\<exists>u w. run server_step t demo_failing_get = Some u \<and> fs_pcs u 2 = GetEnded idA w \<and>
      final_status w = 200 \<and> length (rw_body w) \<noteq> 2"
    by (simp add: demo_failing_get_def numeral_eq_Suc demo_moves)
  with t(1) show ?thesis by (simp add: run_append)
qed

theorem get_sends_a_version_witness:
  "(\<exists>t w. run server_step demo_server (demo_put @ demo_get) = Some t \<and> fs_pcs t 1 = GetEnded idA w \<and>
      rw_body w = [7, 8]) \<and>
   (\<exists>t w e. run server_step demo_server (demo_put @ demo_failing_get) = Some t \<and> fs_pcs t 2 = GetEnded idA w \<and>
      rw_body w = 7 # text_bytes (''couldn't copy the file to the request body: '' @ e @ [CHR 0x0A]))"
proof -
  have none: "fc_content (fs_cache demo_server) idA = None"
    by (simp add: demo_server_def empty_sys_def fc_content_def)
  obtain t where t: "run server_step demo_server (demo_put @ demo_get) = Some t"
    "fs_pcs t 1 = GetEnded idA (rw_copy [7, 8] new_writer)"
    using demo_get_run by blast
  obtain u w where u: "run server_step demo_server (demo_put @ demo_failing_get) = Some u" "fs_pcs u 2 = GetEnded idA w"
    "final_status w = 200" "length (rw_body w) \<noteq> 2"
    using demo_failing_get_run by blast
  let ?as = "demo_put @ demo_failing_get"
  from get_sends_a_version [OF demo_server_start u(1-3)] none obtain data where
    "\<exists>j' b. Put j' idA b \<in> set ?as \<and> snd b = None \<and> data = body_bytes b"
    and sent: "rw_body w = data \<or> (\<exists>env e. Move 2 env \<in> set ?as \<and> fault env SysRead = Some e \<and>
      take (written env) data \<noteq> [] \<and> rw_body w = take (written env) data @
        text_bytes (''couldn't copy the file to the request body: '' @ e @ [CHR 0x0A]))"
    by auto
  then have data: "data = [7, 8]"
    by (auto simp: demo_put_def demo_failing_get_def body_bytes_def)
  have one: "written env = 1" if "Move 2 env \<in> set ?as" for env
    using that by (auto simp: demo_put_def demo_failing_get_def)
  have "\<exists>e. rw_body w = 7 # text_bytes (''couldn't copy the file to the request body: '' @ e @ [CHR 0x0A])"
    using sent
  proof
    assume "rw_body w = data"
    with u(4) data show ?thesis by simp
  next
    assume "\<exists>env e. Move 2 env \<in> set ?as \<and> fault env SysRead = Some e \<and>
      take (written env) data \<noteq> [] \<and> rw_body w = take (written env) data @
        text_bytes (''couldn't copy the file to the request body: '' @ e @ [CHR 0x0A])"
    with one data show ?thesis by fastforce
  qed
  moreover have "rw_body (rw_copy [7, 8] new_writer) = [7, 8]" by simp
  ultimately show ?thesis using t u(1,2) by blast
qed

section \<open>Progress\<close>

definition can_move :: "server \<Rightarrow> nat \<Rightarrow> bool" where
  "can_move s j \<longleftrightarrow> server_step s (Move j no_faults) \<noteq> None"

text \<open>Before its end, and not in a method of \<open>h.lock\<close>.\<close>

fun on_cache :: "handler_pc \<Rightarrow> bool" where
  "on_cache Unused \<longleftrightarrow> False"
| "on_cache (PutLock i b) \<longleftrightarrow> False"
| "on_cache (Leave i out) \<longleftrightarrow> False"
| "on_cache (PutEnded i out) \<longleftrightarrow> False"
| "on_cache (GetEnded i w) \<longleftrightarrow> False"
| "on_cache (GetJoined w) \<longleftrightarrow> False"
| "on_cache SigEnded \<longleftrightarrow> False"
| "on_cache pc \<longleftrightarrow> True"

lemma remove_no_faults: "whole_or_gone i c (snd (remove_dir no_faults i c))"
  by (simp add: whole_or_gone_def remove_dir_def RemoveAll_def fc_content_def)

lemma on_cache_moves:
  assumes "on_cache (fs_pcs s j)"
  shows "can_move s j"
proof -
  have "cache_move no_faults (fs_cache s) (fs_pcs s j) \<noteq> None"
    using assms remove_no_faults [of _ "fs_cache s"]
    by (cases "fs_pcs s j") (auto simp: Let_def prod_eq_iff split: prod.split)
  with assms show ?thesis
    by (cases "fs_pcs s j") (auto simp: can_move_def simp del: cache_move.simps)
qed

lemma locker_pc:
  assumes "l \<in> pc_lock pc" "l \<noteq> Outside" "\<And>k. l \<noteq> Holding k"
  obtains (lock) i b where "pc = PutLock i b" | (unlock) i out where "pc = Leave i out"
  using assms by (cases pc) (auto split: if_splits)

lemma locker_moves:
  assumes "server_inv s" "kl_step (fs_locks s) (Advance j) = Some l"
  shows "can_move s j"
proof -
  have mid: "kl_pcs (fs_locks s) j \<noteq> Outside" "\<nexists>k. kl_pcs (fs_locks s) j = Holding k"
    using assms(2) by auto
  from server_inv_part(2) [OF assms(1)] mid(1) mid(2) [unfolded not_ex, rule_format] show ?thesis
  proof (cases rule: locker_pc)
    case (lock i b)
    with mid assms(2) show ?thesis
      by (cases "kl_pcs (fs_locks s) j") (simp_all add: can_move_def lock_move_def del: kl_step.simps)
  next
    case (unlock i out)
    with mid assms(2) show ?thesis
      by (cases "kl_pcs (fs_locks s) j") (simp_all add: can_move_def unlock_move_def del: kl_step.simps)
  qed
qed

text \<open>When the mutex of the locker is taken, the goroutine that has it can move.\<close>

lemma mutex_moves:
  assumes "server_inv s" "kl_mu (kl_shared (fs_locks s))"
  shows "\<exists>j. can_move s j"
proof -
  from assms obtain j where "kl_mu_users (kl_pcs (fs_locks s)) = {j}"
    using server_inv_part(1) [OF assms(1)] by (auto simp: kl_inv_def)
  then have "kl_in_mu (kl_pcs (fs_locks s) j)"
    by (simp add: kl_mu_users_mem [symmetric])
  then have "\<exists>l. kl_step (fs_locks s) (Advance j) = Some l"
    by (cases "kl_pcs (fs_locks s) j") (auto split: prod.split)
  with locker_moves [OF assms(1)] show ?thesis by blast
qed

lemma mutex_free:
  assumes "server_inv s" "\<not> kl_mu (kl_shared (fs_locks s)) \<Longrightarrow> can_move s j"
  shows "\<exists>j. can_move s j"
  using assms mutex_moves by blast

lemma holder_moves:
  assumes "server_inv s" "kl_pcs (fs_locks s) j = Holding k"
  shows "\<exists>j. can_move s j"
proof (cases "on_cache (fs_pcs s j)")
  case False
  with server_inv_part(2) [OF assms(1), of j] assms(2)
  consider (lock) i b where "fs_pcs s j = PutLock i b" | (leave) i out where "fs_pcs s j = Leave i out"
    by (cases "fs_pcs s j") auto
  then show ?thesis
  proof cases
    case lock
    with assms(2) have "can_move s j" by (simp add: can_move_def lock_move_def)
    then show ?thesis ..
  next
    case leave
    then show ?thesis
      by (intro mutex_free [OF assms(1), of j]) (simp add: can_move_def unlock_move_def assms(2) mu_Lock_def)
  qed
qed (use on_cache_moves in blast)

text \<open>
  C30. No request waits for ever: as long as a goroutine has not come to its end, it can move itself
  or is at \<open>h.lock\<close> of the handler, and then some goroutine can move - whatever the others are doing
  and whatever has failed before. Nobody waits for a lock of the cache.
\<close>

theorem server_progress:
  assumes "server_start s" "run server_step s as = Some t"
    and "fs_pcs t j \<noteq> Unused" "\<forall>i out w. fs_pcs t j \<notin> {PutEnded i out, GetEnded i w, GetJoined w, SigEnded}"
  shows "can_move t j \<or> ((\<exists>i b out. fs_pcs t j \<in> {PutLock i b, Leave i out}) \<and> (\<exists>j'. can_move t j'))"
proof (cases "on_cache (fs_pcs t j)")
  case False
  note inv = fs.reachable_inv [OF assms(1,2)]
  from False assms(3,4) have at: "\<exists>i b out. fs_pcs t j \<in> {PutLock i b, Leave i out}"
    by (cases "fs_pcs t j") auto
  have "\<exists>j'. can_move t j'"
  proof (cases "kl_pcs (fs_locks t) j")
    case Outside
    with at show ?thesis
      by (intro mutex_free [OF inv, of j]) (auto simp: can_move_def lock_move_def unlock_move_def mu_Lock_def)
  next
    case (Holding k)
    then show ?thesis by (rule holder_moves [OF inv])
  qed (use kl_inv_progress [OF server_inv_part(1) [OF inv], of j] locker_moves [OF inv] holder_moves [OF inv] in
      \<open>simp_all del: kl_step.simps, blast+\<close>)
  with at show ?thesis by blast
qed (simp add: on_cache_moves)

theorem server_progress_witness:
  "\<exists>t. run server_step demo_server (take 4 demo_put @ [Put 1 idA ([], None), Move 1 no_faults, Move 1 no_faults]) = Some t \<and>
    fs_pcs t 1 = PutLock idA ([], None) \<and> \<not> can_move t 1 \<and> (\<exists>j'. can_move t j')"
proof -
  let ?as = "take 4 demo_put @ [Put 1 idA ([], None), Move 1 no_faults, Move 1 no_faults]"
  have "\<exists>t. run server_step demo_server ?as = Some t \<and> fs_pcs t 1 = PutLock idA ([], None) \<and> \<not> can_move t 1"
    by (simp add: demo_put_def numeral_eq_Suc demo_server_def NewKeyLocker_def demo_moves can_move_def)
  then obtain t where t: "run server_step demo_server ?as = Some t" "fs_pcs t 1 = PutLock idA ([], None)" "\<not> can_move t 1"
    by blast
  with server_progress [OF demo_server_start t(1), of 1] show ?thesis by auto
qed

end
