(* ===== verification/File_Uploads.thy ===== *)
theory File_Uploads
  imports File_Server_Claims
begin

text \<open>
  Clients that upload to a file server at the same time, with nobody reading or removing files and
  no system call failing: every upload succeeds.
\<close>

section \<open>A PUT that goes well\<close>

fun up_ok :: "Cache \<Rightarrow> handler_pc \<Rightarrow> bool" where
  "up_ok c Unused \<longleftrightarrow> True"
| "up_ok c (PutLock i b) \<longleftrightarrow> snd b = None"
| "up_ok c (PutStart i b) \<longleftrightarrow> snd b = None"
| "up_ok c (RemLock i b) \<longleftrightarrow> snd b = None"
| "up_ok c (RemDelete i b) \<longleftrightarrow> snd b = None"
| "up_ok c (PutMkdir i b) \<longleftrightarrow> snd b = None \<and> cacheDir c i = None"
| "up_ok c (PutOpen i b) \<longleftrightarrow> snd b = None \<and> cacheDir c i = None"
| "up_ok c (PutCopy i b n) \<longleftrightarrow> snd b = None \<and> cacheDir c i = None"
| "up_ok c (PutClose i b) \<longleftrightarrow> snd b = None \<and> cacheDir c i = None"
| "up_ok c (PutRename i b e) \<longleftrightarrow> snd b = None \<and> cacheDir c i = None \<and> e = None"
| "up_ok c (UnlockThen i pc) \<longleftrightarrow>
     (case pc of PutStart k b \<Rightarrow> k = i \<and> snd b = None | Leave k out \<Rightarrow> k = i \<and> out = Some new_writer | _ \<Rightarrow> False)"
| "up_ok c (Leave i out) \<longleftrightarrow> out = Some new_writer"
| "up_ok c (PutEnded i out) \<longleftrightarrow> out = Some new_writer"
| "up_ok c pc \<longleftrightarrow> False"

text \<open>The identifier of a PUT, and the one it has write-locked.\<close>

fun up_id :: "handler_pc \<Rightarrow> ID option" where
  "up_id (PutLock i b) = Some i"
| "up_id (PutStart i b) = Some i"
| "up_id (RemLock i b) = Some i"
| "up_id (RemDelete i b) = Some i"
| "up_id (PutMkdir i b) = Some i"
| "up_id (PutOpen i b) = Some i"
| "up_id (PutCopy i b n) = Some i"
| "up_id (PutClose i b) = Some i"
| "up_id (PutRename i b e) = Some i"
| "up_id (UnlockThen i pc) = Some i"
| "up_id (Leave i out) = Some i"
| "up_id (PutEnded i out) = Some i"
| "up_id pc = None"

fun up_locked :: "handler_pc \<Rightarrow> bool" where
  "up_locked (RemDelete i b) \<longleftrightarrow> True"
| "up_locked (PutMkdir i b) \<longleftrightarrow> True"
| "up_locked (PutOpen i b) \<longleftrightarrow> True"
| "up_locked (PutCopy i b n) \<longleftrightarrow> True"
| "up_locked (PutClose i b) \<longleftrightarrow> True"
| "up_locked (PutRename i b e) \<longleftrightarrow> True"
| "up_locked (UnlockThen i pc) \<longleftrightarrow> True"
| "up_locked pc \<longleftrightarrow> False"

definition quiet :: "Cache \<Rightarrow> bool" where
  "quiet c \<longleftrightarrow> readLocked c = Map.empty \<and> (\<forall>i. tmp_writable c i)"

text \<open>What a move of such a PUT does.\<close>

definition up_moved :: "ID \<Rightarrow> Cache \<Rightarrow> handler_pc \<Rightarrow> Cache \<Rightarrow> handler_pc \<Rightarrow> bool" where
  "up_moved i c pc c1 pc' \<longleftrightarrow> up_ok c1 pc' \<and> quiet c1 \<and> up_id pc' = Some i \<and>
     writeLocked c1 - {i} = writeLocked c - {i} \<and> (i \<in> writeLocked c1 \<longrightarrow> up_locked pc') \<and>
     (\<forall>k. k \<noteq> i \<or> put_of pc = None \<longrightarrow> cacheDir c1 k = cacheDir c k) \<and>
     (put_of pc' = put_of pc \<or> put_of pc' = None \<and> (\<exists>b. put_of pc = Some (i, b) \<and> fc_content c1 i = Some (body_bytes b)))"

lemma writable_data:
  assumes "tmp_writable c k"
  shows "tmp_writable (write_data i p c) k"
proof -
  have "(\<exists>z. tmpDir c k = Some z \<and> d = append_data fileName p z) \<or> tmpDir c k = Some d"
    if "tmpDir (write_data i p c) k = Some d" for d
    using that by (auto simp: write_data_def split: if_splits)
  then show ?thesis
    using assms name_writable_append unfolding tmp_writable_def by metis
qed

lemma up_open:
  assumes "\<forall>k. tmp_writable c k"
  shows "\<exists>d. os_Create no_faults fileName (case tmpDir c i of None \<Rightarrow> [] | Some d \<Rightarrow> d) = Inr d \<and>
    file_content fileName d = Some []"
proof -
  have "name_writable fileName (case tmpDir c i of None \<Rightarrow> [] | Some d \<Rightarrow> d)"
    using assms by (auto simp: tmp_writable_def name_writable_def split: option.splits)
  then show ?thesis using os_Create_ok by metis
qed

lemma up_move:
  assumes step: "cache_move no_faults c pc = Some (c1, pc')" and ok: "up_ok c pc" "draft_ok c pc" "quiet c"
    and i: "up_id pc = Some i" and free: "i \<in> writeLocked c \<longrightarrow> up_locked pc"
  shows "up_moved i c pc c1 pc'"
proof (cases pc)
  case (PutStart k b)
  with step ok i free show ?thesis
    by (auto simp: up_moved_def quiet_def writeLock_def Stat_def Let_def tmp_writable_def split: if_splits)
next
  case (RemLock k b)
  with step ok i free show ?thesis
    by (auto simp: up_moved_def quiet_def writeLock_def Stat_def Let_def tmp_writable_def split: if_splits)
next
  case (RemDelete k b)
  with step ok i show ?thesis
    by (auto simp: up_moved_def quiet_def remove_dir_def RemoveAll_def tmp_writable_def split: if_splits)
next
  case (PutMkdir k b)
  with step ok i show ?thesis
    by (auto simp: up_moved_def quiet_def make_dir_def MkdirAll_def tmp_writable_def split: if_splits)
next
  case (PutOpen k b)
  with step ok i up_open [of c k] show ?thesis
    by (auto simp: up_moved_def quiet_def write_files_def tmp_writable_def split: if_splits)
next
  case (PutCopy k b n)
  with step ok i show ?thesis
    by (auto simp: up_moved_def quiet_def fileWriter_Write_def writable_data split: if_splits)
next
  case (PutRename k b e)
  moreover from this ok(2) obtain d where "tmpDir c k = Some d" "file_content fileName d = Some (concat (fst b))"
    by (auto simp: fc_draft_def bind_eq_Some_conv)
  ultimately show ?thesis
    using step ok i
    by (auto simp: up_moved_def quiet_def commit_dir_def Rename_def tmp_writable_def fc_content_def body_bytes_def
        split: if_splits)
next
  case (UnlockThen k pc1)
  with step ok i show ?thesis
    by (cases pc1) (auto simp: up_moved_def quiet_def writeUnlock_def tmp_writable_def)
qed (use step ok i free in \<open>auto simp: up_moved_def\<close>)

section \<open>All of them\<close>

lemma up_pc_lock:
  assumes "up_ok c pc" "up_id pc = Some i" "up_locked pc \<or> cache_move env c pc \<noteq> None"
  shows "pc_lock pc = {Holding i}"
  using assms by (cases pc) (auto split: handler_pc.splits)

lemma up_ok_frame:
  assumes "up_ok c pc" "\<And>i. up_id pc = Some i \<Longrightarrow> up_locked pc \<Longrightarrow> cacheDir c1 i = cacheDir c i"
  shows "up_ok c1 pc"
  using assms by (cases pc) auto

lemma put_id: "up_ok c pc \<Longrightarrow> put_of pc = Some (i, b) \<Longrightarrow> up_id pc = Some i"
  by (cases pc) (auto split: handler_pc.splits)

definition settled :: "server_act set \<Rightarrow> server \<Rightarrow> ID \<Rightarrow> bool" where
  "settled L s i \<longleftrightarrow> (\<exists>j b. Put j i b \<in> L \<and> fc_content (fs_cache s) i = Some (body_bytes b)) \<or>
     (\<exists>j b. put_of (fs_pcs s j) = Some (i, b))"

definition uploads_inv :: "server_act set \<Rightarrow> server \<Rightarrow> bool" where
  "uploads_inv L s \<longleftrightarrow> quiet (fs_cache s) \<and> (\<forall>j. up_ok (fs_cache s) (fs_pcs s j)) \<and>
     (\<forall>i \<in> writeLocked (fs_cache s). \<exists>j. up_id (fs_pcs s j) = Some i \<and> up_locked (fs_pcs s j)) \<and>
     (\<forall>j i b. put_of (fs_pcs s j) = Some (i, b) \<longrightarrow> Put j i b \<in> L) \<and>
     (\<forall>j i. up_id (fs_pcs s j) = Some i \<longrightarrow> put_of (fs_pcs s j) = None \<longrightarrow> settled L s i)"

lemma uploads_inv_parts:
  assumes "uploads_inv L s"
  shows "up_ok (fs_cache s) (fs_pcs s j)" "put_of (fs_pcs s j) = Some (i, b) \<Longrightarrow> Put j i b \<in> L"
    "up_id (fs_pcs s j) = Some i \<Longrightarrow> put_of (fs_pcs s j) = None \<Longrightarrow> settled L s i"
  using assms unfolding uploads_inv_def by blast+

text \<open>A move that leaves the cache alone and keeps the goroutine's request.\<close>

lemma uploads_inv_goto:
  assumes "uploads_inv L s" "up_ok (fs_cache s) pc" "up_locked pc = up_locked (fs_pcs s j)"
    and "up_id pc = up_id (fs_pcs s j)" "put_of pc = put_of (fs_pcs s j)"
  shows "uploads_inv L (fs_goto j pc s)"
proof -
  have "put_of (fs_pcs (fs_goto j pc s) j') = put_of (fs_pcs s j')" "fs_cache (fs_goto j pc s) = fs_cache s" for j'
    using assms(5) by (simp_all add: fs_goto_def)
  then have "settled L (fs_goto j pc s) i = settled L s i" for i
    by (simp add: settled_def)
  with assms show ?thesis
    unfolding uploads_inv_def fs_goto_def by simp metis
qed

lemma uploads_inv_lock: "uploads_inv L s \<Longrightarrow> uploads_inv L (s\<lparr>fs_locks := l\<rparr>)"
  by (simp add: uploads_inv_def settled_def)

lemma up_locked_mine:
  assumes inv: "server_inv s" and up: "uploads_inv L s" and step: "cache_move env (fs_cache s) (fs_pcs s j) = Some r"
    and "up_id (fs_pcs s j) = Some i" "up_id (fs_pcs s j') = Some i" "up_locked (fs_pcs s j')"
  shows "j' = j"
proof -
  have ok: "up_ok (fs_cache s) (fs_pcs s k)" for k using up by (simp add: uploads_inv_def)
  have "kl_pcs (fs_locks s) j = Holding i" "kl_pcs (fs_locks s) j' = Holding i"
    using server_inv_part(2) [OF inv, of j] server_inv_part(2) [OF inv, of j']
      up_pc_lock [OF ok assms(4), of env] up_pc_lock [OF ok assms(5), of env] step assms(6) by auto
  with kl_inv_owner(1) [OF server_inv_part(1) [OF inv], of _ i] show ?thesis
    by (metis kl_owns_simps(4) singleton_inject)
qed

lemma uploads_cache_move:
  assumes inv: "server_inv s" and up: "uploads_inv L s"
    and step: "cache_move no_faults (fs_cache s) (fs_pcs s j) = Some (c, pc)"
  shows "uploads_inv L (fs_goto j pc (s\<lparr>fs_cache := c\<rparr>))"
proof -
  let ?t = "fs_goto j pc (s\<lparr>fs_cache := c\<rparr>)"
  have pcs: "fs_pcs ?t = (fs_pcs s)(j := pc)" "fs_cache ?t = c" by (simp_all add: fs_goto_def)
  have ok: "up_ok (fs_cache s) (fs_pcs s k)" and quiet: "quiet (fs_cache s)" for k
    using up by (simp_all add: uploads_inv_def)
  from ok [of j] step obtain i where i: "up_id (fs_pcs s j) = Some i" by (cases "fs_pcs s j") auto
  note mine = up_locked_mine [OF inv up step i]
  have "up_locked (fs_pcs s j)" if "i \<in> writeLocked (fs_cache s)"
    using up that mine by (auto simp: uploads_inv_def)
  then have mv: "up_moved i (fs_cache s) (fs_pcs s j) c pc"
    using up_move [OF step ok server_inv_part(3) [OF inv] quiet i] by blast
  then have dirs: "k \<noteq> i \<or> put_of (fs_pcs s j) = None \<Longrightarrow> cacheDir c k = cacheDir (fs_cache s) k" for k
    by (auto simp: up_moved_def)
  have "up_ok c (fs_pcs ?t j')" for j'
  proof (cases "j' = j")
    case False
    with mine have "k \<noteq> i" if "up_id (fs_pcs s j') = Some k" "up_locked (fs_pcs s j')" for k
      using that by blast
    with False dirs show ?thesis
      by (simp add: pcs up_ok_frame [OF ok])
  qed (use mv in \<open>simp add: pcs up_moved_def\<close>)
  moreover have "\<exists>j'. up_id (fs_pcs ?t j') = Some k \<and> up_locked (fs_pcs ?t j')" if "k \<in> writeLocked c" for k
  proof (cases "k = i")
    case True
    with mv that show ?thesis by (auto simp: pcs up_moved_def)
  next
    case False
    with mv that have "k \<in> writeLocked (fs_cache s)" by (auto simp: up_moved_def)
    with up obtain j' where j': "up_id (fs_pcs s j') = Some k" "up_locked (fs_pcs s j')"
      by (auto simp: uploads_inv_def)
    with i False have "j' \<noteq> j" by auto
    with j' show ?thesis by (auto simp: pcs)
  qed
  moreover have label: "Put j' k b \<in> L" if "put_of (fs_pcs s j') = Some (k, b)" for j' k b
    using up that unfolding uploads_inv_def by blast
  then have "Put j' k b \<in> L" if "put_of (fs_pcs ?t j') = Some (k, b)" for j' k b
    using mv that by (cases "j' = j") (auto simp: up_moved_def pcs)
  moreover have "settled L ?t k" if j': "up_id (fs_pcs ?t j') = Some k" "put_of (fs_pcs ?t j') = None" for j' k
  proof -
    have mine: "k = i" if "put_of (fs_pcs s j) = Some (k, b)" for k b
      using put_id [OF ok that] i by simp
    show ?thesis
    proof (cases "k = i \<and> put_of (fs_pcs s j) \<noteq> None")
      case True
      show ?thesis
      proof (cases "put_of pc = put_of (fs_pcs s j)")
        case same: True
        with True mine obtain b where "put_of (fs_pcs ?t j) = Some (k, b)" by (auto simp: pcs)
        then show ?thesis unfolding settled_def by blast
      next
        case False
        with mv obtain b where "put_of (fs_pcs s j) = Some (i, b)" "fc_content c i = Some (body_bytes b)"
          unfolding up_moved_def by blast
        with label True show ?thesis unfolding settled_def pcs(2) by blast
      qed
    next
      case False
      then have "k \<noteq> i \<or> put_of (fs_pcs s j) = None" by blast
      from dirs [OF this] have kept: "fc_content c k = fc_content (fs_cache s) k"
        by (simp add: fc_content_def)
      have "put_of pc = None" if "put_of (fs_pcs s j) = None"
        using mv that by (auto simp: up_moved_def)
      with False j' mv i have "\<exists>j'. up_id (fs_pcs s j') = Some k \<and> put_of (fs_pcs s j') = None"
        by (auto simp: pcs up_moved_def split: if_splits)
      with up have "settled L s k" by (auto simp: uploads_inv_def)
      moreover have "put_of (fs_pcs ?t j') = Some (k, b)" if "put_of (fs_pcs s j') = Some (k, b)" for j' b
        using that False mine by (cases "j' = j") (auto simp: pcs)
      ultimately show ?thesis
        unfolding settled_def by (metis kept pcs(2))
    qed
  qed
  ultimately show ?thesis
    using mv unfolding uploads_inv_def pcs(2) by (auto simp: up_moved_def)
qed

definition upload_act :: "server_act set \<Rightarrow> server_act \<Rightarrow> bool" where
  "upload_act L a \<longleftrightarrow> (case a of
     Put j i b \<Rightarrow> snd b = None \<and> a \<in> L | Move j env \<Rightarrow> env = no_faults | _ \<Rightarrow> False)"

lemma uploads_step:
  assumes inv: "server_inv s" and step: "server_step s a = Some t" and act: "upload_act L a" and up: "uploads_inv L s"
  shows "uploads_inv L t"
proof (cases a)
  case (Put j i b)
  with step act have t: "fs_pcs s j = Unused" "t = fs_goto j (PutLock i b) s" "snd b = None" "Put j i b \<in> L"
    by (auto simp: upload_act_def split: if_splits)
  have pcs: "fs_pcs t = (fs_pcs s)(j := PutLock i b)" "fs_cache t = fs_cache s" by (simp_all add: t(2) fs_goto_def)
  have kept: "put_of (fs_pcs t j') = Some x" if "put_of (fs_pcs s j') = Some x" for j' x
    using that t(1) by (cases "j' = j") (auto simp: pcs)
  have "settled L t k" if "settled L s k" for k
    using that kept unfolding settled_def pcs(2) by blast
  moreover have "up_id (fs_pcs t j') = Some k \<and> up_locked (fs_pcs t j')"
    if "up_id (fs_pcs s j') = Some k" "up_locked (fs_pcs s j')" for j' k
    using that t(1) by (cases "j' = j") (auto simp: pcs)
  ultimately have "\<forall>i \<in> writeLocked (fs_cache s). \<exists>j. up_id (fs_pcs t j) = Some i \<and> up_locked (fs_pcs t j)"
    "\<forall>j i. up_id (fs_pcs t j) = Some i \<longrightarrow> put_of (fs_pcs t j) = None \<longrightarrow> settled L t i"
    using up unfolding uploads_inv_def pcs(1) by (blast, auto split: if_splits)
  moreover have "up_ok (fs_cache s) (fs_pcs t j')" "put_of (fs_pcs t j') = Some (k, b') \<longrightarrow> Put j' k b' \<in> L" for j' k b'
    using t(3,4) uploads_inv_parts [OF up] by (auto simp: pcs)
  ultimately show ?thesis
    using up unfolding uploads_inv_def pcs(2) by blast
next
  case (Move j env)
  with act have env: "env = no_faults" by (simp add: upload_act_def)
  from step [unfolded Move] show ?thesis
  proof (cases rule: move_cases)
    case (lock i b)
    with server_inv_part(2) [OF inv, of j] up have "kl_pcs (fs_locks s) j \<in> {Outside, InLock i, Sending i, Holding i}"
      "snd b = None" by (auto simp: uploads_inv_def dest: spec [of _ j])
    from lock(2) this show ?thesis
      by (cases rule: lock_move_cases) (auto simp: uploads_inv_lock [OF up] lock(1) intro!: uploads_inv_goto [OF up])
  next
    case (unlock i out)
    with server_inv_part(2) [OF inv, of j] up have "kl_pcs (fs_locks s) j \<in> {Holding i, InUnlock i, Receiving i, Outside}"
      "out = Some new_writer" by (auto simp: uploads_inv_def dest: spec [of _ j])
    from unlock(2) this show ?thesis
      by (cases rule: unlock_move_cases) (auto simp: uploads_inv_lock [OF up] unlock(1) intro!: uploads_inv_goto [OF up])
  next
    case (cache c pc)
    with uploads_cache_move [OF inv up] env show ?thesis by simp
  qed
qed (use act in \<open>auto simp: upload_act_def\<close>)

section \<open>Properties\<close>

text \<open>
  C29. Any number of clients upload at the same time, each a body that arrives complete, several of
  them perhaps the same file; nobody reads or removes files and no system call fails. Then every PUT
  that has ended was answered 200, and once no upload is under way, each uploaded file is in the cache
  with the body of one of its uploads.
\<close>

theorem concurrent_uploads_succeed:
  assumes "server_start s" "quiet (fs_cache s)" "writeLocked (fs_cache s) = {}" "run server_step s as = Some t"
    and "\<forall>a \<in> set as. case a of Put j i b \<Rightarrow> snd b = None | Move j env \<Rightarrow> env = no_faults | _ \<Rightarrow> False"
    and "fs_pcs t j = PutEnded i out"
  shows "out = Some new_writer \<and> ((\<forall>j. put_of (fs_pcs t j) = None) \<longrightarrow>
    (\<exists>j b. Put j i b \<in> set as \<and> fc_content (fs_cache t) i = Some (body_bytes b)))"
proof -
  have "\<forall>a \<in> set as. upload_act (set as) a"
    using assms(5) by (auto simp: upload_act_def split: server_act.splits)
  moreover have "uploads_inv (set as) s"
    using assms(1-3) by (simp add: uploads_inv_def server_start_def)
  ultimately have "uploads_inv (set as) t"
    using fs.run_stable [of "upload_act (set as)" "uploads_inv (set as)"] uploads_step
      server_start_inv [OF assms(1)] assms(4) by blast
  then have "up_ok (fs_cache t) (fs_pcs t j)" "settled (set as) t i"
    using uploads_inv_parts(1,3) [of "set as" t j] assms(6) by simp_all
  with assms(6) show ?thesis
    by (auto simp: settled_def)
qed

text \<open>Two clients upload the same file; the second waits for the lock while the first stores its body.\<close>

definition demo_uploads :: "server_act list" where
  "demo_uploads = take 4 demo_put @ Put 1 idA ([[9]], None) # replicate 2 (Move 1 no_faults) @
     replicate 14 (Move 0 no_faults) @ replicate 18 (Move 1 no_faults)"

lemma demo_uploads_run:
  "\<exists>t. run server_step demo_server demo_uploads = Some t \<and>
     fs_pcs t = (\<lambda>_. Unused)(0 := PutEnded idA (Some new_writer), 1 := PutEnded idA (Some new_writer))"
  by (simp add: demo_uploads_def demo_put_def numeral_eq_Suc demo_server_def empty_sys_def NewKeyLocker_def demo_moves
      fun_eq_iff)

theorem concurrent_uploads_succeed_witness:
  "\<exists>t. run server_step demo_server demo_uploads = Some t \<and> fs_pcs t 0 = PutEnded idA (Some new_writer) \<and>
    (\<exists>j b. Put j idA b \<in> set demo_uploads \<and> fc_content (fs_cache t) idA = Some (body_bytes b))"
proof -
  obtain t where t: "run server_step demo_server demo_uploads = Some t"
    "fs_pcs t = (\<lambda>_. Unused)(0 := PutEnded idA (Some new_writer), 1 := PutEnded idA (Some new_writer))"
    using demo_uploads_run by blast
  have idle: "quiet (fs_cache demo_server)" "writeLocked (fs_cache demo_server) = {}"
    by (simp_all add: demo_server_def empty_sys_def quiet_def tmp_writable_def)
  have acts: "\<forall>a \<in> set demo_uploads. case a of Put j i b \<Rightarrow> snd b = None | Move j env \<Rightarrow> env = no_faults | _ \<Rightarrow> False"
    by (auto simp: demo_uploads_def demo_put_def take_Cons')
  show ?thesis
    using concurrent_uploads_succeed [OF demo_server_start idle t(1) acts, of 0] t by simp
qed

text \<open>
  A PUT of a file that is being read fails: the handler cannot remove the old version, and answers 500
  instead of waiting for the reader.
\<close>

theorem put_while_reading_fails:
  assumes "fs_pcs s j = PutStart i b" "cacheDir (fs_cache s) i \<noteq> None" "readLocked (fs_cache s) i = Some n" "0 < n"
    and "i \<notin> writeLocked (fs_cache s)"
  shows "\<exists>t w. run server_step s [Move j no_faults, Move j no_faults, Move j no_faults] = Some t \<and> fs_pcs t j = Leave i (Some w) \<and>
    final_status w = 500 \<and> fs_cache t = fs_cache s"
proof -
  from assms(2) obtain d where "cacheDir (fs_cache s) i = Some d" by auto
  with assms show ?thesis by (simp add: writeLock_def Stat_def fs_goto_def Let_def)
qed

theorem put_while_reading_fails_witness:
  "\<exists>t w. run server_step (demo_server\<lparr>fs_pcs := (\<lambda>_. Unused)(0 := PutStart idA ([], None)),
      fs_cache := (shared empty_sys)\<lparr>cacheDir := [idA \<mapsto> []], readLocked := [idA \<mapsto> 1]\<rparr>\<rparr>)
      [Move 0 no_faults, Move 0 no_faults, Move 0 no_faults] = Some t \<and> fs_pcs t 0 = Leave idA (Some w) \<and> final_status w = 500"
  using put_while_reading_fails [of "demo_server\<lparr>fs_pcs := (\<lambda>_. Unused)(0 := PutStart idA ([], None)),
      fs_cache := (shared empty_sys)\<lparr>cacheDir := [idA \<mapsto> []], readLocked := [idA \<mapsto> 1]\<rparr>\<rparr>" 0 idA "([], None)" 1]
  by (auto simp: empty_sys_def)

end
