(* ===== verification/File_Solo.thy ===== *)
theory File_Solo
  imports File_Server_Claims
begin

text \<open>
  The two models of the file server's handlers agree: a goroutine of \<open>File_Server\<close> that moves alone
  does what the function of \<open>File_Handler\<close> says.
\<close>

section \<open>Moves of one goroutine\<close>

inductive solo :: "os_env \<Rightarrow> Cache \<Rightarrow> handler_pc \<Rightarrow> Cache \<Rightarrow> handler_pc \<Rightarrow> bool" for env where
  solo_refl: "solo env c pc c pc"
| solo_step: "cache_move env c pc = Some (c1, pc1) \<Longrightarrow> solo env c1 pc1 c2 pc2 \<Longrightarrow> solo env c pc c2 pc2"

lemma solo_trans: "solo env c pc c1 pc1 \<Longrightarrow> solo env c1 pc1 c2 pc2 \<Longrightarrow> solo env c pc c2 pc2"
  by (induction rule: solo.induct) (auto intro: solo_step)

lemma solo_snoc: "solo env c pc c1 pc1 \<Longrightarrow> cache_move env c1 pc1 = Some (c2, pc2) \<Longrightarrow> solo env c pc c2 pc2"
  by (rule solo_trans) (auto intro: solo_step solo_refl)

lemma solo_run:
  "solo env c pc c2 pc2 \<Longrightarrow> fs_cache s = c \<Longrightarrow> fs_pcs s j = pc \<Longrightarrow>
     \<exists>n. run server_step s (replicate n (Move j env)) = Some (fs_goto j pc2 (s\<lparr>fs_cache := c2\<rparr>))"
proof (induction arbitrary: s rule: solo.induct)
  case (solo_refl c pc)
  then have "run server_step s (replicate 0 (Move j env)) = Some (fs_goto j pc (s\<lparr>fs_cache := c\<rparr>))"
    by (simp add: fs_goto_def fun_upd_idem)
  then show ?case by blast
next
  case (solo_step c pc c1 pc1 c2 pc2)
  let ?u = "fs_goto j pc1 (s\<lparr>fs_cache := c1\<rparr>)"
  have first: "server_step s (Move j env) = Some ?u"
    using solo_step.hyps(1) solo_step.prems by (cases pc) (simp_all del: cache_move.simps, simp_all)
  have "fs_cache ?u = c1" "fs_pcs ?u j = pc1" by (simp_all add: fs_goto_def)
  from solo_step.IH [OF this] obtain n where
    "run server_step ?u (replicate n (Move j env)) = Some (fs_goto j pc2 (?u\<lparr>fs_cache := c2\<rparr>))" by blast
  moreover have "fs_goto j pc2 (?u\<lparr>fs_cache := c2\<rparr>) = fs_goto j pc2 (s\<lparr>fs_cache := c2\<rparr>)"
    by (simp add: fs_goto_def)
  ultimately have "run server_step s (replicate (Suc n) (Move j env)) = Some (fs_goto j pc2 (s\<lparr>fs_cache := c2\<rparr>))"
    using first by (simp del: server_step.simps)
  then show ?case by blast
qed

section \<open>The parts of a PUT\<close>

text \<open>What a failing \<open>RemoveAll\<close> leaves of a directory has its file as it was, or not at all.\<close>

definition partial_removal :: "os_env \<Rightarrow> bool" where
  "partial_removal env \<longleftrightarrow> (\<forall>d d'. leftover env d = Some d' \<longrightarrow>
     file_content fileName d' = None \<or> file_content fileName d' = file_content fileName d)"

lemma removal_whole_or_gone:
  assumes "partial_removal env" "remove_dir env i c = (e, c1)"
  shows "whole_or_gone i c c1"
proof (cases "cacheDir c i")
  case (Some d)
  from assms(1) have "leftover env d = Some d' \<Longrightarrow>
      file_content fileName d' = None \<or> file_content fileName d' = file_content fileName d" for d'
    unfolding partial_removal_def by blast
  with Some assms(2) show ?thesis
    by (cases "leftover env d") (auto simp: whole_or_gone_def remove_dir_def RemoveAll_def fc_content_def split: option.splits)
qed (use assms(2) in \<open>auto simp: whole_or_gone_def remove_dir_def RemoveAll_def fc_content_def split: option.splits\<close>)

definition put_err :: "ID \<Rightarrow> string \<Rightarrow> handler_pc" where
  "put_err i msg = Leave i (Some (http_Error msg 500 new_writer))"

lemma solo_reply: "solo env c (Reply i left msg) c (put_err i msg)"
  by (auto simp: put_err_def intro: solo_step solo_refl)

lemma solo_unlock: "solo env (writeUnlock i c) pc c2 pc2 \<Longrightarrow> solo env c (UnlockThen i pc) c2 pc2"
  by (rule solo_step) simp

lemma solo_open:
  assumes "FC_Write env i c = (r, c1)"
  shows "case r of
      Opened f \<Rightarrow> f = \<lparr>fw_id = i, fw_open = True\<rparr> \<and> solo env c (PutStart i b) c1 (PutCopy i b 0)
    | NilAbort \<Rightarrow> solo env c (PutStart i b) c1 (Leave i None)
    | OpenErr e \<Rightarrow> if e = ErrExists then solo env c (PutStart i b) c1 (RemLock i b)
        else solo env c (PutStart i b) c1 (put_err i (''failed to create a cache entry: '' @ fc_error_text e))"
proof -
  obtain e c0 where lock: "writeLock env i False c = (e, c0)" by fastforce
  show ?thesis
  proof (cases e)
    case (Some err)
    have "cache_move env c (PutStart i b) = Some (c0, if err = Art_ErrExists then RemLock i b
        else Reply i (Some b) (''failed to create a cache entry: '' @ fc_error_text (convertErr err)))"
      by (simp add: lock Some)
    then have "solo env c (PutStart i b) c0 (if err = Art_ErrExists then RemLock i b
        else put_err i (''failed to create a cache entry: '' @ fc_error_text (convertErr err)))"
      by (auto intro: solo_step solo_refl solo_reply)
    with assms lock Some show ?thesis
      by (auto simp: FC_Write_def Cache_Create_def split: if_splits)
  next
    case None
    obtain e' c2 where mk: "make_dir env i c0 = (e', c2)" by fastforce
    have first: "cache_move env c (PutStart i b) = Some (c0, PutMkdir i b)" by (simp add: lock None)
    show ?thesis
    proof (cases e')
      case (Some err)
      have "err \<noteq> Art_ErrExists" using mk Some by (auto simp: make_dir_def split: prod.splits)
      have "solo env c (PutStart i b) (writeUnlock i c2)
          (put_err i (''failed to create a cache entry: '' @ fc_error_text (convertErr err)))"
        by (rule solo_step [OF first], rule solo_step [of _ _ _ c2]) (auto simp: mk Some intro: solo_unlock solo_reply)
      with assms lock None mk Some \<open>err \<noteq> _\<close> show ?thesis
        by (auto simp: FC_Write_def Cache_Create_def)
    next
      case ok: None
      have "solo env c (PutStart i b) c2 (PutOpen i b)"
        by (rule solo_step [OF first], rule solo_step [of _ _ _ c2 "PutOpen i b"]) (auto simp: mk ok intro: solo_refl)
      from solo_snoc [OF this, of "fst (case os_Create env fileName (case tmpDir c2 i of None \<Rightarrow> [] | Some d \<Rightarrow> d) of
            Inl e \<Rightarrow> (c2, Leave i None) | Inr d \<Rightarrow> (write_files i d c2, PutCopy i b 0))"]
      show ?thesis
        using assms lock None mk ok
        by (auto simp: FC_Write_def Cache_Create_def split: sum.splits)
    qed
  qed
qed

lemma solo_remove:
  assumes "partial_removal env" "FC_Remove env i c = (e, c1)"
  shows "solo env c (RemLock i b) c1 (case e of
      None \<Rightarrow> PutStart i b
    | Some err \<Rightarrow> put_err i (''couldn't delete the file to update the data: '' @ fc_error_text err))"
proof -
  obtain r c0 where lock: "writeLock env i True c = (r, c0)" by fastforce
  show ?thesis
  proof (cases r)
    case (Some err)
    have "cache_move env c (RemLock i b) = Some (c0, Reply i (Some b)
        (''couldn't delete the file to update the data: '' @ fc_error_text (convertErr err)))"
      by (simp add: lock Some)
    from solo_step [OF this solo_reply] have "solo env c (RemLock i b) c0
        (put_err i (''couldn't delete the file to update the data: '' @ fc_error_text (convertErr err)))" .
    moreover have "e = Some (convertErr err)" "c1 = c0"
      using assms(2) lock Some by (auto simp: FC_Remove_def Cache_Remove_def)
    ultimately show ?thesis by (simp del: append_Cons)
  next
    case None
    obtain r' c2 where rm: "remove_dir env i c0 = (r', c2)" by fastforce
    let ?next = "case r' of None \<Rightarrow> PutStart i b | Some err \<Rightarrow> Reply i (Some b)
        (''couldn't delete the file to update the data: '' @ fc_error_text (convertErr err))"
    have moves: "cache_move env c (RemLock i b) = Some (c0, RemDelete i b)"
      "cache_move env c0 (RemDelete i b) = Some (c2, UnlockThen i ?next)"
      using removal_whole_or_gone [OF assms(1) rm] by (simp_all add: lock None rm)
    have "solo env c (RemLock i b) (writeUnlock i c2) ?next"
      by (rule solo_step [OF moves(1)], rule solo_step [OF moves(2)]) (intro solo_unlock solo_refl)
    moreover have "solo env (writeUnlock i c2) (Reply i (Some b) msg) (writeUnlock i c2) (put_err i msg)" for msg
      by (rule solo_reply)
    ultimately have "solo env c (RemLock i b) (writeUnlock i c2) (case map_option convertErr r' of
        None \<Rightarrow> PutStart i b
      | Some err \<Rightarrow> put_err i (''couldn't delete the file to update the data: '' @ fc_error_text err))"
      by (cases r') (auto intro: solo_trans simp del: append_Cons)
    moreover have "e = map_option convertErr r'" "c1 = writeUnlock i c2"
      using assms(2) lock None rm by (auto simp: FC_Remove_def Cache_Remove_def)
    ultimately show ?thesis by (simp del: append_Cons)
  qed
qed

lemma solo_loop:
  assumes "partial_removal env" "put_loop n env i c = Some (st, c1)"
  shows "case st of
      PutWriter f \<Rightarrow> f = \<lparr>fw_id = i, fw_open = True\<rparr> \<and> solo env c (PutStart i b) c1 (PutCopy i b 0)
    | PutReply e \<Rightarrow> solo env c (PutStart i b) c1 (put_err i e)
    | PutPanic \<Rightarrow> solo env c (PutStart i b) c1 (Leave i None)"
  using assms(2)
proof (induction n arbitrary: c)
  case (Suc n)
  obtain r c0 where w: "FC_Write env i c = (r, c0)" by fastforce
  note opened = solo_open [OF w, of b]
  show ?case
  proof (cases "r = OpenErr ErrExists")
    case True
    obtain e c2 where rm: "FC_Remove env i c0 = (e, c2)" by fastforce
    from opened True solo_remove [OF assms(1) rm, of b] have
      "solo env c (PutStart i b) c2 (case e of None \<Rightarrow> PutStart i b
        | Some err \<Rightarrow> put_err i (''couldn't delete the file to update the data: '' @ fc_error_text err))"
      by (auto intro: solo_trans)
    with Suc w True rm show ?thesis
      by (cases e) (auto split: put_start.splits intro: solo_trans)
  next
    case False
    with Suc.prems w opened show ?thesis
      by (cases r) (auto split: if_splits)
  qed
qed simp

lemma solo_copy:
  assumes "copy_chunks env \<lparr>fw_id = i, fw_open = True\<rparr> (drop n (fst b)) c = (e, c1)" "n \<le> length (fst b)"
  shows "solo env c (PutCopy i b n) c1 (case e of
      None \<Rightarrow> PutCopy i b (length (fst b))
    | Some err \<Rightarrow> PutAbort i (Some b) (''couldn't copy data to cache: '' @ err))"
  using assms
proof (induction "length (fst b) - n" arbitrary: n c)
  case 0
  then show ?case by (auto intro: solo_refl)
next
  case (Suc k)
  then have less: "n < length (fst b)" by simp
  then have split: "drop n (fst b) = fst b ! n # drop (Suc n) (fst b)" by (simp add: Cons_nth_drop_Suc)
  obtain e' c2 where w: "fileWriter_Write env \<lparr>fw_id = i, fw_open = True\<rparr> (fst b ! n) c = (e', c2)" by fastforce
  have move: "cache_move env c (PutCopy i b n) = Some (c2, case e' of None \<Rightarrow> PutCopy i b (Suc n)
      | Some err \<Rightarrow> PutAbort i (Some b) (''couldn't copy data to cache: '' @ err))"
    using less by (simp add: w)
  show ?case
  proof (cases e')
    case None
    have "solo env c2 (PutCopy i b (Suc n)) c1 (case e of None \<Rightarrow> PutCopy i b (length (fst b))
        | Some err \<Rightarrow> PutAbort i (Some b) (''couldn't copy data to cache: '' @ err))"
      using Suc.hyps(2) Suc.prems(1) less by (intro Suc.hyps(1)) (auto simp: split w None)
    with move None show ?thesis by (simp add: solo_step del: cache_move.simps)
  next
    case (Some err)
    then have "e = Some err" "c1 = c2" using Suc.prems(1) by (auto simp: split w)
    with solo_step [OF move solo_refl] Some show ?thesis by (simp del: append_Cons)
  qed
qed

lemma solo_abort:
  "solo env c (PutAbort i left msg) (writeUnlock i (snd (abort_dir env i c))) (put_err i msg)"
  by (rule solo_step [of _ _ _ _ "UnlockThen i (Reply i left msg)"]) (simp, intro solo_unlock solo_reply)

lemma abort_cache: "fw_id f = i \<Longrightarrow> snd (snd (fileWriter_abort env f c)) = writeUnlock i (snd (abort_dir env i c))"
  by (auto simp: fileWriter_abort_def Cache_abort_def Let_def split: prod.splits option.splits)

lemma solo_close:
  assumes "fileWriter_Close env \<lparr>fw_id = i, fw_open = True\<rparr> c = (e, f, c1)"
  shows "fw_id f = i" "case e of
      None \<Rightarrow> solo env c (PutClose i b) c1 (Leave i (Some new_writer))
    | Some err \<Rightarrow> \<exists>left. solo env c (PutClose i b) c1 (PutAbort i left (''close writer: '' @ fc_error_text err))"
proof -
  obtain r c2 where cm: "commit_dir env i c = (r, c2)" by fastforce
  show "fw_id f = i" using assms by (auto simp: fileWriter_Close_def file_Close_def split: prod.splits option.splits)
  let ?left = "if r = None then None else Some b"
  let ?next = "case fault env SysClose of
      Some e \<Rightarrow> PutAbort i ?left (''close writer: '' @ e)
    | None \<Rightarrow> (case r of
        Some err \<Rightarrow> PutAbort i ?left (''close writer: '' @ fc_error_text (FC_Err err))
      | None \<Rightarrow> Leave i (Some new_writer))"
  have closed: "cache_move env c (PutClose i b) = Some (c, PutRename i b (fault env SysClose))" by simp
  have renamed: "cache_move env c (PutRename i b (fault env SysClose)) = Some (c2, UnlockThen i ?next)"
    by (cases "fault env SysClose"; cases r) (simp_all add: cm Let_def)
  have path: "solo env c (PutClose i b) (writeUnlock i c2) ?next"
    by (rule solo_step [OF closed solo_step [OF renamed solo_unlock [OF solo_refl]]])
  have c1: "c1 = writeUnlock i c2" "e = (case fault env SysClose of
      Some e \<Rightarrow> Some (FC_Err (Art_OsErr e)) | None \<Rightarrow> map_option FC_Err r)"
    using assms cm by (auto simp: fileWriter_Close_def file_Close_def Cache_commit_def split: option.splits)
  show "case e of
      None \<Rightarrow> solo env c (PutClose i b) c1 (Leave i (Some new_writer))
    | Some err \<Rightarrow> \<exists>left. solo env c (PutClose i b) c1 (PutAbort i left (''close writer: '' @ fc_error_text err))"
    using path unfolding c1 by (cases "fault env SysClose"; cases r) (auto simp del: append_Cons)
qed

text \<open>A PUT from its open writer to the deferred \<open>Unlock\<close>.\<close>

lemma solo_rest:
  assumes "put_rest env \<lparr>fw_id = i, fw_open = True\<rparr> b new_writer c = (w, c1)"
  shows "solo env c (PutCopy i b 0) c1 (Leave i (Some w))"
proof -
  let ?f = "\<lparr>fw_id = i, fw_open = True\<rparr>"
  obtain e c2 where cc: "copy_chunks env ?f (fst b) c = (e, c2)" by fastforce
  from solo_copy [of env i 0 b c e c2] cc have copied: "solo env c (PutCopy i b 0) c2 (case e of
      None \<Rightarrow> PutCopy i b (length (fst b))
    | Some err \<Rightarrow> PutAbort i (Some b) (''couldn't copy data to cache: '' @ err))" by simp
  show ?thesis
  proof (cases "copy_body env ?f b c")
    case (Pair r c3)
    have end_move: "cache_move env c2 (PutCopy i b (length (fst b))) = Some (c2, case snd b of
        None \<Rightarrow> PutClose i b | Some err \<Rightarrow> PutAbort i (Some b) (''couldn't copy data to cache: '' @ err))" by simp
    have "c3 = c2" "r = (case e of Some err \<Rightarrow> Some err | None \<Rightarrow> snd b)"
      using Pair cc by (auto simp: copy_body_def split: option.splits)
    with copied solo_snoc [OF _ end_move, of c "PutCopy i b 0"]
    have body: "solo env c (PutCopy i b 0) c3 (case r of
        None \<Rightarrow> PutClose i b | Some err \<Rightarrow> PutAbort i (Some b) (''couldn't copy data to cache: '' @ err))"
      by (cases e) (auto simp del: append_Cons cache_move.simps)
    show ?thesis
    proof (cases r)
      case (Some err)
      with body have "solo env c (PutCopy i b 0) c3 (PutAbort i (Some b) (''couldn't copy data to cache: '' @ err))"
        by (simp del: append_Cons)
      from solo_trans [OF this solo_abort] assms Pair Some show ?thesis
        by (simp add: put_rest_def put_err_def abort_cache del: append_Cons)
    next
      case None
      obtain e' f1 c4 where cl: "fileWriter_Close env ?f c3 = (e', f1, c4)" by (metis prod_cases3)
      from None body have open1: "solo env c (PutCopy i b 0) c3 (PutClose i b)" by simp
      show ?thesis
      proof (cases e')
        case ok: None
        with solo_trans [OF open1] solo_close(2) [OF cl, of b] assms Pair None cl show ?thesis
          by (simp add: put_rest_def)
      next
        case (Some err)
        with solo_close(2) [OF cl, of b] obtain left where
          "solo env c3 (PutClose i b) c4 (PutAbort i left (''close writer: '' @ fc_error_text err))"
          by (auto simp del: append_Cons)
        from solo_trans [OF open1 solo_trans [OF this solo_abort]] assms Pair None cl Some solo_close(1) [OF cl]
        show ?thesis
          by (simp add: put_rest_def put_err_def abort_cache del: append_Cons)
      qed
    qed
  qed
qed

section \<open>Taking and giving back the lock\<close>

lemma solo_lock:
  assumes "fs_pcs s j = PutLock i b" "kl_pcs (fs_locks s) j = Outside" "KeyLocker_Lock (kl_shared (fs_locks s)) i = Returns l"
  shows "\<exists>t. run server_step s (replicate 4 (Move j env)) = Some t \<and> fs_pcs t j = PutStart i b \<and>
    fs_cache t = fs_cache s \<and> kl_shared (fs_locks t) = l \<and> kl_pcs (fs_locks t) j = Holding i"
  using assms
  by (auto simp: numeral_eq_Suc lock_move_def kl_goto_def fs_goto_def KeyLocker_Lock_def split: option.splits)

lemma solo_leave:
  assumes "fs_pcs s j = Leave i out" "kl_pcs (fs_locks s) j = Holding i" "KeyLocker_Unlock (kl_shared (fs_locks s)) i = Returns l"
    and "kl_lock (kl_shared (fs_locks s)) i \<noteq> None"
  shows "\<exists>t. run server_step s (replicate 4 (Move j env)) = Some t \<and> fs_pcs t j = PutEnded i out \<and>
    fs_cache t = fs_cache s \<and> kl_shared (fs_locks t) = l"
  using assms
  by (auto simp: numeral_eq_Suc unlock_move_def kl_goto_def fs_goto_def KeyLocker_Unlock_def mu_Lock_def Unlock_section_def
      split: option.splits if_splits prod.splits)

section \<open>A GET\<close>

lemma solo_get:
  assumes "get_run env i new_writer c = (err, w, c1)"
  shows "solo env c (GetLock i) c1 (GetEnded i (get_answer err w))"
proof -
  obtain e c0 where lock: "readLock i c = (e, c0)" by fastforce
  have first: "cache_move env c (GetLock i) = Some (c0, case e of None \<Rightarrow> GetStat i
      | Some err \<Rightarrow> GetEnded i (get_answer (Some (''failed to get file from cache: '' @ fc_error_text (convertErr err))) new_writer))"
    by (simp add: lock)
  show ?thesis
  proof (cases "e = None \<and> stat_entry env i c0 = None")
    case True
    then have got: "FC_Get env i c = (None, c0)" by (simp add: FC_Get_def Cache_Get_def lock)
    have at_open: "solo env c (GetLock i) c0 (GetOpen i)"
    proof -
      have "cache_move env c (GetLock i) = Some (c0, GetStat i)" "cache_move env c0 (GetStat i) = Some (c0, GetOpen i)"
        using True by (simp_all add: lock)
      from solo_step [OF this(1) solo_step [OF this(2) solo_refl]] show ?thesis .
    qed
    show ?thesis
    proof (cases "open_file env i c0")
      case (Inl msg)
      have "cache_move env c0 (GetOpen i) = Some (c0, GetUnlock i (Some (''couldn't open the file: '' @ msg)) new_writer)"
        by (simp add: Inl)
      from solo_trans [OF at_open solo_step [OF this solo_step [OF cache_move.simps(16) solo_refl]]]
      have "solo env c (GetLock i) (readUnlock i c0)
        (GetEnded i (get_answer (Some (''couldn't open the file: '' @ msg)) new_writer))" .
      moreover have "err = Some (''couldn't open the file: '' @ msg)" "w = new_writer" "c1 = readUnlock i c0"
        using Inl assms got by (auto simp: get_run_def open_file_def split: move_splits)
      ultimately show ?thesis by (simp del: append_Cons)
    next
      case (Inr data)
      have run: "err = (case fault env SysRead of None \<Rightarrow> None
          | Some e \<Rightarrow> Some (''couldn't copy the file to the request body: '' @ e))" "c1 = readUnlock i c0"
        "w = (case fault env SysRead of None \<Rightarrow> rw_copy data new_writer
          | Some e \<Rightarrow> rw_copy (take (written env) data) new_writer)"
        using Inr assms got by (auto simp: get_run_def open_file_def split: move_splits)
      have "cache_move env c0 (GetOpen i) = Some (c0, GetCopy i data)" by (simp add: Inr)
      moreover have "cache_move env c0 (GetCopy i data) = Some (c0, GetUnlock i err w)"
        by (cases "fault env SysRead") (simp_all add: run)
      ultimately show ?thesis
        using solo_trans [OF at_open solo_step [OF _ solo_step [OF _ solo_step [OF cache_move.simps(16) solo_refl]]]]
        unfolding run(2) by blast
    qed
  next
    case False
    then obtain err' where at: "(e = Some err' \<and> c1 = c0) \<or> (e = None \<and> stat_entry env i c0 = Some err' \<and> c1 = readUnlock i c0)"
      "err = Some (''failed to get file from cache: '' @ fc_error_text (convertErr err'))" "w = new_writer"
      using assms by (auto simp: get_run_def FC_Get_def Cache_Get_def lock split: option.splits)
    from at(1) show ?thesis
    proof (elim disjE conjE)
      assume "e = Some err'" "c1 = c0"
      with first at(2,3) show ?thesis
        using solo_step [OF _ solo_refl, of env c "GetLock i"] by (simp del: append_Cons cache_move.simps)
    next
      assume *: "e = None" "stat_entry env i c0 = Some err'" "c1 = readUnlock i c0"
      then have "cache_move env c (GetLock i) = Some (c0, GetStat i)" "cache_move env c0 (GetStat i) = Some (c1, GetEnded i (get_answer err w))"
        by (simp_all add: lock at(2,3))
      from solo_step [OF this(1) solo_step [OF this(2) solo_refl]] show ?thesis .
    qed
  qed
qed

text \<open>A goroutine that serves a GET alone does what \<open>handleGet\<close> computes.\<close>

lemma solo_get_is_handleGet:
  assumes "fs_pcs s j = Unused"
    and "handleGet env None i new_writer \<lparr>h_cache = fs_cache s, h_lock = kl_shared (fs_locks s)\<rparr> = Served w h"
  shows "\<exists>n t. run server_step s (Get j i None # replicate n (Move j env)) = Some t \<and> fs_pcs t j = GetEnded i w \<and>
    \<lparr>h_cache = fs_cache t, h_lock = kl_shared (fs_locks t)\<rparr> = h"
proof -
  obtain err w1 c1 where get: "get_run env i new_writer (fs_cache s) = (err, w1, c1)" by (metis prod_cases3)
  let ?s = "fs_goto j (GetLock i) s"
  have "fs_cache ?s = fs_cache s" "fs_pcs ?s j = GetLock i" by (simp_all add: fs_goto_def)
  from solo_run [OF solo_get [OF get] this] obtain n where
    "run server_step ?s (replicate n (Move j env)) = Some (fs_goto j (GetEnded i (get_answer err w1)) (?s\<lparr>fs_cache := c1\<rparr>))"
    by blast
  with assms get show ?thesis
    by (intro exI [of _ n] exI) (auto simp: handleGet_def get_answer_def fs_goto_def)
qed

section \<open>Properties\<close>

text \<open>
  The two models of a PUT agree: a goroutine that serves one alone, every system call of a kind
  failing as the function's environment says, comes to its end with the response, the cache and the
  locks that \<open>handlePut\<close> computes; a panic of the function is a goroutine that ends without a response.
\<close>

theorem solo_put_is_handlePut:
  assumes "fs_pcs s j = Unused" "kl_pcs (fs_locks s) j = Outside" "partial_removal env"
    and "handlePut env i b new_writer \<lparr>h_cache = fs_cache s, h_lock = kl_shared (fs_locks s)\<rparr> = Returns out"
  shows "\<exists>n t. run server_step s (Put j i b # replicate n (Move j env)) = Some t \<and>
    fs_pcs t j = PutEnded i (case out of Served w h \<Rightarrow> Some w | Dropped h \<Rightarrow> None) \<and>
    \<lparr>h_cache = fs_cache t, h_lock = kl_shared (fs_locks t)\<rparr> = (case out of Served w h \<Rightarrow> h | Dropped h \<Rightarrow> h)"
proof -
  let ?s = "fs_goto j (PutLock i b) s"
  from assms(4) obtain l1 st c1 l2 where parts: "KeyLocker_Lock (kl_shared (fs_locks s)) i = Returns l1"
    "put_loop 2 env i (fs_cache s) = Some (st, c1)" "KeyLocker_Unlock l1 i = Returns l2" and
    out: "out = (case st of
        PutWriter f \<Rightarrow> (let (w2, c2) = put_rest env f b new_writer c1 in Served w2 \<lparr>h_cache = c2, h_lock = l2\<rparr>)
      | PutReply e \<Rightarrow> Served (http_Error e 500 new_writer) \<lparr>h_cache = c1, h_lock = l2\<rparr>
      | PutPanic \<Rightarrow> Dropped \<lparr>h_cache = c1, h_lock = l2\<rparr>)"
    by (auto simp: handlePut_def go_simps split: option.splits)
  obtain c2 r where body: "solo env (fs_cache s) (PutStart i b) c2 (Leave i r)"
    and result: "out = (case r of Some w \<Rightarrow> Served w \<lparr>h_cache = c2, h_lock = l2\<rparr> | None \<Rightarrow> Dropped \<lparr>h_cache = c2, h_lock = l2\<rparr>)"
  proof (cases st)
    case (PutWriter f)
    obtain w c2 where rest: "put_rest env f b new_writer c1 = (w, c2)" by fastforce
    with PutWriter solo_loop [OF assms(3) parts(2), of b] have "solo env (fs_cache s) (PutStart i b) c2 (Leave i (Some w))"
      by (auto intro: solo_trans solo_rest)
    with that [of c2 "Some w"] out rest PutWriter show thesis by simp
  next
    case (PutReply e)
    with that [of c1 "Some (http_Error e 500 new_writer)"] out solo_loop [OF assms(3) parts(2), of b] show thesis
      by (simp add: put_err_def)
  next
    case PutPanic
    with that [of c1 None] out solo_loop [OF assms(3) parts(2), of b] show thesis by simp
  qed
  have "fs_pcs ?s j = PutLock i b" "kl_pcs (fs_locks ?s) j = Outside" "fs_cache ?s = fs_cache s"
    "KeyLocker_Lock (kl_shared (fs_locks ?s)) i = Returns l1"
    using assms(2) parts(1) by (simp_all add: fs_goto_def)
  from solo_lock [OF this(1,2,4), of env] this(3) obtain u where u: "run server_step ?s (replicate 4 (Move j env)) = Some u"
    "fs_pcs u j = PutStart i b" "fs_cache u = fs_cache s" "kl_shared (fs_locks u) = l1" "kl_pcs (fs_locks u) j = Holding i"
    by auto
  let ?v = "fs_goto j (Leave i r) (u\<lparr>fs_cache := c2\<rparr>)"
  from solo_run [OF body u(3,2)] obtain m where v: "run server_step u (replicate m (Move j env)) = Some ?v" by blast
  have "kl_lock l1 i = Some 1"
    using parts(1) by (auto simp: KeyLocker_Lock_def key_lock_parts Let_def split: option.splits if_splits)
  then have "fs_pcs ?v j = Leave i r" "kl_pcs (fs_locks ?v) j = Holding i" "fs_cache ?v = c2"
    "KeyLocker_Unlock (kl_shared (fs_locks ?v)) i = Returns l2" "kl_lock (kl_shared (fs_locks ?v)) i \<noteq> None"
    using u(4,5) parts(3) by (simp_all add: fs_goto_def)
  from solo_leave [OF this(1,2,4,5), of env] this(3) obtain t where t: "run server_step ?v (replicate 4 (Move j env)) = Some t"
    "fs_pcs t j = PutEnded i r" "fs_cache t = c2" "kl_shared (fs_locks t) = l2" by auto
  have "run server_step ?s (replicate (4 + m + 4) (Move j env)) = Some t"
    using u(1) v t(1) by (simp only: replicate_add run_append option.case)
  with assms(1) have "run server_step s (Put j i b # replicate (4 + m + 4) (Move j env)) = Some t" by simp
  with t(2-4) result show ?thesis
    by (intro exI [of _ "4 + m + 4"] exI [of _ t]) (auto split: option.splits)
qed

theorem solo_put_is_handlePut_witness:
  "\<exists>n t w h. run server_step demo_server (Put 0 idA ([[7], [8]], None) # replicate n (Move 0 no_faults)) = Some t \<and>
    handlePut no_faults idA ([[7], [8]], None) new_writer \<lparr>h_cache = fs_cache demo_server, h_lock = NewKeyLocker\<rparr> =
      Returns (Served w h) \<and> fs_pcs t 0 = PutEnded idA (Some w) \<and> fs_cache t = h_cache h"
proof -
  have shared: "kl_shared (fs_locks demo_server) = NewKeyLocker" "fs_pcs demo_server 0 = Unused"
    "kl_pcs (fs_locks demo_server) 0 = Outside" "partial_removal no_faults"
    by (simp_all add: demo_server_def partial_removal_def no_faults_def)
  have "\<lparr>h_cache = fs_cache demo_server, h_lock = NewKeyLocker\<rparr> = fresh_handler"
    by (simp add: demo_server_def fresh_handler_def NewHandler_def)
  then have "\<exists>w h. handlePut no_faults idA ([[7], [8]], None) new_writer
      \<lparr>h_cache = fs_cache demo_server, h_lock = NewKeyLocker\<rparr> = Returns (Served w h)"
    using handlePut_ok [OF fresh_handler_ready, of idA "[[7], [8]]" new_writer] by metis
  then obtain w h where out: "handlePut no_faults idA ([[7], [8]], None) new_writer
      \<lparr>h_cache = fs_cache demo_server, h_lock = NewKeyLocker\<rparr> = Returns (Served w h)" by blast
  with solo_put_is_handlePut [OF shared(2-4), unfolded shared(1), OF out] show ?thesis by fastforce
qed

end
