(* ===== verification/Scheduler_Lock.thy ===== *)
theory Scheduler_Lock
  imports Scheduler
begin

text \<open>
  The mutex \<open>jobsMu\<close> of the scheduler. \<open>ScheduleJob\<close> keeps it while \<open>Push\<close> waits for room in the
  queue, so that until then no other job can be scheduled and no result can be reported. The
  machine of \<open>Scheduler\<close> only does not let such a call finish; the one here has the waiting call in its
  state. Each of its runs is a run of the other one, so what holds in every run there holds here.
\<close>

section \<open>The machine\<close>

text \<open>\<open>ts_held\<close>: the job whose \<open>ScheduleJob\<close> waits in \<open>Push\<close> with the mutex.\<close>

record table_sys =
  ts_sys :: sched_sys
  ts_held :: "JobSpec option"

definition table_fresh :: table_sys where
  "table_fresh = \<lparr>ts_sys = sched_fresh, ts_held = None\<rparr>"

text \<open>
  A receive from a full channel takes the first item and puts the item of the waiting sender behind
  the others; the sender then enters the job into the table and unlocks, with nobody having seen the
  table in between. The pick of a job and \<open>artifactsMu\<close> do not touch \<open>jobsMu\<close>.
\<close>

definition let_in :: "JobSpec option \<Rightarrow> sched_sys \<Rightarrow> table_sys" where
  "let_in held y =
     (case held of
        None \<Rightarrow> \<lparr>ts_sys = y, ts_held = None\<rparr>
      | Some job \<Rightarrow>
          (case sched_step y (ActSchedule job) of
             None \<Rightarrow> \<lparr>ts_sys = y, ts_held = Some job\<rparr>
           | Some z \<Rightarrow> \<lparr>ts_sys = z, ts_held = None\<rparr>))"

fun table_step :: "table_sys \<Rightarrow> sched_act \<Rightarrow> table_sys option" where
  "table_step s (ActSchedule job) =
     (if ts_held s \<noteq> None then None
      else case ScheduleJob job (sc_sched (ts_sys s)) of
        Returns r \<Rightarrow> map_option (\<lambda>y. s\<lparr>ts_sys := y\<rparr>) (sched_step (ts_sys s) (ActSchedule job))
      | Blocks \<Rightarrow> Some (s\<lparr>ts_held := Some job\<rparr>)
      | Panics m \<Rightarrow> None)"
| "table_step s ActPick = map_option (let_in (ts_held s)) (sched_step (ts_sys s) ActPick)"
| "table_step s (ActComplete w i res) =
     (if ts_held s \<noteq> None then None
      else map_option (\<lambda>y. s\<lparr>ts_sys := y\<rparr>) (sched_step (ts_sys s) (ActComplete w i res)))"
| "table_step s (ActAdd w i) = map_option (\<lambda>y. s\<lparr>ts_sys := y\<rparr>) (sched_step (ts_sys s) (ActAdd w i))"

section \<open>Its runs are runs of the scheduler\<close>

fun table_acts :: "table_sys \<Rightarrow> sched_act \<Rightarrow> sched_act list" where
  "table_acts s (ActSchedule job) =
     (case ScheduleJob job (sc_sched (ts_sys s)) of Returns r \<Rightarrow> [ActSchedule job] | _ \<Rightarrow> [])"
| "table_acts s ActPick =
     ActPick # (case (ts_held s, sched_step (ts_sys s) ActPick) of
       (Some job, Some y) \<Rightarrow> (if sched_step y (ActSchedule job) = None then [] else [ActSchedule job])
     | _ \<Rightarrow> [])"
| "table_acts s a = [a]"

lemma table_step_acts:
  assumes "table_step s a = Some t"
  shows "run sched_step (ts_sys s) (table_acts s a) = Some (ts_sys t)"
proof (cases a)
  case (ActSchedule job)
  with assms show ?thesis
    by (auto simp del: sched_step.simps split: if_splits go.splits)
next
  case ActPick
  with assms obtain y where y: "sched_step (ts_sys s) ActPick = Some y" "t = let_in (ts_held s) y"
    by (auto simp del: sched_step.simps)
  show ?thesis
  proof (cases "ts_held s")
    case (Some job)
    with y ActPick show ?thesis
      by (cases "sched_step y (ActSchedule job)") (simp_all add: let_in_def del: sched_step.simps)
  qed (use y ActPick in \<open>simp add: let_in_def del: sched_step.simps\<close>)
qed (use assms in \<open>auto simp del: sched_step.simps split: if_splits\<close>)

theorem table_run_acts:
  "run table_step s as = Some t \<Longrightarrow> \<exists>bs. run sched_step (ts_sys s) bs = Some (ts_sys t)"
proof (induction as arbitrary: s)
  case Nil
  then have "run sched_step (ts_sys s) [] = Some (ts_sys t)" by simp
  then show ?case by blast
next
  case (Cons a as)
  then obtain u where u: "table_step s a = Some u" "run table_step u as = Some t"
    by (auto simp del: table_step.simps split: option.splits)
  from Cons.IH [OF u(2)] obtain bs where "run sched_step (ts_sys u) bs = Some (ts_sys t)" by blast
  with table_step_acts [OF u(1)] have "run sched_step (ts_sys s) (table_acts s a @ bs) = Some (ts_sys t)"
    by (simp add: run_append)
  then show ?case by blast
qed

section \<open>Invariant\<close>

text \<open>The queue is within its bounds; a call waits only for room in a full queue, with a new job.\<close>

definition queue_len :: "sched_sys \<Rightarrow> nat" where
  "queue_len y = length (channal (queue (sc_sched y)))"

definition waits_ok :: "sched_sys \<Rightarrow> JobSpec \<Rightarrow> bool" where
  "waits_ok y job \<longleftrightarrow> jobs (sc_sched y) (spec_ID job) = None \<and> \<not> isStop (sc_sched y) \<and> queue_len y = queue_capacity"

definition table_inv :: "table_sys \<Rightarrow> bool" where
  [inv_defs]: "table_inv s \<longleftrightarrow> sched_inv (ts_sys s) \<and> queue_len (ts_sys s) \<le> queue_capacity \<and>
     (\<forall>job. ts_held s = Some job \<longrightarrow> waits_ok (ts_sys s) job)"

lemma ScheduleJob_Blocks:
  "ScheduleJob job c = Blocks \<Longrightarrow> \<not> isStop c \<and> jobs c (spec_ID job) = None \<and> queue_capacity \<le> length (channal (queue c))"
  by (auto simp: ScheduleJob_def checkIsStop_def Push_def split: option.splits if_splits)

lemma schedule_len:
  assumes "sched_step y (ActSchedule job) = Some z" "queue_len y \<le> queue_capacity"
  shows "queue_len z \<le> queue_capacity"
proof -
  from assms(1) obtain p c where call: "ScheduleJob job (sc_sched y) = Returns (p, c)" and z: "sc_sched z = c"
    by (auto split: go.splits prod.splits)
  note room = ScheduleJob_room [OF call]
  from call show ?thesis
    by (cases rule: ScheduleJob_cases) (use room assms(2) z in \<open>auto simp: queue_len_def\<close>)
qed

text \<open>A pick takes the first item and changes nothing else of the scheduler.\<close>

lemma pick_parts:
  assumes "sched_step y ActPick = Some z"
  obtains p q where "channal (queue (sc_sched y)) = p # channal q" "sc_sched z = (sc_sched y)\<lparr>queue := q\<rparr>"
proof -
  from assms obtain p q where "Pop (queue (sc_sched y)) = Some (p, q)" "sc_sched z = (sc_sched y)\<lparr>queue := q\<rparr>"
    by (auto simp: PickJob_def checkIsStop_def split: go.splits option.splits if_splits prod.splits)
  with that [of p q] cq.pop_Some [of "queue (sc_sched y)" p q] show thesis by simp
qed

lemma pick_lets_in:
  assumes pick: "sched_step y ActPick = Some z" and waits: "waits_ok y job"
  shows "\<exists>u. sched_step z (ActSchedule job) = Some u"
proof -
  from pick obtain p q where q: "channal (queue (sc_sched y)) = p # channal q" "sc_sched z = (sc_sched y)\<lparr>queue := q\<rparr>"
    by (rule pick_parts)
  with waits have "length (channal q) < queue_capacity" by (simp add: waits_ok_def queue_len_def)
  with waits q(2) show ?thesis by (simp add: waits_ok_def ScheduleJob_def checkIsStop_def Push_def)
qed

lemma table_inv_Pick:
  assumes inv: "table_inv s" and step: "table_step s ActPick = Some t"
  shows "table_inv t" "ts_held t = None"
proof -
  from step obtain y where y: "sched_step (ts_sys s) ActPick = Some y" "t = let_in (ts_held s) y" by auto
  from y(1) obtain p q where q: "channal (queue (sc_sched (ts_sys s))) = p # channal q"
    "sc_sched y = (sc_sched (ts_sys s))\<lparr>queue := q\<rparr>"
    by (rule pick_parts)
  have ok: "sched_inv y" "queue_len y \<le> queue_capacity"
    using inv q sched_inv_step [OF _ y(1)] by (auto simp: table_inv_def queue_len_def)
  have "table_inv t \<and> ts_held t = None"
  proof (cases "ts_held s")
    case None
    with ok y(2) show ?thesis by (simp add: let_in_def table_inv_def)
  next
    case (Some job)
    with inv have "waits_ok (ts_sys s) job" by (simp add: table_inv_def)
    from pick_lets_in [OF y(1) this] obtain u where u: "sched_step y (ActSchedule job) = Some u" by blast
    with ok have "sched_inv u" "queue_len u \<le> queue_capacity"
      using sched_inv_step [OF _ u] schedule_len [OF u] by blast+
    with u y(2) Some show ?thesis by (simp add: let_in_def table_inv_def del: sched_step.simps)
  qed
  then show "table_inv t" "ts_held t = None" by simp_all
qed

lemma table_inv_step:
  assumes inv: "table_inv s" and step: "table_step s a = Some t"
  shows "table_inv t"
proof (cases a)
  case (ActSchedule job)
  with step have free: "ts_held s = None" by (auto split: if_splits)
  show ?thesis
  proof (cases "ScheduleJob job (sc_sched (ts_sys s))")
    case (Returns r)
    with ActSchedule step free obtain y where y: "sched_step (ts_sys s) (ActSchedule job) = Some y" "t = s\<lparr>ts_sys := y\<rparr>"
      by (auto simp del: sched_step.simps)
    with inv free show ?thesis
      using sched_inv_step [OF _ y(1)] schedule_len [OF y(1)] by (simp add: table_inv_def)
  next
    case Blocks
    with ActSchedule step free have t: "t = s\<lparr>ts_held := Some job\<rparr>" by simp
    from inv ScheduleJob_Blocks [OF Blocks] show ?thesis
      by (simp add: t table_inv_def waits_ok_def queue_len_def)
  qed (use ActSchedule step free in simp)
next
  case ActPick
  with table_inv_Pick(1) [OF inv] step show ?thesis by simp
next
  case (ActComplete w i res)
  with step obtain y where y: "sched_step (ts_sys s) a = Some y" "t = s\<lparr>ts_sys := y\<rparr>" and free: "ts_held s = None"
    by (auto simp del: sched_step.simps split: if_splits)
  have "queue_len y = queue_len (ts_sys s)"
    using y(1) ActComplete
    by (auto simp: queue_len_def complete_job_def Let_def split: go.splits prod.splits if_splits)
  with inv y free sched_inv_step [OF _ y(1)] show ?thesis by (simp add: table_inv_def)
next
  case (ActAdd w i)
  with step obtain y where y: "sched_step (ts_sys s) a = Some y" "t = s\<lparr>ts_sys := y\<rparr>"
    by (auto simp del: sched_step.simps)
  have "queue_len y = queue_len (ts_sys s)" "\<And>job. waits_ok y job = waits_ok (ts_sys s) job"
    using y(1) ActAdd by (auto simp: queue_len_def waits_ok_def split: if_splits)
  with inv y sched_inv_step [OF _ y(1)] show ?thesis by (simp add: table_inv_def)
qed

lemma table_inv_fresh: "s = table_fresh \<Longrightarrow> table_inv s"
  using sched_inv_fresh
  by (simp add: table_inv_def table_fresh_def queue_len_def) (simp add: sched_fresh_def NewScheduler_def newChanQueue_def)

interpretation tb: invariant_machine table_step "\<lambda>s. s = table_fresh" table_inv
  by unfold_locales (fact table_inv_fresh table_inv_step)+

section \<open>Properties\<close>

text \<open>
  While a call waits the queue is full; a pick is possible, and lets it in: the call has entered its job
  and given the mutex back.
\<close>

theorem waiting_call_gets_in:
  assumes "run table_step table_fresh as = Some s" "ts_held s = Some job"
  shows "queue_len (ts_sys s) = queue_capacity \<and>
    (\<exists>t. table_step s ActPick = Some t \<and> ts_held t = None \<and> jobs (sc_sched (ts_sys t)) (spec_ID job) \<noteq> None)"
proof -
  have inv: "table_inv s" by (rule tb.reachable_inv [OF refl assms(1)])
  with assms(2) have waits: "waits_ok (ts_sys s) job" by (simp add: table_inv_def)
  then obtain p ps where "channal (queue (sc_sched (ts_sys s))) = p # ps"
    by (cases "channal (queue (sc_sched (ts_sys s)))") (auto simp: waits_ok_def queue_len_def queue_capacity_def)
  with waits have "\<exists>y. sched_step (ts_sys s) ActPick = Some y"
    by (simp add: waits_ok_def PickJob_def checkIsStop_def Pop_def)
  then obtain y where y: "sched_step (ts_sys s) ActPick = Some y" by blast
  from pick_lets_in [OF y waits] obtain z where z: "sched_step y (ActSchedule job) = Some z" by blast
  then have "jobs (sc_sched z) (spec_ID job) \<noteq> None"
    by (auto elim!: ScheduleJob_cases split: go.splits prod.splits)
  with waits y z assms(2) show ?thesis
    by (simp add: waits_ok_def let_in_def del: sched_step.simps)
qed

text \<open>
  Until then nothing else gets into the table: no job is scheduled and, above all, no result is
  reported. A heartbeat reports its results before it picks a job; when the queue is full and every
  worker has a result to report, all of them wait for the mutex, and nobody is left to pick.
\<close>

theorem full_queue_blocks_reports:
  assumes "run table_step s as = Some t" "ts_held s = Some job" "ActPick \<notin> set as"
  shows "ts_held t = Some job \<and> jobs (sc_sched (ts_sys t)) = jobs (sc_sched (ts_sys s)) \<and>
    store (sc_sched (ts_sys t)) = store (sc_sched (ts_sys s)) \<and> (\<forall>a \<in> set as. \<exists>w i. a = ActAdd w i)"
  using assms
proof (induction as arbitrary: s)
  case (Cons a as)
  then obtain u where u: "table_step s a = Some u" "run table_step u as = Some t"
    by (auto simp del: table_step.simps split: option.splits)
  from u(1) Cons.prems(2,3) obtain w i y where "a = ActAdd w i" "sched_step (ts_sys s) (ActAdd w i) = Some y" "u = s\<lparr>ts_sys := y\<rparr>"
    by (cases a) (auto simp del: sched_step.simps)
  moreover from this have "jobs (sc_sched y) = jobs (sc_sched (ts_sys s))" "store (sc_sched y) = store (sc_sched (ts_sys s))"
    by (auto split: if_splits)
  ultimately show ?case
    using Cons.IH [OF u(2)] Cons.prems(2,3) by auto
qed simp

end
