(* ===== verification/Spec2Isabelle.thy ===== *)
theory Spec2Isabelle
  imports Build_Graph Top_Sort Sync_Map Key_Lock Happens_Before Artifact_Cache Artifact_Transfer
    Tar_Stream File_Cache File_Handler Job_Queue Scheduler Status_Stream Signal_Start
    Heartbeat_Service Worker Client Key_Lock_Spec Artifact_Store_Spec Scheduler_Spec Worker_Run
    Signalled_Jobs Recorder Coordinator_API File_Uploads File_Solo Scheduler_Lock
begin

text \<open>
  Distbuild is a distributed build system in Go. A \<^emph>\<open>client\<close> (\<open>src/pkg/client\<close>) sends a graph of
  build jobs to a \<^emph>\<open>coordinator\<close> (\<open>src/pkg/dist\<close>), uploads the source files the coordinator asks
  for, signals that they are there, and follows a stream of status updates. The coordinator
  sorts the jobs (\<open>src/pkg/build\<close>) and gives them, dependencies first, to its \<^emph>\<open>scheduler\<close>
  (\<open>src/pkg/scheduler\<close>). \<^emph>\<open>Workers\<close> (\<open>src/pkg/worker\<close>) poll the coordinator with heartbeats
  (\<open>src/pkg/api\<close>): they report finished jobs and take new ones, fetch source files from the
  coordinator's \<^emph>\<open>file cache\<close> (\<open>src/pkg/filecache\<close>) and the outputs of dependencies from other
  workers' \<^emph>\<open>artifact caches\<close> (\<open>src/pkg/artifact\<close>, as tar streams, \<open>src/pkg/tarstream\<close>), run
  the commands and publish the output as an artifact. The locks and maps they share are in
  \<open>src/pkg/concurrency\<close>.

  \<^bold>\<open>How code is modelled.\<close> A struct is a record with the code's field names, an error type a
  datatype, a nil pointer or a missing map key an option. A call that can panic or block for ever
  has the result type \<open>'a go\<close> (\<open>Returns\<close>, \<open>Panics\<close>, \<open>Blocks\<close>; theory \<open>Prelude\<close>). A map the code
  ranges over is the list of its entries in range order, and a property for every such list holds
  for every order. System calls are in \<open>File_Tree\<close>: which of them fail, and how, and the umask are the
  argument \<open>env\<close>; a tree has directories and regular files with their modes, and everything else
  (symbolic links above all) as what \<open>Lstat\<close> and reading it give. The network, child processes, the template engine, the random source and
  \<open>singleflight\<close> are arguments too. Concurrent code is cut where another goroutine can run - at
  mutexes, channels, atomic operations and system calls - and becomes a function from a state and
  a label to the next state, or \<open>None\<close> where the step is not enabled; a list of labels is one
  interleaving (theory \<open>Machines\<close>). Values the proofs speak of but the code does not keep are
  marked as history where they are declared.

  \<^bold>\<open>Theories.\<close> Below them all: \<open>Prelude\<close>, \<open>Machines\<close>, \<open>Refinement\<close>, \<open>File_Tree\<close>, \<open>Http\<close>.
  \<^item> \<open>Ids\<close> (\<open>build/id.go\<close>): identifiers and their text form; round trip, and which texts are accepted.
  \<^item> \<open>Build_Graph\<close> (\<open>build/graph.go\<close>, \<open>build/cmd.go\<close>): jobs, commands, \<open>Render\<close> and its reference.
  \<^item> \<open>Top_Sort\<close> (\<open>build/top_sort.go\<close>): \<open>visit\<close> is a nested recursion that terminates because the number of
    unvisited jobs falls; the result is a permutation, ordered exactly when the graph is acyclic.
  \<^item> \<open>Sync_Map\<close>, \<open>Key_Lock\<close>, \<open>Happens_Before\<close> (\<open>concurrency\<close>): calls of one goroutine, and machines of any
    number of goroutines with their invariants, mutual exclusion, progress and the order of events.
    \<open>Key_Lock_Spec\<close>: the locker refines a table of atomic locks.
  \<^item> \<open>Artifact_Cache\<close> (\<open>artifact/cache.go\<close>): the operations with failing system calls, the machine of
    goroutines sharing a cache, and the contract for one caller. \<open>Artifact_Store_Spec\<close>: the machine
    refines a store with atomic events. \<open>Tar_Stream\<close>, \<open>Artifact_Transfer\<close>: sending and receiving trees,
    serving and downloading an artifact, the error text the handler writes into a stream that broke off
    included; what arrives of a regular tree, and how a link, stale files or a name with \<open>..\<close> spoil it.
  \<^item> \<open>File_Cache\<close>, \<open>File_Handler\<close> (\<open>filecache\<close>): single files in an artifact cache, the PUT and GET
    handlers run one at a time, the client; what is stored is what was sent, and other files are not
    touched. \<open>File_Server\<close>: the handlers as goroutines that share the cache and the locks, with
    signals that remove files. \<open>File_Server_Spec\<close>, \<open>File_Server_Claims\<close>, \<open>File_Uploads\<close>: they refine a
    table of whole files, what they answer is true, nobody waits for ever, uploads alone never fail.
    \<open>File_Solo\<close> checks the two translations of \<open>handlePut\<close> against each other: run alone, the goroutine
    does what the function does.
  \<^item> \<open>Api_Types\<close>, \<open>Status_Stream\<close> (\<open>api\<close>): messages, the status writer and reader, handlers and clients;
    the stream ends when the handler returns, which is a step of the signal's machine.
  \<^item> \<open>Job_Queue\<close>, \<open>Scheduler\<close> (\<open>scheduler\<close>): queue, job table, artifact table; every interleaving of
    callers. \<open>Scheduler_Spec\<close>: without pointers and channels, a board of jobs; its history and bounds.
    \<open>Scheduler_Lock\<close>: the same machine with the call that waits in \<open>Push\<close> and holds \<open>jobsMu\<close>; its runs are
    runs of the one without, and no result can be reported until a job is picked.
  \<^item> \<open>Build_Service\<close> (\<open>dist/build_service.go\<close>, \<open>dist/coordinator.go\<close>): \<open>StartBuild\<close>, and a running
    \<open>SignalBuild\<close> as a machine of its loop, one goroutine per job, and all other users of the scheduler.
    Appending to \<open>errs\<close> is a race, so an error can get lost while another one stays.
    \<open>Signal_Invariant\<close>, \<open>Signal_Properties\<close>: its invariant; what it has sent and scheduled, what it waits
    for, and the race in which it panics. \<open>Signal_Start\<close>: what \<open>StartBuild\<close> leaves for the signal.
  \<^item> \<open>Heartbeat_Service\<close> (\<open>dist/heartbeat_service.go\<close>): a heartbeat. \<open>Client\<close> (\<open>client/build.go\<close>): a build
    as the client runs it. \<open>Recorder\<close> (\<open>disttest/recorder.go\<close>): the listener of the tests.
  \<^item> \<open>Coordinator_API\<close> (\<open>dist/coordinator.go\<close>, the handlers of \<open>api\<close> and \<open>filecache\<close>): the routes on one
    coordinator, and a build over HTTP from the client's call to the start of the loop of its signal.
  \<^item> \<open>Worker\<close> (\<open>worker\<close>): its operations, and a cycle with one job after the other. \<open>Worker_Pool\<close>: the jobs of
    a heartbeat as goroutines that share the artifact cache with the artifact handler; \<open>Pool_Invariant\<close>,
    \<open>Pool_Properties\<close>, \<open>Pool_Progress\<close>, \<open>Pool_Reports\<close>, \<open>Pool_Claims\<close>: who holds which lock, that they end, and
    what they report. \<open>Worker_Run\<close>: from \<open>New\<close> to the end of \<open>Run\<close>, with \<open>show\<close> and \<open>stop\<close>.
  \<^item> \<open>Worker_Cycle\<close>, \<open>Signalled_Jobs\<close>, and this theory: properties that span machines. A heartbeat is a run
    of the scheduler's machine; jobs go from a signal over a heartbeat to a worker and their results
    back; what the scheduler holds reaches the client's listener.

  \<^bold>\<open>Interfaces.\<close> \<open>invariant_machine\<close>, a machine with an inductive invariant: interpreted for the locker
  (\<open>kl\<close>), the happens-before machine (\<open>hbm\<close>), the artifact cache (\<open>cm\<close>, \<open>st\<close>), the scheduler (\<open>sc\<close>, \<open>jb\<close>, \<open>tb\<close>),
  the signal (\<open>sg\<close>, \<open>located\<close>, \<open>calm\<close>), the pool of a worker (\<open>pl\<close>) and the file server (\<open>fs\<close>).
  \<open>refinement\<close> extends it by a specification: the locker (\<open>kls\<close>), the artifact cache (\<open>str\<close>), the
  scheduler (\<open>jbr\<close>), the file server (\<open>fsr\<close>). Contracts for one caller: \<open>keyed_store\<close> (\<open>sm\<close>, \<open>SyncMap\<close>),
  \<open>keyed_mutex\<close> (\<open>km\<close>, \<open>KeyLocker\<close>, used by the file handler), \<open>artifact_store\<close> (\<open>ac\<close>, the artifact cache,
  used by the file cache, the transfer and the worker), \<open>fifo_queue\<close> (\<open>cq\<close>, \<open>chanQueue\<close>, used by the
  scheduler) and \<open>status_writer\<close> (\<open>sw\<close>, \<open>streamStatusWriter\<close>).

  \<^bold>\<open>Fuel.\<close> \<open>put_loop\<close> takes fuel for the jump back to its start; two rounds are always enough
  (\<open>put_loop_two_rounds\<close>). \<open>listen_all\<close> gives its loop one round more than there are messages, which
  is always enough (\<open>listen_all_returns\<close>). All other loops are structural recursions or steps of a machine.

  \<^bold>\<open>Not modelled.\<close> Logging, the texts of JSON documents, HTTP headers and the error texts of replies
  outside \<open>filecache\<close>, what the constructors set up for HTTP, the byte format of tar, and the inside of a
  child process. The generated mocks (\<open>api/mock\<close>) are test doubles, and \<open>disttest/fixture.go\<close> starts servers
  and makes directories for tests. A signal's machine has every other user of the scheduler around it,
  but not a coordinator that is stopped, nor the removal of source files by other signals, which the
  machine of the file server has.
\<close>

section \<open>From the scheduler's results to the client's listener\<close>

text \<open>
  C35. A client reads the stream of a build from its second message to its end, which comes when the
  end of the build has been announced and the handler of the stream has returned. It then reports
  success (whatever the results say), every job of the build is finished, and it has called its
  listener three times each for at least one job and at most once for every job, always for the
  result the scheduler holds. It has heard every job if the signal has returned without an error and
  nothing was written after the handler had returned; what is written later never reaches it.
\<close>

theorem client_hears_results:
  assumes "sig_start s0" "run sig_step s0 as = Some t" "sw_cut (sg_writer t) = Some n"
  shows "\<exists>heard. listen_all [] recorder \<lparr>sr_rest = tl (delivered (sg_writer t)), sr_end = None\<rparr> [] =
      Some (None, concat (map job_calls heard)) \<and> heard \<noteq> [] \<and> length heard = n - 1 \<and>
    image_mset Some (mset heard) \<subseteq>#
      image_mset (\<lambda>jf. Result (store (sc_sched (sg_sys t)) (the (jobs (sc_sched (sg_sys t)) (Job_ID (fst jf))))))
        (mset (sg_todo s0)) \<and>
    (\<forall>jf \<in> set (sg_todo s0). job_finished (sc_sched (sg_sys t)) (Job_ID (fst jf))) \<and>
    (sg_main t = SignalReturned None \<and> n = length (sw_out (sg_writer t)) \<longrightarrow> length heard = length (sg_todo s0))"
proof -
  let ?c = "sc_sched (sg_sys t)"
  obtain b us where us: "delivered (sg_writer t) = MsgStarted b # map MsgUpdate us" "n = Suc (length us)" "\<exists>u \<in> set us. BuildFinished u"
    "\<forall>u \<in> set us. JobFinished u \<noteq> None" "image_mset JobFinished (mset us) \<subseteq>#
      image_mset (\<lambda>j. Result (store ?c (the (jobs ?c (Job_ID j))))) (mset (map fst (sg_todo s0)))"
    "\<forall>jf \<in> set (sg_todo s0). job_finished ?c (Job_ID (fst jf))"
    using delivered_updates [OF assms] by blast
  let ?heard = "map (\<lambda>u. the (JobFinished u)) us"
  have calls: "concat (map update_calls us) = concat (map job_calls ?heard)"
    using us(4) by (induction us) (auto simp: update_calls_def)
  have "listen_all [] recorder \<lparr>sr_rest = tl (delivered (sg_writer t)), sr_end = None\<rparr> [] =
      Some (None, concat (map job_calls ?heard))"
    using listen_loop_records [OF us(4), of "[]"] us(1) calls by (simp add: listen_all_def)
  moreover have "image_mset Some (mset ?heard) = image_mset JobFinished (mset us)"
    using us(4) by (induction us) auto
  moreover have "length ?heard = length (sg_todo s0)"
    if ret: "sg_main t = SignalReturned None" "n = length (sw_out (sg_writer t))"
  proof -
    obtain b' us' where "sw_out (sg_writer t) = MsgStarted b' # map MsgUpdate us'"
      "image_mset JobFinished (mset us') =
        image_mset (\<lambda>j. Result (store ?c (the (jobs ?c (Job_ID j))))) (mset (map fst (sg_todo s0)))"
      using signal_success_updates [OF assms(1,2) ret(1)] by blast
    moreover from this(2) have "length us' = length (sg_todo s0)"
      by (metis length_map size_image_mset size_mset)
    moreover have "delivered (sg_writer t) = sw_out (sg_writer t)"
      using assms(3) ret(2) by (simp add: delivered_def)
    ultimately show ?thesis using us(1) by (metis length_map list.size(4) add_right_cancel)
  qed
  ultimately show ?thesis
    using us(2,3,5,6) by (intro exI [of _ ?heard]) (auto simp: multiset.map_comp comp_def)
qed

text \<open>
  The whole run of a build of two jobs, heard in full; and the same build when the handler returns as
  soon as the end is announced, before the update of the second job has been written.
\<close>

theorem client_hears_results_witness:
  "(\<exists>t heard. run sig_step demo_signal (demo_full_run @ [HandlerReturns]) = Some t \<and> length heard = 2 \<and>
      listen_all [] recorder \<lparr>sr_rest = tl (delivered (sg_writer t)), sr_end = None\<rparr> [] =
        Some (None, concat (map job_calls heard))) \<and>
   (\<exists>t heard. run sig_step demo_signal demo_early_run = Some t \<and> length heard = 1 \<and>
      listen_all [] recorder \<lparr>sr_rest = tl (delivered (sg_writer t)), sr_end = None\<rparr> [] =
        Some (None, concat (map job_calls heard)))"
proof -
  obtain t where t: "run sig_step demo_signal (demo_full_run @ [HandlerReturns]) = Some t" "sw_cut (sg_writer t) = Some 3"
    using demo_handler_late by blast
  obtain u where u: "run sig_step demo_signal demo_early_run = Some u" "sw_cut (sg_writer u) = Some 2"
    using demo_handler_early by blast
  from client_hears_results [OF demo_signal_start t] client_hears_results [OF demo_signal_start u] show ?thesis
    using t(1) u(1) by fastforce
qed

end
